(* ===== verification/Prelude.thy ===== *)
theory Prelude
  imports Main "HOL-Library.Word" "HOL-Library.Monad_Syntax"
begin

text \<open>
  The part of Rust and of its standard library that the crate uses, as executable
  definitions with the laws the other theories rely on.

  \<^item> Machine integers: \<open>u8\<close>, \<open>u16\<close> and \<open>u32\<close> are words of that width. A \<open>usize\<close> is a
    \<open>nat\<close>; where the crate adds to a \<open>usize\<close> that no container bounds, the overflow
    check is written out with \<^verbatim>\<open>usize_add\<close>. \<open>Duration\<close> and \<open>Instant\<close> count nanoseconds.
  \<^item> Panics: an operation that can panic returns an \<open>option\<close>, and \<open>None\<close> is the panic
    (a failed \<open>assert!\<close>, \<open>unwrap\<close>, slice index or overflow check). Operations are composed
    in the option monad, so a panic of a callee is a panic of its caller.
  \<^item> \<open>Result<T, E>\<close> is the sum \<open>'e + 't\<close>, with \<open>Inl\<close> for \<open>Err\<close>.
  \<^item> Slices are lists: \<open>get(a..b)\<close>, indexing and \<open>copy_from_slice\<close> with their range checks.
\<close>

named_theorems rust_simps "unfolding rules of the standard-library functions"
named_theorems wf_intros "an operation keeps a well-formedness invariant"
named_theorems frame_simps "parts of the state an operation does not touch"

section \<open>Machine integers\<close>

type_synonym u8 = "8 word"
type_synonym u16 = "16 word"
type_synonym u32 = "32 word"
type_synonym usize = nat
type_synonym Duration = nat
type_synonym Instant = nat

abbreviation USIZE_LIMIT :: nat where
  "USIZE_LIMIT \<equiv> 2 ^ 64"

definition usize_add :: "usize \<Rightarrow> usize \<Rightarrow> usize option" where
  "usize_add a b = (if a + b < USIZE_LIMIT then Some (a + b) else None)"

definition usize_sub :: "usize \<Rightarrow> usize \<Rightarrow> usize option" where
  "usize_sub a b = (if b \<le> a then Some (a - b) else None)"

definition usize_saturating_add :: "usize \<Rightarrow> usize \<Rightarrow> usize" where
  "usize_saturating_add a b = min (a + b) (USIZE_LIMIT - 1)"

definition u16_try_from :: "usize \<Rightarrow> u16 option" where
  "u16_try_from n = (if n < 2 ^ 16 then Some (of_nat n) else None)"

definition u32_try_from :: "usize \<Rightarrow> u32 option" where
  "u32_try_from n = (if n < 2 ^ 32 then Some (of_nat n) else None)"

definition u32_add :: "u32 \<Rightarrow> u32 \<Rightarrow> u32 option" where
  "u32_add a b = (if unat a + unat b < 2 ^ 32 then Some (a + b) else None)"

definition u16_add :: "u16 \<Rightarrow> u16 \<Rightarrow> u16 option" where
  "u16_add a b = (if unat a + unat b < 2 ^ 16 then Some (a + b) else None)"

definition u16_saturating_add :: "u16 \<Rightarrow> u16 \<Rightarrow> u16" where
  "u16_saturating_add a b = (if unat a + unat b < 2 ^ 16 then a + b else 65535)"

definition u16_saturating_sub :: "u16 \<Rightarrow> u16 \<Rightarrow> u16" where
  "u16_saturating_sub a b = (if b \<le> a then a - b else 0)"

definition u16_saturating_mul :: "u16 \<Rightarrow> u16 \<Rightarrow> u16" where
  "u16_saturating_mul a b = (if unat a * unat b < 2 ^ 16 then a * b else 65535)"

lemma unat_u16_of_nat [simp]: "n < 65536 \<Longrightarrow> unat (of_nat n :: u16) = n"
  by (simp add: unat_of_nat)

lemma unat_u32_of_nat [simp]: "n < 4294967296 \<Longrightarrow> unat (of_nat n :: u32) = n"
  by (simp add: unat_of_nat)

lemma unat_u16_less [simp]: "unat (x :: u16) < 65536"
  using unsigned_less [of x, where 'a = nat] by simp

lemma unat_u32_less [simp]: "unat (x :: u32) < 4294967296"
  using unsigned_less [of x, where 'a = nat] by simp

lemma unat_u8_less [simp]: "unat (x :: u8) < 256"
  using unsigned_less [of x, where 'a = nat] by simp

lemma u16_try_from_small [simp]: "n < 65536 \<Longrightarrow> u16_try_from n = Some (of_nat n)"
  by (simp add: u16_try_from_def)

lemma unat_u16_saturating_add:
  "unat (u16_saturating_add a b) = min (unat a + unat b) 65535"
  by (auto simp: u16_saturating_add_def unat_word_ariths min_def)

lemma unat_u16_saturating_mul:
  "unat (u16_saturating_mul a b) = min (unat a * unat b) 65535"
  by (auto simp: u16_saturating_mul_def unat_word_ariths min_def)

lemma unat_u16_saturating_sub:
  "unat (u16_saturating_sub a b) = unat a - unat b"
  by (auto simp: u16_saturating_sub_def unat_sub word_le_nat_alt)

lemma u32_add_Some_iff:
  "u32_add a b = Some c \<longleftrightarrow> unat a + unat b < 2 ^ 32 \<and> unat c = unat a + unat b"
proof -
  have "unat (a + b) = unat a + unat b" if "unat a + unat b < 2 ^ 32"
    using that by (simp add: unat_word_ariths)
  then show ?thesis
    by (auto simp: u32_add_def intro: word_unat_eq_iff [THEN iffD2])
qed

section \<open>Little-endian encoding of a sequence index\<close>

definition u32_to_le_bytes :: "u32 \<Rightarrow> u8 list" where
  "u32_to_le_bytes x =
     (let n = unat x in
      [of_nat (n mod 256), of_nat (n div 256 mod 256),
       of_nat (n div 65536 mod 256), of_nat (n div 16777216 mod 256)])"

text \<open>\<open>u32::from_le_bytes(slice.try_into().unwrap())\<close>: the conversion to an array of four
  bytes panics for any other length.\<close>

definition u32_from_le_bytes :: "u8 list \<Rightarrow> u32 option" where
  "u32_from_le_bytes bs =
     (case bs of
        [a, b, c, d] \<Rightarrow>
          Some (of_nat (unat a + 256 * unat b + 65536 * unat c + 16777216 * unat d))
      | _ \<Rightarrow> None)"

lemma length_u32_to_le_bytes [simp]: "length (u32_to_le_bytes x) = 4"
  by (simp add: u32_to_le_bytes_def Let_def)

lemma unat_u8_of_nat_mod [simp]: "unat (of_nat (n mod 256) :: u8) = n mod 256"
  by (simp add: unat_of_nat)

lemma u32_le_roundtrip [simp]: "u32_from_le_bytes (u32_to_le_bytes x) = Some x"
proof -
  define n where "n = unat x"
  have "n < 4294967296" by (simp add: n_def)
  have "n div 16777216 < 256"
    using \<open>n < 4294967296\<close> by (simp add: less_mult_imp_div_less)
  then have "n div 16777216 mod 256 = n div 16777216" by simp
  moreover have "n div 65536 = n div 65536 mod 256 + 256 * (n div 16777216)"
    using mod_mult_div_eq [of "n div 65536" 256] by (simp add: div_mult2_eq [symmetric])
  moreover have "n div 256 = n div 256 mod 256 + 256 * (n div 65536)"
    using mod_mult_div_eq [of "n div 256" 256] by (simp add: div_mult2_eq [symmetric])
  moreover have "n = n mod 256 + 256 * (n div 256)"
    by simp
  ultimately have "n mod 256 + 256 * (n div 256 mod 256) + 65536 * (n div 65536 mod 256)
      + 16777216 * (n div 16777216 mod 256) = n"
    by linarith
  then show ?thesis
    by (simp only: u32_to_le_bytes_def u32_from_le_bytes_def Let_def list.case
        unat_u8_of_nat_mod n_def [symmetric]) (simp add: n_def)
qed

lemma u32_from_le_bytes_eq_Some [simp]:
  "(\<exists>x. u32_from_le_bytes bs = Some x) \<longleftrightarrow> length bs = 4"
proof -
  have "length bs = 4 \<longleftrightarrow> (\<exists>a b c d. bs = [a, b, c, d])"
    by (auto simp: numeral_eq_Suc length_Suc_conv)
  then show ?thesis
    by (auto simp: u32_from_le_bytes_def simp del: of_nat_add split: list.splits)
qed

lemma u32_from_le_bytes_SomeD:
  assumes "u32_from_le_bytes bs = Some s" shows "u32_to_le_bytes s = bs"
proof -
  have "length bs = 4" using assms u32_from_le_bytes_eq_Some [of bs] by blast
  then obtain a b c d where bs: "bs = [a, b, c, d]"
    by (auto simp: numeral_eq_Suc length_Suc_conv)
  let ?n = "unat a + 256 * unat b + 65536 * unat c + 16777216 * unat d"
  have l: "unat a < 256" "unat b < 256" "unat c < 256" "unat d < 256"
    using unsigned_less [of a] unsigned_less [of b] unsigned_less [of c] unsigned_less [of d] by simp_all
  have s: "s = of_nat ?n" using assms by (simp add: bs u32_from_le_bytes_def del: of_nat_add)
  have "?n < 4294967296" using l by linarith
  then have "unat s = ?n" unfolding s by (simp add: unat_of_nat del: of_nat_add)
  moreover have dm: "(x + 256 * y) mod 256 = x" "(x + 256 * y) div 256 = y" if "x < 256" for x y :: nat
    using that by simp_all
  let ?y = "unat c + 256 * unat d" let ?x = "unat b + 256 * ?y"
  have n: "?n = unat a + 256 * ?x" by simp
  have "?n mod 256 = unat a" "?n div 256 = ?x" using l dm unfolding n by blast+
  moreover have "?x mod 256 = unat b" "?x div 256 = ?y" "?y mod 256 = unat c" "?y div 256 = unat d"
    using l dm by blast+
  moreover have "?n div 65536 = ?n div 256 div 256" "?n div 16777216 = ?n div 256 div 256 div 256"
    by (simp_all add: div_mult2_eq [symmetric])
  moreover have "unat d mod 256 = unat d" using l by simp
  ultimately show ?thesis by (simp only: u32_to_le_bytes_def bs Let_def) simp
qed

section \<open>Slices\<close>

definition slice_get :: "'a list \<Rightarrow> nat \<Rightarrow> nat \<Rightarrow> 'a list option" where
  "slice_get xs a b = (if a \<le> b \<and> b \<le> length xs then Some (take (b - a) (drop a xs)) else None)"

definition slice_from :: "'a list \<Rightarrow> nat \<Rightarrow> 'a list option" where
  "slice_from xs a = (if a \<le> length xs then Some (drop a xs) else None)"

text \<open>\<open>xs[a..b].copy_from_slice(src)\<close>: panics when the range leaves the slice or the
  lengths differ.\<close>

definition copy_into :: "'a list \<Rightarrow> nat \<Rightarrow> nat \<Rightarrow> 'a list \<Rightarrow> 'a list option" where
  "copy_into xs a b src =
     (if a \<le> b \<and> b \<le> length xs \<and> length src = b - a
      then Some (take a xs @ src @ drop b xs) else None)"

definition index_set :: "'a list \<Rightarrow> nat \<Rightarrow> 'a \<Rightarrow> 'a list option" where
  "index_set xs i x = (if i < length xs then Some (xs[i := x]) else None)"

text \<open>\<open>Vec::resize\<close> and the growing use the crate makes of it.\<close>

definition vec_resize :: "'a list \<Rightarrow> nat \<Rightarrow> 'a \<Rightarrow> 'a list" where
  "vec_resize xs n x = take n xs @ replicate (n - length xs) x"

text \<open>\<open>Iterator::position\<close>.\<close>

fun position :: "('a \<Rightarrow> bool) \<Rightarrow> 'a list \<Rightarrow> nat option" where
  "position p [] = None"
| "position p (x # xs) = (if p x then Some 0 else map_option Suc (position p xs))"

lemma slice_get_length: "slice_get xs a b = Some ys \<Longrightarrow> length ys = b - a"
  by (auto simp: slice_get_def split: if_splits)

lemma length_copy_into: "copy_into xs a b src = Some ys \<Longrightarrow> length ys = length xs"
  by (auto simp: copy_into_def split: if_splits)

lemma length_vec_resize [simp]: "length (vec_resize xs n x) = n"
  by (simp add: vec_resize_def)

lemma vec_resize_grow: "length xs \<le> n \<Longrightarrow> vec_resize xs n x = xs @ replicate (n - length xs) x"
  by (simp add: vec_resize_def)

lemma position_None_iff: "position p xs = None \<longleftrightarrow> (\<forall>x \<in> set xs. \<not> p x)"
  by (induction xs) auto

lemma position_Some_iff:
  "position p xs = Some i \<longleftrightarrow> i < length xs \<and> p (xs ! i) \<and> (\<forall>j < i. \<not> p (xs ! j))"
proof (induction xs arbitrary: i)
  case Nil
  then show ?case by simp
next
  case (Cons x xs)
  then show ?case by (cases i) (auto simp: All_less_Suc2)
qed

lemma position_takeWhile:
  "(case position p xs of None \<Rightarrow> length xs | Some i \<Rightarrow> i) = length (takeWhile (\<lambda>x. \<not> p x) xs)"
  by (induction xs) (simp_all split: option.split_asm option.split)

lemma drop_length_takeWhile [simp]: "drop (length (takeWhile P xs)) xs = dropWhile P xs"
  by (metis dropWhile_eq_drop)

lemma length_diff_neq: "0 < n \<Longrightarrow> xs \<noteq> [] \<Longrightarrow> length xs - n \<noteq> length xs"
  by (cases xs) auto

section \<open>Successful runs\<close>

text \<open>Taking a run that did not panic apart, along the binds and cases of the program.\<close>

lemma case_sum_eq_Some:
  "(case r of Inl a \<Rightarrow> f a | Inr b \<Rightarrow> g b) = Some y \<longleftrightarrow>
     (\<exists>a. r = Inl a \<and> f a = Some y) \<or> (\<exists>b. r = Inr b \<and> g b = Some y)"
  by (cases r) auto

lemma case_option_eq_Some:
  "(case r of None \<Rightarrow> f | Some b \<Rightarrow> g b) = Some y \<longleftrightarrow>
     (r = None \<and> f = Some y) \<or> (\<exists>b. r = Some b \<and> g b = Some y)"
  by (cases r) auto

lemmas run_simps = bind_eq_Some_conv case_sum_eq_Some case_option_eq_Some Let_def

end
