(* ===== verification/World.thy ===== *)
theory World
  imports Prelude
begin

unbundle bit_operations_syntax

text \<open>
  What the crate sees of the operating system: the clock behind \<open>Instant::now()\<close>, the
  source of random UUIDs behind \<open>Uuid::new_v4()\<close> and the UDP socket behind
  \<open>UdpSocket::send_to\<close>. They are one record, threaded through every operation that uses
  them. The clock, the UUID source and the outcomes of \<open>send_to\<close> are arbitrary functions of
  the number of calls made so far, so that a statement about every \<open>world\<close> is a statement
  about every behaviour of the environment; what was handed to the network is kept in a log.

  The \<open>NonBlocking\<close> trait of \<^verbatim>\<open>packet.rs\<close> is the type \<open>socket\<close>; its contract is the locale
  \<open>nonblocking\<close>, and \<open>NonBlockingUdpSocket\<close> of \<^verbatim>\<open>net.rs\<close> is shown to meet it.
\<close>

section \<open>UUIDs\<close>

text \<open>A \<open>Uuid\<close> is 16 bytes; as a 128-bit word its order is the byte-wise order of the
  derived \<open>Ord\<close>.\<close>

type_synonym Uuid = "128 word"

definition Uuid_as_bytes :: "Uuid \<Rightarrow> u8 list" where
  "Uuid_as_bytes u = map (\<lambda>i. ucast (drop_bit (8 * (15 - i)) u)) [0..<16]"

primrec word_of_le_bytes :: "u8 list \<Rightarrow> Uuid" where
  "word_of_le_bytes [] = 0"
| "word_of_le_bytes (b # bs) = ucast b OR push_bit 8 (word_of_le_bytes bs)"

definition Uuid_from_slice :: "u8 list \<Rightarrow> Uuid option" where
  "Uuid_from_slice bs = (if length bs = 16 then Some (word_of_le_bytes (rev bs)) else None)"

lemma length_Uuid_as_bytes [simp]: "length (Uuid_as_bytes u) = 16"
  by (simp add: Uuid_as_bytes_def)

lemma nth_Uuid_as_bytes:
  "i < 16 \<Longrightarrow> Uuid_as_bytes u ! i = ucast (drop_bit (8 * (15 - i)) u)"
  by (simp add: Uuid_as_bytes_def nth_map_upt del: upt_conv_Cons upt_rec_numeral)

lemma bit_word_of_le_bytes:
  "bit (word_of_le_bytes bs) n \<longleftrightarrow>
     n < 128 \<and> n div 8 < length bs \<and> bit (bs ! (n div 8)) (n mod 8)"
proof (induction bs arbitrary: n)
  case Nil
  then show ?case by simp
next
  case (Cons b bs)
  show ?case
  proof (cases "n < 8")
    case True
    then show ?thesis by (simp add: bit_simps)
  next
    case False
    then obtain m where m: "n = m + 8"
      by (metis add.commute le_Suc_ex not_less)
    have d: "(m + 8) div 8 = Suc (m div 8)" by simp
    show ?thesis
      unfolding m using Cons.IH [of m] by (auto simp: bit_simps d dest: bit_imp_le_length)
  qed
qed

lemma Uuid_roundtrip [simp]: "Uuid_from_slice (Uuid_as_bytes u) = Some u"
proof -
  have "word_of_le_bytes (rev (Uuid_as_bytes u)) = u"
  proof (rule bit_word_eqI)
    fix n assume "n < LENGTH(128)"
    then have n: "n < 128" by simp
    then have d: "n div 8 < 16" by (simp add: less_mult_imp_div_less)
    have "rev (Uuid_as_bytes u) ! (n div 8) = ucast (drop_bit (8 * (n div 8)) u)"
      using d by (simp add: rev_nth nth_Uuid_as_bytes)
    then show "bit (word_of_le_bytes (rev (Uuid_as_bytes u))) n = bit u n"
      using n d by (simp add: bit_word_of_le_bytes bit_simps)
  qed
  then show ?thesis by (simp add: Uuid_from_slice_def)
qed

lemma Uuid_as_bytes_of_bytes [simp]:
  assumes "length bs = 16"
  shows "Uuid_as_bytes (word_of_le_bytes (rev bs)) = bs"
proof (rule nth_equalityI)
  show "length (Uuid_as_bytes (word_of_le_bytes (rev bs))) = length bs" using assms by simp
next
  fix i assume "i < length (Uuid_as_bytes (word_of_le_bytes (rev bs)))"
  then have i: "i < 16" by simp
  have "ucast (drop_bit (8 * (15 - i)) (word_of_le_bytes (rev bs))) = bs ! i"
  proof (rule bit_word_eqI)
    fix k assume "k < LENGTH(8)"
    then have k: "k < 8" by simp
    have idx: "(8 * (15 - i) + k) div 8 = 15 - i" "(8 * (15 - i) + k) mod 8 = k"
        "8 * (15 - i) + k < 128" "15 - i < 16"
      using k by simp_all
    show "bit (ucast (drop_bit (8 * (15 - i)) (word_of_le_bytes (rev bs))) :: u8) k
        = bit (bs ! i) k"
      using i k assms by (simp add: bit_simps bit_word_of_le_bytes idx rev_nth)
  qed
  then show "Uuid_as_bytes (word_of_le_bytes (rev bs)) ! i = bs ! i"
    using i by (simp add: nth_Uuid_as_bytes)
qed

lemma Uuid_from_slice_SomeD: "Uuid_from_slice bs = Some u \<Longrightarrow> Uuid_as_bytes u = bs"
  by (auto simp: Uuid_from_slice_def split: if_splits)

section \<open>Addresses and I/O errors\<close>

text \<open>\<open>std::net::SocketAddr\<close>: address and port, and for IPv6 the flow label and scope.\<close>

datatype SocketAddr =
    V4 "32 word" u16
  | V6 "128 word" u16 u32 u32

text \<open>\<open>io::Error\<close>, of which the crate only inspects whether its kind is \<open>WouldBlock\<close>.\<close>

datatype io_error = WouldBlock | OtherIo nat

type_synonym 'a io_result = "io_error + 'a"

section \<open>The environment\<close>

record world =
  clock :: "nat \<Rightarrow> Instant"
  ticks :: nat
  uuid_source :: "nat \<Rightarrow> Uuid"
  uuids_drawn :: nat
  send_to :: "nat \<Rightarrow> SocketAddr \<Rightarrow> u8 list \<Rightarrow> usize io_result"
  sends :: nat
  sent :: "(SocketAddr \<times> u8 list) list"

definition Instant_now :: "world \<Rightarrow> Instant \<times> world" where
  "Instant_now w = (clock w (ticks w), w\<lparr>ticks := Suc (ticks w)\<rparr>)"

text \<open>\<open>Instant::elapsed\<close> reads the clock and saturates at zero.\<close>

definition Instant_elapsed :: "Instant \<Rightarrow> world \<Rightarrow> Duration \<times> world" where
  "Instant_elapsed t w = (let (now, w') = Instant_now w in (now - t, w'))"

definition Uuid_new_v4 :: "world \<Rightarrow> Uuid \<times> world" where
  "Uuid_new_v4 w = (uuid_source w (uuids_drawn w), w\<lparr>uuids_drawn := Suc (uuids_drawn w)\<rparr>)"

text \<open>\<open>UdpSocket::send_to\<close>: the outcome is the environment's; a datagram that was accepted
  is logged.\<close>

definition UdpSocket_send_to ::
    "u8 list \<Rightarrow> SocketAddr \<Rightarrow> world \<Rightarrow> usize io_result \<times> world" where
  "UdpSocket_send_to buf addr w =
     (let r = send_to w (sends w) addr buf
      in (r, w\<lparr>sends := Suc (sends w),
               sent := (case r of Inl _ \<Rightarrow> sent w | Inr _ \<Rightarrow> sent w @ [(addr, buf)])\<rparr>))"

section \<open>Non-blocking sockets\<close>

text \<open>The trait \<open>NonBlocking\<close>: \<open>send\<close> answers \<open>Ok(false)\<close> when the socket would block.\<close>

type_synonym socket = "u8 list \<Rightarrow> world \<Rightarrow> (bool io_result \<times> world) option"

record NonBlockingUdpSocket =
  nb_addr :: SocketAddr

definition NonBlockingUdpSocket_new :: "SocketAddr \<Rightarrow> NonBlockingUdpSocket" where
  "NonBlockingUdpSocket_new addr = \<lparr>nb_addr = addr\<rparr>"

definition NonBlockingUdpSocket_send :: "NonBlockingUdpSocket \<Rightarrow> socket" where
  "NonBlockingUdpSocket_send self buf w =
     (case UdpSocket_send_to buf (nb_addr self) w of
        (Inr n, w') \<Rightarrow> if n = length buf then Some (Inr True, w') else None
      | (Inl error, w') \<Rightarrow>
          if error = WouldBlock then Some (Inr False, w') else Some (Inl error, w'))"

abbreviation udp :: "SocketAddr \<Rightarrow> socket" where
  "udp addr \<equiv> NonBlockingUdpSocket_send (NonBlockingUdpSocket_new addr)"

text \<open>The documented behaviour of UDP that the \<open>assert!\<close> in \<open>send\<close> relies on: a datagram
  that is accepted is accepted whole.\<close>

definition whole_datagrams :: "world \<Rightarrow> bool" where
  "whole_datagrams w \<longleftrightarrow> (\<forall>i addr buf n. send_to w i addr buf = Inr n \<longrightarrow> n = length buf)"

text \<open>A network whose only error is that a send would block.\<close>

definition io_never_fails :: "world \<Rightarrow> bool" where
  "io_never_fails w \<longleftrightarrow> (\<forall>i addr buf e. send_to w i addr buf = Inl e \<longrightarrow> e = WouldBlock)"

text \<open>What a send leaves alone: the clock, the UUID source and the behaviour of the network.\<close>

definition same_env :: "world \<Rightarrow> world \<Rightarrow> bool" where
  "same_env w w' \<longleftrightarrow> clock w' = clock w \<and> uuid_source w' = uuid_source w \<and> send_to w' = send_to w"

lemma same_env_refl [simp]: "same_env w w"
  by (simp add: same_env_def)

lemma same_env_trans [trans]: "same_env w w' \<Longrightarrow> same_env w' w'' \<Longrightarrow> same_env w w''"
  by (simp add: same_env_def)

lemma same_env_whole: "same_env w w' \<Longrightarrow> whole_datagrams w' = whole_datagrams w"
  by (simp add: same_env_def whole_datagrams_def)

lemma same_env_never_fails: "same_env w w' \<Longrightarrow> io_never_fails w' = io_never_fails w"
  by (simp add: same_env_def io_never_fails_def)

lemma same_env_updates [simp]:
  "same_env w (w'\<lparr>ticks := n\<rparr>) = same_env w w'"
  "same_env w (w'\<lparr>uuids_drawn := n\<rparr>) = same_env w w'"
  "same_env w (w'\<lparr>sends := n\<rparr>) = same_env w w'"
  "same_env w (w'\<lparr>sent := l\<rparr>) = same_env w w'"
  by (simp_all add: same_env_def)

lemma Instant_now_frame [frame_simps]:
  "sent (snd (Instant_now w)) = sent w"
  "uuids_drawn (snd (Instant_now w)) = uuids_drawn w"
  "sends (snd (Instant_now w)) = sends w"
  "same_env w0 (snd (Instant_now w)) = same_env w0 w"
  by (simp_all add: Instant_now_def)

lemma Instant_elapsed_frame [frame_simps]:
  "sent (snd (Instant_elapsed t w)) = sent w"
  "uuids_drawn (snd (Instant_elapsed t w)) = uuids_drawn w"
  "sends (snd (Instant_elapsed t w)) = sends w"
  "same_env w0 (snd (Instant_elapsed t w)) = same_env w0 w"
  by (simp_all add: Instant_elapsed_def Let_def split_def frame_simps)

lemma Uuid_new_v4_frame [frame_simps]:
  "sent (snd (Uuid_new_v4 w)) = sent w"
  "ticks (snd (Uuid_new_v4 w)) = ticks w"
  "sends (snd (Uuid_new_v4 w)) = sends w"
  "same_env w0 (snd (Uuid_new_v4 w)) = same_env w0 w"
  by (simp_all add: Uuid_new_v4_def)

text \<open>
  The contract of a non-blocking socket towards one peer: it does not panic on a network
  that takes datagrams whole, it touches nothing but the network, \<open>Ok(true)\<close> means that
  exactly this datagram went out and any other answer that none did.
\<close>

locale nonblocking =
  fixes send :: socket and peer :: SocketAddr
  assumes send_total: "whole_datagrams w \<Longrightarrow> send buf w \<noteq> None"
    and send_env: "send buf w = Some (r, w') \<Longrightarrow> same_env w w'"
    and send_clock: "send buf w = Some (r, w') \<Longrightarrow> ticks w' = ticks w"
    and send_uuids: "send buf w = Some (r, w') \<Longrightarrow> uuids_drawn w' = uuids_drawn w"
    and send_log: "send buf w = Some (r, w') \<Longrightarrow>
      sent w' = (if r = Inr True then sent w @ [(peer, buf)] else sent w)"
    and send_no_error: "io_never_fails w \<Longrightarrow> send buf w = Some (r, w') \<Longrightarrow> r = Inr True \<or> r = Inr False"
begin

lemma sendE:
  assumes "whole_datagrams w"
  obtains r w' where "send buf w = Some (r, w')" "same_env w w'" "whole_datagrams w'"
    "sent w' = (if r = Inr True then sent w @ [(peer, buf)] else sent w)"
proof -
  obtain r w' where s: "send buf w = Some (r, w')"
    using send_total [OF assms, of buf] by fastforce
  moreover have "whole_datagrams w'"
    using send_env [OF s] assms by (simp add: same_env_whole)
  ultimately show ?thesis
    using that send_env send_log by blast
qed

lemmas send_frame = send_env send_clock send_uuids

end

lemma NonBlockingUdpSocket_send_cases:
  assumes "udp addr buf w = Some (r, w')"
  shows "w' = w\<lparr>sends := Suc (sends w), sent := sent w'\<rparr>"
    "sent w' = (if r = Inr True then sent w @ [(addr, buf)] else sent w)"
  using assms
  by (auto simp: NonBlockingUdpSocket_send_def NonBlockingUdpSocket_new_def
      UdpSocket_send_to_def Let_def split: sum.splits if_splits)

interpretation udp: nonblocking "udp addr" addr for addr
proof unfold_locales
  fix w buf assume "whole_datagrams w"
  then show "udp addr buf w \<noteq> None"
    by (auto simp: NonBlockingUdpSocket_send_def NonBlockingUdpSocket_new_def
        UdpSocket_send_to_def Let_def whole_datagrams_def split: sum.splits)
next
  fix buf w r w' assume "udp addr buf w = Some (r, w')"
  note c = NonBlockingUdpSocket_send_cases [OF this]
  show "same_env w w'" by (subst c(1)) simp
  show "ticks w' = ticks w" by (subst c(1)) simp
  show "uuids_drawn w' = uuids_drawn w" by (subst c(1)) simp
  show "sent w' = (if r = Inr True then sent w @ [(addr, buf)] else sent w)" by (rule c(2))
next
  fix w buf r w' assume "io_never_fails w" "udp addr buf w = Some (r, w')"
  then show "r = Inr True \<or> r = Inr False"
    by (auto simp: NonBlockingUdpSocket_send_def NonBlockingUdpSocket_new_def io_never_fails_def
        UdpSocket_send_to_def Let_def split: sum.split_asm if_split_asm)
qed

end
