(* ===== verification/Wire.thy ===== *)
theory Wire
  imports World
begin

text \<open>
  The wire format of \<^verbatim>\<open>packet.rs\<close> and the \<open>done\<close> frame of \<^verbatim>\<open>packet/send.rs\<close>: sizes, packet
  kinds, packet ids, the error types of packet handling, and the two control frames that
  \<open>ack\<close> and \<open>done\<close> send. The frame lemmas say byte for byte what goes out; the codec lemmas
  say that kinds and ids survive encoding and decoding.
\<close>

section \<open>Sizes\<close>

definition size_of_PacketKind :: usize where [simp]: "size_of_PacketKind = 1"
definition size_of_PacketId :: usize where [simp]: "size_of_PacketId = 16"
definition size_of_SeqIndex :: usize where [simp]: "size_of_SeqIndex = 4"

definition PACKET_BUFFER_SIZE :: usize where [simp]: "PACKET_BUFFER_SIZE = 512"

definition PACKET_DATA_SIZE :: usize where
  "PACKET_DATA_SIZE = PACKET_BUFFER_SIZE - size_of_PacketKind"

definition PART_PACKET_PAYLOAD_SIZE :: usize where
  "PART_PACKET_PAYLOAD_SIZE = PACKET_DATA_SIZE - size_of_PacketId - size_of_SeqIndex"

lemma PART_PACKET_PAYLOAD_SIZE_eq [simp]: "PART_PACKET_PAYLOAD_SIZE = 491"
  by (simp add: PART_PACKET_PAYLOAD_SIZE_def PACKET_DATA_SIZE_def)

type_synonym SeqIndex = u32
type_synonym BufferIndex = u16
type_synonym BatchSize = u16

text \<open>A \<open>NonZeroU16\<close> is a \<open>u16\<close> that the invariants keep non-zero.\<close>

type_synonym NonZeroBatchSize = u16

section \<open>Packet kinds\<close>

datatype PacketKind =
    Kind_Version | Kind_Ping | Kind_Part | Kind_LastPart | Kind_Ack | Kind_Done | Kind_FirstUpdate

definition PacketKind_into :: "PacketKind \<Rightarrow> u8" where
  "PacketKind_into k =
     (case k of Kind_Version \<Rightarrow> 0 | Kind_Ping \<Rightarrow> 1 | Kind_Part \<Rightarrow> 2 | Kind_LastPart \<Rightarrow> 3
      | Kind_Ack \<Rightarrow> 4 | Kind_Done \<Rightarrow> 5 | Kind_FirstUpdate \<Rightarrow> 6)"

definition PacketKind_try_from :: "u8 \<Rightarrow> PacketKind option" where
  "PacketKind_try_from b =
     (if b = 0 then Some Kind_Version else if b = 1 then Some Kind_Ping
      else if b = 2 then Some Kind_Part else if b = 3 then Some Kind_LastPart
      else if b = 4 then Some Kind_Ack else if b = 5 then Some Kind_Done
      else if b = 6 then Some Kind_FirstUpdate else None)"

lemma PacketKind_roundtrip [simp]: "PacketKind_try_from (PacketKind_into k) = Some k"
  by (cases k) (simp_all add: PacketKind_into_def PacketKind_try_from_def)

lemma PacketKind_try_from_Some_iff:
  "PacketKind_try_from b = Some k \<longleftrightarrow> b = PacketKind_into k"
  by (cases k) (auto simp: PacketKind_into_def PacketKind_try_from_def split: if_splits)

lemma PacketKind_try_from_None_iff: "PacketKind_try_from b = None \<longleftrightarrow> 7 \<le> unat b"
  by (simp add: PacketKind_try_from_def word_unat_eq_iff)

section \<open>Packet ids\<close>

datatype PacketId = PacketId (packet_uuid: Uuid)

definition PacketId_new :: "world \<Rightarrow> PacketId \<times> world" where
  "PacketId_new w = (let (u, w') = Uuid_new_v4 w in (PacketId u, w'))"

definition PacketId_as_bytes :: "PacketId \<Rightarrow> u8 list" where
  "PacketId_as_bytes i = Uuid_as_bytes (packet_uuid i)"

definition PacketId_from_slice :: "u8 list \<Rightarrow> PacketId option" where
  "PacketId_from_slice bs = map_option PacketId (Uuid_from_slice bs)"

text \<open>The derived \<open>Ord\<close>, which is the order a \<open>BTreeMap<PacketId, _>\<close> is traversed in.\<close>

instantiation PacketId :: linorder
begin

definition less_eq_PacketId :: "PacketId \<Rightarrow> PacketId \<Rightarrow> bool" where
  "less_eq_PacketId a b \<longleftrightarrow> packet_uuid a \<le> packet_uuid b"

definition less_PacketId :: "PacketId \<Rightarrow> PacketId \<Rightarrow> bool" where
  "less_PacketId a b \<longleftrightarrow> packet_uuid a < packet_uuid b"

instance
  by standard (auto simp: less_eq_PacketId_def less_PacketId_def PacketId.expand)

end

lemma length_PacketId_as_bytes [simp]: "length (PacketId_as_bytes i) = 16"
  by (simp add: PacketId_as_bytes_def)

lemma PacketId_roundtrip [simp]: "PacketId_from_slice (PacketId_as_bytes i) = Some i"
  by (simp add: PacketId_from_slice_def PacketId_as_bytes_def)

lemma PacketId_from_slice_SomeD: "PacketId_from_slice bs = Some i \<Longrightarrow> PacketId_as_bytes i = bs"
  by (auto simp: PacketId_from_slice_def PacketId_as_bytes_def dest: Uuid_from_slice_SomeD)

lemma PacketId_from_slice_length: "length bs = 16 \<Longrightarrow> \<exists>i. PacketId_from_slice bs = Some i"
  by (simp add: PacketId_from_slice_def Uuid_from_slice_def)

section \<open>Errors of packet handling\<close>

datatype SeqIndexOutOfRange = SeqIndexOutOfRange SeqIndex SeqIndex

datatype SeqIndexAckedBeforeSent = SeqIndexAckedBeforeSent SeqIndex

datatype PacketAckErrorKind =
    InvalidPacketId
  | AckSeqIndexOutOfRange SeqIndexOutOfRange
  | AckSeqIndexAckedBeforeSent SeqIndexAckedBeforeSent

datatype PacketAckError = PacketAckError PacketId PacketAckErrorKind

datatype PacketReceiveErrorKind =
    Mismatch
  | ReceiveSeqIndexOutOfRange SeqIndexOutOfRange
  | ReceiveIo io_error

datatype PacketReceiveError = PacketReceiveError PacketId PacketReceiveErrorKind

datatype InvalidDonePacketId = InvalidDonePacketId PacketId

datatype HandlePacketError =
    HandleEmpty
  | HandleMalformed
  | HandleReceive PacketReceiveError
  | HandleAck PacketAckError
  | HandleDone InvalidDonePacketId
  | HandleIo io_error
  | HandleUnexpectedKind u8
  | HandleValidation

section \<open>Control frames\<close>

text \<open>\<open>fn ack\<close>: builds the 21-byte frame in place and sends it; a blocked socket is ignored.\<close>

definition ack ::
    "PacketId \<Rightarrow> SeqIndex \<Rightarrow> socket \<Rightarrow> world \<Rightarrow> ((PacketReceiveError + unit) \<times> world) option" where
  "ack i seq_index socket w = do {
     let buf = replicate (17 + size_of_SeqIndex) 0;
     buf \<leftarrow> index_set buf 0 (PacketKind_into Kind_Ack);
     buf \<leftarrow> copy_into buf 1 17 (PacketId_as_bytes i);
     buf \<leftarrow> copy_into buf 17 (17 + size_of_SeqIndex) (u32_to_le_bytes seq_index);
     (r, w) \<leftarrow> socket buf w;
     (case r of
        Inl error \<Rightarrow> Some (Inl (PacketReceiveError i (ReceiveIo error)), w)
      | Inr _ \<Rightarrow> Some (Inr (), w))
   }"

text \<open>\<open>fn done\<close> of \<^verbatim>\<open>send.rs\<close>: a 17-byte frame; the answer of the socket is returned.\<close>

definition done_frame_send :: "PacketId \<Rightarrow> socket \<Rightarrow> world \<Rightarrow> (bool io_result \<times> world) option" where
  "done_frame_send i socket w = do {
     let buf = replicate 17 0;
     buf \<leftarrow> index_set buf 0 (PacketKind_into Kind_Done);
     buf \<leftarrow> copy_into buf 1 17 (PacketId_as_bytes i);
     socket buf w
   }"

definition ack_bytes :: "PacketId \<Rightarrow> SeqIndex \<Rightarrow> u8 list" where
  "ack_bytes i s = [PacketKind_into Kind_Ack] @ PacketId_as_bytes i @ u32_to_le_bytes s"

definition done_bytes :: "PacketId \<Rightarrow> u8 list" where
  "done_bytes i = [PacketKind_into Kind_Done] @ PacketId_as_bytes i"

lemma ack_eq:
  "ack i s socket w = do {
     (r, w) \<leftarrow> socket (ack_bytes i s) w;
     Some ((case r of Inl e \<Rightarrow> Inl (PacketReceiveError i (ReceiveIo e)) | Inr _ \<Rightarrow> Inr ()), w)
   }"
proof -
  have "replicate 21 (0::u8) = 0 # replicate 20 0" by (simp add: numeral_eq_Suc)
  then show ?thesis
    by (simp add: ack_def ack_bytes_def index_set_def copy_into_def Let_def drop_replicate
        split: sum.splits bind_splits)
qed

lemma done_frame_send_eq: "done_frame_send i socket w = socket (done_bytes i) w"
proof -
  have "replicate 17 (0::u8) = 0 # replicate 16 0" by (simp add: numeral_eq_Suc)
  then show ?thesis
    by (simp add: done_frame_send_def done_bytes_def index_set_def copy_into_def Let_def)
qed

context nonblocking
begin

lemma ack_total:
  assumes "whole_datagrams w"
  obtains r w' where "ack i s send w = Some (r, w')" "same_env w w'" "whole_datagrams w'"
    "ticks w' = ticks w"
    "sent w' = sent w @ [(peer, ack_bytes i s)] \<or> sent w' = sent w"
    "r = Inr () \<or> (\<exists>e. r = Inl (PacketReceiveError i (ReceiveIo e)))"
proof -
  obtain r w' where s: "send (ack_bytes i s) w = Some (r, w')" "same_env w w'" "whole_datagrams w'"
    "sent w' = (if r = Inr True then sent w @ [(peer, ack_bytes i s)] else sent w)"
    using sendE [OF assms] by metis
  then show ?thesis
    using that send_clock [OF s(1)] by (auto simp: ack_eq split: sum.splits)
qed

end

end
