(* ===== verification/Packet_Buffer.thy ===== *)
theory Packet_Buffer
  imports Wire
begin

text \<open>
  \<open>PacketBuffer\<close> of \<^verbatim>\<open>packet/send.rs\<close>: a 512-byte buffer with a length and an acked flag, in
  which a part packet is built in place. Every slice operation keeps its range check.

  \<open>part_buffer k i s p\<close> is the buffer that holds the part with kind \<open>k\<close>, id \<open>i\<close>, sequence
  index \<open>s\<close> and payload \<open>p\<close> and is zero elsewhere; \<open>frame\<close> and \<open>holds\<close> describe a buffer
  whose bytes beyond its length are arbitrary, which is what reuse by \<open>next\<close> and \<open>skip\<close>
  leaves behind. The lemmas compute every operation on these shapes; in particular none of
  them panics there.
\<close>

record PacketBuffer =
  pb_acked :: bool
  pb_len :: BufferIndex
  pb_data :: "u8 list"

definition HEADER_LEN :: usize where
  "HEADER_LEN = size_of_PacketKind + size_of_PacketId + size_of_SeqIndex"

lemma HEADER_LEN_eq [simp]: "HEADER_LEN = 21"
  by (simp add: HEADER_LEN_def)

definition PacketBuffer_deref :: "PacketBuffer \<Rightarrow> u8 list option" where
  "PacketBuffer_deref self = slice_get (pb_data self) 0 (unat (pb_len self))"

definition PacketBuffer_append ::
    "PacketBuffer \<Rightarrow> u8 list \<Rightarrow> (u8 list \<times> PacketBuffer) option" where
  "PacketBuffer_append self data = do {
     end \<leftarrow> map_option length (PacketBuffer_deref self);
     space \<leftarrow> usize_sub PACKET_BUFFER_SIZE end;
     let n = min (length data) space;
     let new_end = end + n;
     d \<leftarrow> copy_into (pb_data self) end new_end (take n data);
     l \<leftarrow> u16_try_from new_end;
     Some (drop n data, self\<lparr>pb_data := d, pb_len := l\<rparr>)
   }"

definition PacketBuffer_new :: "PacketId \<Rightarrow> PacketBuffer option" where
  "PacketBuffer_new i = do {
     let result = \<lparr>pb_acked = False, pb_len = 0, pb_data = replicate PACKET_BUFFER_SIZE 0\<rparr>;
     (_, result) \<leftarrow> PacketBuffer_append result [PacketKind_into Kind_Part];
     (_, result) \<leftarrow> PacketBuffer_append result (PacketId_as_bytes i);
     (_, result) \<leftarrow> PacketBuffer_append result (u32_to_le_bytes 0);
     l \<leftarrow> u16_try_from (size_of_PacketKind + size_of_PacketId + size_of_SeqIndex);
     Some (result\<lparr>pb_len := l\<rparr>)
   }"

definition PacketBuffer_copy :: "PacketBuffer \<Rightarrow> PacketBuffer option" where
  "PacketBuffer_copy self = do {
     let result = \<lparr>pb_acked = False, pb_len = pb_len self,
                   pb_data = replicate PACKET_BUFFER_SIZE 0\<rparr>;
     let n = unat (pb_len self);
     src \<leftarrow> slice_get (pb_data self) 0 n;
     d \<leftarrow> copy_into (pb_data result) 0 n src;
     Some (result\<lparr>pb_data := d\<rparr>)
   }"

definition PacketBuffer_inc_seq_index :: "PacketBuffer \<Rightarrow> PacketBuffer option" where
  "PacketBuffer_inc_seq_index self = do {
     let start = size_of_PacketKind + size_of_PacketId;
     bs \<leftarrow> slice_get (pb_data self) start HEADER_LEN;
     s \<leftarrow> u32_from_le_bytes bs;
     next_seq_index \<leftarrow> u32_add s 1;
     d \<leftarrow> copy_into (pb_data self) start HEADER_LEN (u32_to_le_bytes next_seq_index);
     Some (self\<lparr>pb_data := d\<rparr>)
   }"

definition PacketBuffer_next :: "PacketBuffer \<Rightarrow> PacketBuffer option" where
  "PacketBuffer_next self = do {
     self \<leftarrow> (if unat (pb_len self) = PACKET_BUFFER_SIZE then Some self else None);
     l \<leftarrow> u16_try_from HEADER_LEN;
     PacketBuffer_inc_seq_index (self\<lparr>pb_len := l\<rparr>)
   }"

definition PacketBuffer_mark_last :: "PacketBuffer \<Rightarrow> PacketBuffer option" where
  "PacketBuffer_mark_last self = do {
     d \<leftarrow> index_set (pb_data self) 0 (PacketKind_into Kind_LastPart);
     Some (self\<lparr>pb_data := d\<rparr>)
   }"

definition PacketBuffer_skip ::
    "PacketBuffer \<Rightarrow> u8 list \<Rightarrow> (u8 list \<times> PacketBuffer) option" where
  "PacketBuffer_skip self data = do {
     end \<leftarrow> map_option length (PacketBuffer_deref self);
     space \<leftarrow> usize_sub PACKET_BUFFER_SIZE end;
     let n = min (length data) space;
     l \<leftarrow> u16_try_from (end + n);
     Some (drop n data, self\<lparr>pb_len := l\<rparr>)
   }"

definition PacketBuffer_new_next :: "PacketBuffer \<Rightarrow> PacketBuffer option" where
  "PacketBuffer_new_next self = do {
     l \<leftarrow> u16_try_from HEADER_LEN;
     let result = \<lparr>pb_acked = False, pb_len = l, pb_data = replicate PACKET_BUFFER_SIZE 0\<rparr>;
     src \<leftarrow> slice_get (pb_data self) 0 HEADER_LEN;
     d \<leftarrow> copy_into (pb_data result) 0 HEADER_LEN src;
     PacketBuffer_inc_seq_index (result\<lparr>pb_data := d\<rparr>)
   }"

section \<open>The shape of a part packet\<close>

definition header :: "PacketKind \<Rightarrow> PacketId \<Rightarrow> SeqIndex \<Rightarrow> u8 list" where
  "header k i s = [PacketKind_into k] @ PacketId_as_bytes i @ u32_to_le_bytes s"

definition part_bytes :: "PacketKind \<Rightarrow> PacketId \<Rightarrow> SeqIndex \<Rightarrow> u8 list \<Rightarrow> u8 list" where
  "part_bytes k i s p = header k i s @ p"

definition part_buffer :: "PacketKind \<Rightarrow> PacketId \<Rightarrow> SeqIndex \<Rightarrow> u8 list \<Rightarrow> PacketBuffer" where
  "part_buffer k i s p =
     \<lparr>pb_acked = False, pb_len = of_nat (21 + length p),
      pb_data = header k i s @ p @ replicate (491 - length p) 0\<rparr>"

definition frame :: "PacketBuffer \<Rightarrow> PacketKind \<Rightarrow> PacketId \<Rightarrow> SeqIndex \<Rightarrow> nat \<Rightarrow> bool" where
  "frame b k i s n \<longleftrightarrow>
     n \<le> 491 \<and> unat (pb_len b) = 21 + n \<and>
     (\<exists>rest. length rest = 491 \<and> pb_data b = header k i s @ rest)"

definition holds :: "PacketBuffer \<Rightarrow> PacketKind \<Rightarrow> PacketId \<Rightarrow> SeqIndex \<Rightarrow> u8 list \<Rightarrow> bool" where
  "holds b k i s p \<longleftrightarrow>
     length p \<le> 491 \<and> unat (pb_len b) = 21 + length p \<and>
     (\<exists>rest. length p + length rest = 491 \<and> pb_data b = header k i s @ p @ rest)"

lemma length_header [simp]: "length (header k i s) = 21"
  by (simp add: header_def)

lemma length_part_bytes [simp]: "length (part_bytes k i s p) = 21 + length p"
  by (simp add: part_bytes_def)

lemma holds_part_buffer [simp]: "length p \<le> 491 \<Longrightarrow> holds (part_buffer k i s p) k i s p"
proof -
  assume p: "length p \<le> 491"
  then have "unat (of_nat (21 + length p) :: u16) = 21 + length p"
    by (simp del: of_nat_add)
  moreover have "\<exists>rest. length p + length rest = 491 \<and>
      p @ replicate (491 - length p) (0::u8) = p @ rest"
    using p by (intro exI [of _ "replicate (491 - length p) 0"]) simp
  ultimately show ?thesis
    using p by (simp add: holds_def part_buffer_def del: of_nat_add)
qed

lemma holds_frame: "holds b k i s p \<Longrightarrow> frame b k i s (length p)"
  by (force simp: holds_def frame_def)

lemma part_buffer_sel [simp]: "pb_acked (part_buffer k i s p) = False"
  by (simp add: part_buffer_def)

lemma deref_holds [simp]: "holds b k i s p \<Longrightarrow> PacketBuffer_deref b = Some (part_bytes k i s p)"
  by (auto simp: holds_def PacketBuffer_deref_def slice_get_def part_bytes_def)

lemma frame_deref_length:
  "frame b k i s n \<Longrightarrow> map_option length (PacketBuffer_deref b) = Some (21 + n)"
  by (auto simp: frame_def PacketBuffer_deref_def slice_get_def)

section \<open>The operations on part packets\<close>

lemma append_compute:
  assumes "map_option length (PacketBuffer_deref b) = Some e" "e \<le> 512" "length (pb_data b) = 512"
    and "n = min (length d) (512 - e)"
  shows "PacketBuffer_append b d = Some (drop n d,
      b\<lparr>pb_data := take e (pb_data b) @ take n d @ drop (e + n) (pb_data b), pb_len := of_nat (e + n)\<rparr>)"
proof -
  have "n \<le> length d" "e + n \<le> 512" using assms by auto
  then show ?thesis
    unfolding PacketBuffer_append_def assms(1)
    using assms(2,3) by (simp add: usize_sub_def copy_into_def Let_def assms(4) [symmetric])
qed

lemma append_holds:
  assumes "holds b k i s p" and "n = min (length d) (491 - length p)"
  obtains b' where "PacketBuffer_append b d = Some (drop n d, b')"
    "holds b' k i s (p @ take n d)"
proof -
  from assms obtain rest where r: "length p + length rest = 491"
      "pb_data b = header k i s @ p @ rest" and p: "length p \<le> 491"
    by (auto simp: holds_def)
  have n: "n \<le> length d" "length p + n \<le> 491" "n \<le> length rest"
    using assms(2) p r(1) by auto
  let ?b = "b\<lparr>pb_data := header k i s @ (p @ take n d) @ drop n rest,
              pb_len := of_nat (21 + length p + n)\<rparr>"
  have "PacketBuffer_append b d = Some (drop n d, ?b)"
    using append_compute [OF frame_deref_length [OF holds_frame [OF assms(1)]], of n d] n r p assms(2)
    by simp
  moreover have "unat (of_nat (21 + length p + n) :: u16) = 21 + length p + n"
    using n by (simp del: of_nat_add)
  then have "holds ?b k i s (p @ take n d)"
    using n r by (auto simp: holds_def min_def simp del: of_nat_add)
  ultimately show ?thesis by (rule that)
qed

lemma append_part_buffer:
  assumes "length p \<le> 491" and "n = min (length d) (491 - length p)"
  shows "PacketBuffer_append (part_buffer k i s p) d
      = Some (drop n d, part_buffer k i s (p @ take n d))"
proof -
  have n: "n \<le> length d" "length p + n \<le> 491" using assms by auto
  have e: "map_option length (PacketBuffer_deref (part_buffer k i s p)) = Some (21 + length p)"
    using holds_part_buffer [OF assms(1)] by (intro frame_deref_length holds_frame)
  have l: "length (pb_data (part_buffer k i s p)) = 512"
    using assms(1) by (simp add: part_buffer_def)
  have "PacketBuffer_append (part_buffer k i s p) d = Some (drop n d, (part_buffer k i s p)
      \<lparr>pb_data := take (21 + length p) (pb_data (part_buffer k i s p)) @ take n d
          @ drop (21 + length p + n) (pb_data (part_buffer k i s p)),
       pb_len := of_nat (21 + length p + n)\<rparr>)"
    using append_compute [OF e _ l] assms by simp
  also have "\<dots> = Some (drop n d, part_buffer k i s (p @ take n d))"
    using n by (simp add: part_buffer_def min_absorb2 add.assoc)
  finally show ?thesis .
qed

lemma copy_holds:
  assumes "holds b k i s p"
  shows "PacketBuffer_copy b = Some (part_buffer k i s p)"
proof -
  from assms obtain rest where r: "length p + length rest = 491"
      "pb_data b = header k i s @ p @ rest" and p: "length p \<le> 491"
      and l: "unat (pb_len b) = 21 + length p"
    by (auto simp: holds_def)
  have "pb_len b = of_nat (unat (pb_len b))" by simp
  also have "\<dots> = of_nat (21 + length p)" by (simp only: l)
  finally have "pb_len b = of_nat (21 + length p)" .
  then show ?thesis
    using p by (simp add: PacketBuffer_copy_def l r(2) slice_get_def copy_into_def
        part_buffer_def Let_def del: of_nat_add)
qed

lemma copy_part_buffer [simp]:
  "length p \<le> 491 \<Longrightarrow> PacketBuffer_copy (part_buffer k i s p) = Some (part_buffer k i s p)"
  by (rule copy_holds) simp

lemma mark_last_holds:
  assumes "holds b k i s p"
  obtains b' where "PacketBuffer_mark_last b = Some b'" "holds b' Kind_LastPart i s p"
proof -
  from assms obtain rest where r: "length p + length rest = 491"
      "pb_data b = header k i s @ p @ rest" and p: "length p \<le> 491"
      and l: "unat (pb_len b) = 21 + length p"
    by (auto simp: holds_def)
  let ?b = "b\<lparr>pb_data := header Kind_LastPart i s @ p @ rest\<rparr>"
  have "PacketBuffer_mark_last b = Some ?b"
    by (simp add: PacketBuffer_mark_last_def index_set_def r(2) header_def)
  moreover have "holds ?b Kind_LastPart i s p"
    using r p l by (auto simp: holds_def)
  ultimately show ?thesis by (rule that)
qed

lemma mark_last_part_buffer [simp]:
  "PacketBuffer_mark_last (part_buffer k i s p) = Some (part_buffer Kind_LastPart i s p)"
  by (simp add: PacketBuffer_mark_last_def index_set_def part_buffer_def header_def)

lemma inc_seq_index_frame:
  assumes "pb_data b = header k i s @ rest" and "unat s + 1 < 2 ^ 32"
  shows "PacketBuffer_inc_seq_index b = Some (b\<lparr>pb_data := header k i (s + 1) @ rest\<rparr>)"
  using assms
  by (simp add: PacketBuffer_inc_seq_index_def slice_get_def copy_into_def header_def u32_add_def
      Let_def)

lemma new_next_holds:
  assumes "holds b k i s p" and "unat s + 1 < 2 ^ 32"
  shows "PacketBuffer_new_next b = Some (part_buffer k i (s + 1) [])"
proof -
  from assms(1) obtain rest where r: "pb_data b = header k i s @ rest"
    by (auto simp: holds_def)
  have "PacketBuffer_new_next b = PacketBuffer_inc_seq_index
      \<lparr>pb_acked = False, pb_len = 21, pb_data = header k i s @ replicate 491 0\<rparr>"
    by (simp add: PacketBuffer_new_next_def slice_get_def copy_into_def r Let_def)
  also have "\<dots> = Some (part_buffer k i (s + 1) [])"
    using assms(2) by (subst inc_seq_index_frame) (auto simp: part_buffer_def)
  finally show ?thesis .
qed

lemma next_frame:
  assumes "frame b k i s 491" and "unat s + 1 < 2 ^ 32"
  obtains b' where "PacketBuffer_next b = Some b'" "holds b' k i (s + 1) []"
proof -
  from assms(1) obtain rest where r: "length rest = 491" "pb_data b = header k i s @ rest"
      and l: "unat (pb_len b) = 512"
    by (auto simp: frame_def)
  let ?b = "b\<lparr>pb_len := 21, pb_data := header k i (s + 1) @ rest\<rparr>"
  have "PacketBuffer_next b = Some ?b"
    using r l assms(2) by (simp add: PacketBuffer_next_def inc_seq_index_frame)
  moreover have "holds ?b k i (s + 1) []"
    using r by (auto simp: holds_def)
  ultimately show ?thesis by (rule that)
qed

lemma next_assertion: "unat (pb_len b) \<noteq> 512 \<Longrightarrow> PacketBuffer_next b = None"
  by (simp add: PacketBuffer_next_def)

lemma skip_frame:
  assumes "frame b k i s m" and "n = min (length d) (491 - m)"
  obtains b' where "PacketBuffer_skip b d = Some (drop n d, b')" "frame b' k i s (m + n)"
proof -
  have n: "m + n \<le> 491" using assms by (auto simp: frame_def)
  let ?b = "b\<lparr>pb_len := of_nat (21 + m + n)\<rparr>"
  have "PacketBuffer_skip b d = Some (drop n d, ?b)"
    using n assms by (simp add: PacketBuffer_skip_def frame_deref_length usize_sub_def Let_def)
  moreover have "unat (of_nat (21 + m + n) :: u16) = 21 + m + n"
    using n by (simp del: of_nat_add)
  then have "frame ?b k i s (m + n)"
    using assms n by (auto simp: frame_def simp del: of_nat_add)
  ultimately show ?thesis by (rule that)
qed

lemma new_part_buffer [simp]: "PacketBuffer_new i = Some (part_buffer Kind_Part i 0 [])"
proof -
  have z: "replicate 512 (0::u8) = replicate 1 0 @ replicate 16 0 @ replicate 4 0 @ replicate 491 0"
    by (simp only: replicate_add [symmetric]) simp
  show ?thesis
    by (simp add: PacketBuffer_new_def PacketBuffer_append_def PacketBuffer_deref_def z
        slice_get_def usize_sub_def copy_into_def Let_def part_buffer_def header_def)
qed

end
