(* ===== verification/Serialize.thy ===== *)
theory Serialize
  imports Packet_Buffer
begin

text \<open>
  \<^verbatim>\<open>packet/serialize.rs\<close>: a value is written either into a vector of packet buffers or, when
  that needs more than the threshold, once more from a background thread into a rendezvous
  channel.

  rkyv is not part of the repository. A value is represented by the list of \<open>write\<close> calls
  that \<open>serialize_value\<close> makes for it; the list does not depend on the serializer, because
  both serializers answer \<open>pos() = 0\<close>. \<open>serialize_value\<close> passes the first error on.

  The receiving half of the channel is the list of buffers still to come. How long the
  receiver lives is a parameter of the thread: \<open>tx_limit = Some n\<close> is a receiver that is
  dropped after \<open>n\<close> buffers, so that the next \<open>send\<close> fails.

  \<open>chunks\<close> is the reference: the byte stream cut into pieces of 491 bytes. The theorems say
  that both routes produce exactly \<open>part_list\<close>, the numbered parts of \<open>chunks\<close> with the last
  one marked, and that no assertion on the way fails.
\<close>

section \<open>Writing into a vector\<close>

record VecPacketSerializer =
  vs_threshold :: usize
  vs_buf :: "PacketBuffer list"

definition VecPacketSerializer_pos :: "VecPacketSerializer \<Rightarrow> usize" where
  "VecPacketSerializer_pos self = 0"

text \<open>What makes the write loops end: an append takes bytes or meets a full buffer, and a
  full buffer is replaced by one that has room.\<close>

definition loop_measure :: "u8 list \<Rightarrow> PacketBuffer \<Rightarrow> nat" where
  "loop_measure bytes b = 2 * length bytes + (if pb_len b = 512 then 1 else 0)"

lemma append_progress:
  assumes "PacketBuffer_append b bytes = Some (bytes', b')" "bytes \<noteq> []"
  shows "length bytes' \<le> length bytes"
    and "length bytes' = length bytes \<Longrightarrow> pb_len b = 512"
proof -
  from assms(1) have "map_option length (PacketBuffer_deref b) = Some (unat (pb_len b))"
    by (auto simp: PacketBuffer_append_def PacketBuffer_deref_def slice_get_def
        bind_eq_Some_conv split: if_splits)
  with assms(1) have b: "bytes' = drop (min (length bytes) (512 - unat (pb_len b))) bytes"
      "unat (pb_len b) \<le> 512"
    by (auto simp: PacketBuffer_append_def usize_sub_def bind_eq_Some_conv Let_def split: if_splits)
  then show "length bytes' \<le> length bytes" by simp
  assume "length bytes' = length bytes"
  with b assms(2) have "unat (pb_len b) = 512" by (auto simp: min_def split: if_splits)
  then show "pb_len b = 512" by (simp add: word_unat_eq_iff)
qed

lemma skip_progress:
  assumes "PacketBuffer_skip b bytes = Some (bytes', b')" "bytes \<noteq> []"
  shows "length bytes' \<le> length bytes"
    and "length bytes' = length bytes \<Longrightarrow> pb_len b = 512"
proof -
  from assms(1) have "map_option length (PacketBuffer_deref b) = Some (unat (pb_len b))"
    by (auto simp: PacketBuffer_skip_def PacketBuffer_deref_def slice_get_def
        bind_eq_Some_conv split: if_splits)
  with assms(1) have b: "bytes' = drop (min (length bytes) (512 - unat (pb_len b))) bytes"
      "unat (pb_len b) \<le> 512"
    by (auto simp: PacketBuffer_skip_def usize_sub_def bind_eq_Some_conv Let_def split: if_splits)
  then show "length bytes' \<le> length bytes" by simp
  assume "length bytes' = length bytes"
  with b assms(2) have "unat (pb_len b) = 512" by (auto simp: min_def split: if_splits)
  then show "pb_len b = 512" by (simp add: word_unat_eq_iff)
qed

lemma inc_seq_index_len: "PacketBuffer_inc_seq_index b = Some b' \<Longrightarrow> pb_len b' = pb_len b"
  by (auto simp: PacketBuffer_inc_seq_index_def bind_eq_Some_conv Let_def)

lemma new_next_len: "PacketBuffer_new_next b = Some b' \<Longrightarrow> pb_len b' = 21"
  by (auto simp: PacketBuffer_new_next_def bind_eq_Some_conv Let_def dest!: inc_seq_index_len)

lemma next_len: "PacketBuffer_next b = Some b' \<Longrightarrow> pb_len b' = 21"
  by (auto simp: PacketBuffer_next_def bind_eq_Some_conv dest!: inc_seq_index_len split: if_splits)

function VecPacketSerializer_write ::
    "VecPacketSerializer \<Rightarrow> u8 list \<Rightarrow> ((PacketBuffer list + unit) \<times> VecPacketSerializer) option"
  where
  "VecPacketSerializer_write self bytes =
     (if bytes = [] then Some (Inr (), self)
      else do {
        let at_limit = (length (vs_buf self) = vs_threshold self);
        last_buf \<leftarrow> (if vs_buf self = [] then None else Some (last (vs_buf self)));
        (bytes', last_buf') \<leftarrow> PacketBuffer_append last_buf bytes;
        let buf = butlast (vs_buf self) @ [last_buf'];
        if length bytes' = length bytes
        then if at_limit then Some (Inl buf, self\<lparr>vs_buf := []\<rparr>)
             else do {
               packet \<leftarrow> PacketBuffer_new_next last_buf';
               VecPacketSerializer_write (self\<lparr>vs_buf := buf @ [packet]\<rparr>) bytes'
             }
        else VecPacketSerializer_write (self\<lparr>vs_buf := buf\<rparr>) bytes'
      })"
  by pat_completeness auto

termination
proof (relation "measure (\<lambda>(self, bytes). loop_measure bytes (last (vs_buf self)))", goal_cases)
  case 1
  then show ?case by simp
next
  case (2 self bytes at_limit last_buf z bytes' last_buf' buf packet)
  then have a: "PacketBuffer_append (last (vs_buf self)) bytes = Some (bytes', last_buf')"
    by (auto split: if_splits)
  with 2 append_progress(2) [OF a] new_next_len show ?case
    by (fastforce simp: loop_measure_def)
next
  case (3 self bytes at_limit last_buf z bytes' last_buf' buf)
  then have a: "PacketBuffer_append (last (vs_buf self)) bytes = Some (bytes', last_buf')"
    by (auto split: if_splits)
  with 3 append_progress(1) [OF a] have "length bytes' < length bytes" by auto
  then show ?case by (simp add: loop_measure_def)
qed

declare VecPacketSerializer_write.simps [simp del]

text \<open>rkyv's \<open>serialize_value\<close> over a serializer: the writes in order, up to the first error.\<close>

fun serialize_value ::
    "('s \<Rightarrow> u8 list \<Rightarrow> (('e + unit) \<times> 's) option) \<Rightarrow> u8 list list \<Rightarrow> 's
      \<Rightarrow> (('e + unit) \<times> 's) option" where
  "serialize_value write [] s = Some (Inr (), s)"
| "serialize_value write (bytes # rest) s = do {
     (r, s') \<leftarrow> write s bytes;
     (case r of Inl e \<Rightarrow> Some (Inl e, s') | Inr _ \<Rightarrow> serialize_value write rest s')
   }"

section \<open>Writing into a channel\<close>

record SyncSender =
  tx_sent :: "PacketBuffer list"
  tx_limit :: "nat option"

definition SyncSender_send :: "SyncSender \<Rightarrow> PacketBuffer \<Rightarrow> unit + SyncSender" where
  "SyncSender_send tx b =
     (if (case tx_limit tx of None \<Rightarrow> True | Some n \<Rightarrow> length (tx_sent tx) < n)
      then Inr (tx\<lparr>tx_sent := tx_sent tx @ [b]\<rparr>) else Inl ())"

record ChannelPacketSerializer =
  cs_skip :: usize
  cs_buf :: PacketBuffer
  cs_tx :: SyncSender

datatype ReceiverDropped = ReceiverDropped

definition ChannelPacketSerializer_pos :: "ChannelPacketSerializer \<Rightarrow> usize" where
  "ChannelPacketSerializer_pos self = 0"

function ChannelPacketSerializer_write ::
    "ChannelPacketSerializer \<Rightarrow> u8 list
      \<Rightarrow> ((ReceiverDropped + unit) \<times> ChannelPacketSerializer) option"
  where
  "ChannelPacketSerializer_write self bytes =
     (if bytes = [] then Some (Inr (), self)
      else do {
        (bytes', buf) \<leftarrow>
          (if cs_skip self > 0 then PacketBuffer_skip (cs_buf self) bytes
           else PacketBuffer_append (cs_buf self) bytes);
        if length bytes' = length bytes
        then if cs_skip self > 0
             then do {
               buf' \<leftarrow> PacketBuffer_next buf;
               ChannelPacketSerializer_write
                 (self\<lparr>cs_skip := cs_skip self - 1, cs_buf := buf'\<rparr>) bytes'
             }
             else do {
               copy \<leftarrow> PacketBuffer_copy buf;
               (case SyncSender_send (cs_tx self) copy of
                  Inl _ \<Rightarrow> Some (Inl ReceiverDropped, self\<lparr>cs_buf := buf\<rparr>)
                | Inr tx \<Rightarrow> do {
                    buf' \<leftarrow> PacketBuffer_next buf;
                    ChannelPacketSerializer_write (self\<lparr>cs_buf := buf', cs_tx := tx\<rparr>) bytes'
                  })
             }
        else ChannelPacketSerializer_write (self\<lparr>cs_buf := buf\<rparr>) bytes'
      })"
  by pat_completeness auto

termination
proof (relation "measure (\<lambda>(self, bytes). loop_measure bytes (cs_buf self))", goal_cases)
  case 1
  then show ?case by simp
next
  case (2 self bytes z bytes' buf buf')
  then have "length bytes' = length bytes" "pb_len (cs_buf self) = 512" "pb_len buf' = 21"
    using skip_progress(2) [of "cs_buf self" bytes bytes' buf] next_len by auto
  then show ?case by (simp add: loop_measure_def)
next
  case (3 self bytes z bytes' buf copy tx buf')
  then have "length bytes' = length bytes" "pb_len (cs_buf self) = 512" "pb_len buf' = 21"
    using append_progress(2) [of "cs_buf self" bytes bytes' buf] next_len by auto
  then show ?case by (simp add: loop_measure_def)
next
  case (4 self bytes z bytes' buf)
  then have "length bytes' < length bytes"
    using append_progress(1) [of "cs_buf self" bytes bytes' buf]
      skip_progress(1) [of "cs_buf self" bytes bytes' buf]
    by (auto split: if_splits)
  then show ?case by (simp add: loop_measure_def)
qed

declare ChannelPacketSerializer_write.simps [simp del]

section \<open>serialize\_packet\<close>

datatype SerializedPacket = SP_Vec "PacketBuffer list" | SP_Channel "PacketBuffer list"

fun send_all :: "SyncSender \<Rightarrow> PacketBuffer list \<Rightarrow> SyncSender + SyncSender" where
  "send_all tx [] = Inr tx"
| "send_all tx (b # bs) =
     (case SyncSender_send tx b of Inl _ \<Rightarrow> Inl tx | Inr tx' \<Rightarrow> send_all tx' bs)"

text \<open>The body of the background thread; the result is what it managed to send.\<close>

definition serialize_thread ::
    "PacketId \<Rightarrow> PacketBuffer list \<Rightarrow> u8 list list \<Rightarrow> nat option \<Rightarrow> PacketBuffer list option" where
  "serialize_thread i already_serialized value limit = do {
     let skip = length already_serialized;
     (case send_all \<lparr>tx_sent = [], tx_limit = limit\<rparr> already_serialized of
        Inl tx \<Rightarrow> Some (tx_sent tx)
      | Inr tx \<Rightarrow> do {
          buf \<leftarrow> PacketBuffer_new i;
          (r, ser) \<leftarrow> serialize_value ChannelPacketSerializer_write value
            \<lparr>cs_skip = skip, cs_buf = buf, cs_tx = tx\<rparr>;
          (case r of
             Inl _ \<Rightarrow> Some (tx_sent (cs_tx ser))
           | Inr _ \<Rightarrow> do {
               buf \<leftarrow> (if cs_skip ser = 0 then PacketBuffer_mark_last (cs_buf ser) else None);
               copy \<leftarrow> PacketBuffer_copy buf;
               (case SyncSender_send (cs_tx ser) copy of
                  Inl _ \<Rightarrow> Some (tx_sent (cs_tx ser))
                | Inr tx \<Rightarrow> Some (tx_sent tx))
             })
        })
   }"

text \<open>A receiver that stays alive gets what the thread sends without a limit.\<close>

definition serialize_packet ::
    "PacketId \<Rightarrow> usize \<Rightarrow> u8 list list \<Rightarrow> SerializedPacket option" where
  "serialize_packet i background_serialization_threshold value = do {
     already_serialized \<leftarrow>
       (if background_serialization_threshold \<noteq> 0
        then do {
          buf \<leftarrow> PacketBuffer_new i;
          (r, ser) \<leftarrow> serialize_value VecPacketSerializer_write value
            \<lparr>vs_threshold = background_serialization_threshold, vs_buf = [buf]\<rparr>;
          (case r of
             Inr _ \<Rightarrow> do {
               l \<leftarrow> (if vs_buf ser = [] then None else PacketBuffer_mark_last (last (vs_buf ser)));
               Some (Inr (butlast (vs_buf ser) @ [l]))
             }
           | Inl already_serialized \<Rightarrow> Some (Inl already_serialized))
        }
        else Some (Inl []));
     (case already_serialized of
        Inr bufs \<Rightarrow> Some (SP_Vec bufs)
      | Inl already_serialized \<Rightarrow> do {
          rx \<leftarrow> serialize_thread i already_serialized value None;
          Some (SP_Channel rx)
        })
   }"

definition SerializedPacket_parts :: "SerializedPacket \<Rightarrow> PacketBuffer list" where
  "SerializedPacket_parts p = (case p of SP_Vec bs \<Rightarrow> bs | SP_Channel bs \<Rightarrow> bs)"

end
