(* ===== verification/Serialize_Spec.thy ===== *)
theory Serialize_Spec
  imports Serialize
begin

text \<open>
  The reference for serialization and the proof that \<open>serialize_packet\<close> meets it on both of
  its routes: \<open>chunks\<close> cuts the written bytes into pieces of 491, \<open>part_list\<close> numbers the
  pieces and marks the last.
\<close>

section \<open>The reference\<close>

function chunks :: "u8 list \<Rightarrow> u8 list list" where
  "chunks bs = (if length bs \<le> 491 then [bs] else take 491 bs # chunks (drop 491 bs))"
  by pat_completeness auto
termination by (relation "measure length") auto

declare chunks.simps [simp del]

definition part_count :: "nat \<Rightarrow> nat" where
  "part_count n = (if n = 0 then 1 else (n + 490) div 491)"

definition open_parts :: "PacketId \<Rightarrow> u8 list list \<Rightarrow> PacketBuffer list" where
  "open_parts i ps = map (\<lambda>(j, p). part_buffer Kind_Part i (of_nat j) p) (enumerate 0 ps)"

definition part_list :: "PacketId \<Rightarrow> u8 list \<Rightarrow> PacketBuffer list" where
  "part_list i bs =
     open_parts i (butlast (chunks bs)) @
     [part_buffer Kind_LastPart i (of_nat (length (chunks bs) - 1)) (last (chunks bs))]"

definition full :: "u8 list list \<Rightarrow> bool" where
  "full qs \<longleftrightarrow> (\<forall>q \<in> set qs. length q = 491)"

lemma full_Nil [simp]: "full []"
  by (simp add: full_def)

lemma full_append [simp]: "full (xs @ ys) \<longleftrightarrow> full xs \<and> full ys"
  by (auto simp: full_def)

lemma full_single [simp]: "full [p] \<longleftrightarrow> length p = 491"
  by (simp add: full_def)

lemma length_concat_full: "full qs \<Longrightarrow> length (concat qs) = 491 * length qs"
  by (induction qs) (auto simp: full_def)

lemma chunks_not_Nil [simp]: "chunks bs \<noteq> []"
  by (subst chunks.simps) simp

lemma chunks_small: "length bs \<le> 491 \<Longrightarrow> chunks bs = [bs]"
  by (subst chunks.simps) simp

lemma chunks_append_full:
  "full qs \<Longrightarrow> r \<noteq> [] \<Longrightarrow> chunks (concat qs @ r) = qs @ chunks r"
proof (induction qs)
  case Nil
  then show ?case by simp
next
  case (Cons q qs)
  then have "length q = 491" "full qs" by (simp_all add: full_def)
  with Cons show ?case by (subst chunks.simps) simp
qed

lemma chunks_decompose:
  obtains qs p where "chunks bs = qs @ [p]" "full qs" "length p \<le> 491" "concat qs @ p = bs"
    "qs = [] \<or> p \<noteq> []"
proof -
  have "\<exists>qs p. chunks bs = qs @ [p] \<and> full qs \<and> length p \<le> 491 \<and> concat qs @ p = bs
      \<and> (qs = [] \<or> p \<noteq> [])"
  proof (induction bs rule: chunks.induct)
    case (1 bs)
    show ?case
    proof (cases "length bs \<le> 491")
      case True
      then show ?thesis by (intro exI [of _ "[]"] exI [of _ bs]) (simp add: chunks_small)
    next
      case False
      with 1 obtain qs p where qp: "chunks (drop 491 bs) = qs @ [p]" "full qs" "length p \<le> 491"
        "concat qs @ p = drop 491 bs" "qs = [] \<or> p \<noteq> []" by blast
      moreover from qp False have "p \<noteq> []" by auto
      ultimately show ?thesis
        using False
        by (intro exI [of _ "take 491 bs # qs"] exI [of _ p])
          (simp add: chunks.simps [of bs] full_def)
    qed
  qed
  then show ?thesis using that by blast
qed

lemma chunks_unique:
  "full qs \<Longrightarrow> length p \<le> 491 \<Longrightarrow> qs = [] \<or> p \<noteq> [] \<Longrightarrow> chunks (concat qs @ p) = qs @ [p]"
  by (cases "qs = []") (auto simp: chunks_append_full chunks_small)

lemma concat_chunks [simp]: "concat (chunks bs) = bs"
  by (rule chunks_decompose [of bs]) simp

lemma length_chunks: "length (chunks bs) = part_count (length bs)"
proof (rule chunks_decompose [of bs])
  fix qs p assume c: "chunks bs = qs @ [p]" "full qs" "length p \<le> 491" "concat qs @ p = bs"
    "qs = [] \<or> p \<noteq> []"
  have "length bs = 491 * length qs + length p"
    using c(2,4) by (auto simp: length_concat_full)
  moreover from c(3,5) have "(491 * length qs + length p + 490) div 491 = length qs + 1"
    if "p \<noteq> []"
    using that by (cases "length p") auto
  ultimately show ?thesis
    using c by (cases "p = []") (auto simp: part_count_def)
qed

lemma nth_chunks:
  assumes "j < length (chunks bs)"
  shows "chunks bs ! j = take 491 (drop (491 * j) bs)"
  using assms
proof (induction bs arbitrary: j rule: chunks.induct)
  case (1 bs)
  show ?case
  proof (cases "length bs \<le> 491")
    case True
    with 1 show ?thesis by (simp add: chunks_small)
  next
    case False
    with 1 show ?thesis
      by (cases j) (simp_all add: chunks.simps [of bs] add.commute)
  qed
qed

lemma length_nth_chunks:
  "j < length (chunks bs) - 1 \<Longrightarrow> length (chunks bs ! j) = 491"
  by (rule chunks_decompose [of bs]) (auto simp: full_def nth_append)

text \<open>A prefix of full pieces is a prefix of the pieces of every longer stream.\<close>

lemma take_chunks_full:
  "full qs \<Longrightarrow> r \<noteq> [] \<Longrightarrow> take (length qs) (chunks (concat qs @ r)) = qs"
  by (simp add: chunks_append_full)

lemma length_chunks_full:
  "full qs \<Longrightarrow> r \<noteq> [] \<Longrightarrow> length qs < length (chunks (concat qs @ r))"
  by (simp add: chunks_append_full)

lemma part_count_bound: "n \<le> 491 * k \<Longrightarrow> 0 < k \<Longrightarrow> part_count n \<le> k"
proof -
  assume "n \<le> 491 * k" "0 < k"
  then have "(n + 490) div 491 \<le> (491 * k + 490) div 491" by (intro div_le_mono) simp
  also have "\<dots> = k" by simp
  finally show ?thesis using \<open>0 < k\<close> by (simp add: part_count_def)
qed

lemma length_open_parts [simp]: "length (open_parts i ps) = length ps"
  by (simp add: open_parts_def)

lemma open_parts_Nil_iff [simp]: "open_parts i ps = [] \<longleftrightarrow> ps = []"
  by (metis length_0_conv length_open_parts)

lemma open_parts_append_single [simp]:
  "open_parts i (ps @ [p]) = open_parts i ps @ [part_buffer Kind_Part i (of_nat (length ps)) p]"
  by (simp add: open_parts_def enumerate_append_eq)

lemma open_parts_Nil [simp]: "open_parts i [] = []"
  by simp

lemma nth_open_parts:
  "j < length ps \<Longrightarrow> open_parts i ps ! j = part_buffer Kind_Part i (of_nat j) (ps ! j)"
  by (simp add: open_parts_def nth_enumerate_eq)

lemma take_open_parts [simp]: "take n (open_parts i ps) = open_parts i (take n ps)"
  by (rule nth_equalityI) (auto simp: nth_open_parts)

lemma length_part_list [simp]: "length (part_list i bs) = length (chunks bs)"
  by (simp add: part_list_def Suc_leI)

lemma part_list_not_Nil [simp]: "part_list i bs \<noteq> []"
  by (simp add: part_list_def)

lemma nth_part_list:
  "j < length (chunks bs) \<Longrightarrow> part_list i bs ! j =
     part_buffer (if j = length (chunks bs) - 1 then Kind_LastPart else Kind_Part) i (of_nat j)
       (chunks bs ! j)"
  by (auto simp: part_list_def nth_append nth_open_parts nth_butlast last_conv_nth)

lemma take_part_list:
  "n < length (chunks bs) \<Longrightarrow> take n (part_list i bs) = open_parts i (take n (chunks bs))"
  by (simp add: part_list_def take_butlast)

section \<open>The vector route\<close>

abbreviation vec_ser :: "usize \<Rightarrow> PacketId \<Rightarrow> u8 list list \<Rightarrow> VecPacketSerializer" where
  "vec_ser t i ps \<equiv> \<lparr>vs_threshold = t, vs_buf = open_parts i ps\<rparr>"

lemma seq_index_small:
  assumes "full (qs @ [p])" "bytes \<noteq> []" "length (concat qs @ p @ bytes) \<le> 491 * 2 ^ 32"
  shows "unat (of_nat (length qs) :: u32) + 1 < 2 ^ 32"
proof -
  have "0 < length bytes" using assms(2) by simp
  moreover have "491 * length qs + 491 + length bytes \<le> 491 * 2 ^ 32"
    using assms(1,3) by (simp add: length_concat_full)
  ultimately have "length qs + 1 < 2 ^ 32" by linarith
  then show ?thesis by simp
qed

lemma open_parts_push:
  "open_parts i (qs @ [p, q]) = open_parts i (qs @ [p])
     @ [part_buffer Kind_Part i (of_nat (length qs) + 1) q]"
  using open_parts_append_single [of i "qs @ [p]" q] by (simp add: add.commute)

lemma vec_step_room:
  assumes "length p < 491" "bytes \<noteq> []" "n = min (length bytes) (491 - length p)"
  shows "VecPacketSerializer_write (vec_ser t i (qs @ [p])) bytes
    = VecPacketSerializer_write (vec_ser t i (qs @ [p @ take n bytes])) (drop n bytes)"
proof -
  have n: "length bytes - n \<noteq> length bytes"
    using assms by (intro length_diff_neq) auto
  have app: "PacketBuffer_append (part_buffer Kind_Part i (of_nat (length qs)) p) bytes
      = Some (drop n bytes, part_buffer Kind_Part i (of_nat (length qs)) (p @ take n bytes))"
    using assms(1,3) by (intro append_part_buffer) simp_all
  show ?thesis
    using assms(2) n by (subst VecPacketSerializer_write.simps) (simp add: app Let_def)
qed

lemma vec_step_limit:
  assumes "full (qs @ [p])" "bytes \<noteq> []" "length qs + 1 = t"
  shows "VecPacketSerializer_write (vec_ser t i (qs @ [p])) bytes
    = Some (Inl (open_parts i (qs @ [p])), vec_ser t i [])"
  using assms
  by (subst VecPacketSerializer_write.simps) (simp add: append_part_buffer [of p 0] Let_def)

lemma vec_step_push:
  assumes "full (qs @ [p])" "bytes \<noteq> []" "length qs + 1 \<noteq> t"
    "unat (of_nat (length qs) :: u32) + 1 < 2 ^ 32"
  shows "VecPacketSerializer_write (vec_ser t i (qs @ [p])) bytes
    = VecPacketSerializer_write (vec_ser t i ((qs @ [p]) @ [[]])) bytes"
proof -
  have "holds (part_buffer Kind_Part i (of_nat (length qs)) p) Kind_Part i (of_nat (length qs)) p"
    using assms(1) by simp
  from new_next_holds [OF this assms(4)] show ?thesis
    using assms(1-3)
    by (subst VecPacketSerializer_write.simps)
      (simp add: append_part_buffer [of p 0] open_parts_push Let_def)
qed

definition vec_result ::
    "usize \<Rightarrow> PacketId \<Rightarrow> u8 list \<Rightarrow> ((PacketBuffer list + unit) \<times> VecPacketSerializer) option" where
  "vec_result t i bs =
     (let cs = chunks bs
      in if length cs \<le> t then Some (Inr (), vec_ser t i cs)
         else Some (Inl (open_parts i (take t cs)), vec_ser t i []))"

lemma vec_result_full:
  assumes "full qs" "r \<noteq> []" "length qs = t"
  shows "vec_result t i (concat qs @ r) = Some (Inl (open_parts i qs), vec_ser t i [])"
  using assms take_chunks_full [OF assms(1,2)] length_chunks_full [OF assms(1,2)]
  by (simp add: vec_result_def Let_def)

lemma vec_write:
  assumes "full qs" "length p \<le> 491" "length qs < t"
    and "length (concat qs @ p @ bytes) \<le> 491 * 2 ^ 32"
    and "bytes \<noteq> [] \<or> qs = [] \<or> p \<noteq> []"
  shows "VecPacketSerializer_write (vec_ser t i (qs @ [p])) bytes
    = vec_result t i (concat qs @ p @ bytes)"
  using assms
proof (induction "2 * length bytes + (if length p = 491 then 1 else 0 :: nat)"
    arbitrary: qs p bytes rule: less_induct)
  case less
  consider (fin) "bytes = []" | (room) "bytes \<noteq> []" "length p < 491"
    | (limit) "bytes \<noteq> []" "full (qs @ [p])" "length qs + 1 = t"
    | (push) "bytes \<noteq> []" "full (qs @ [p])" "length qs + 1 \<noteq> t"
    using less.prems(1,2) by (fastforce simp: le_less)
  then show ?case
  proof cases
    case fin
    with less.prems show ?thesis
      by (simp add: VecPacketSerializer_write.simps vec_result_def chunks_unique)
  next
    case room
    define n where "n = min (length bytes) (491 - length p)"
    have n: "0 < n" "n \<le> length bytes" "length p + n \<le> 491"
      using room by (auto simp: n_def)
    have "VecPacketSerializer_write (vec_ser t i (qs @ [p @ take n bytes])) (drop n bytes)
        = vec_result t i (concat qs @ (p @ take n bytes) @ drop n bytes)"
      using less.prems room n by (intro less.hyps) auto
    then show ?thesis using vec_step_room [OF room(2,1) n_def] by simp
  next
    case limit
    then show ?thesis
      using vec_result_full [OF limit(2,1), of t i] vec_step_limit [OF limit(2,1,3), of i] by simp
  next
    case push
    have "VecPacketSerializer_write (vec_ser t i ((qs @ [p]) @ [[]])) bytes
        = vec_result t i (concat (qs @ [p]) @ [] @ bytes)"
      using less.prems push by (intro less.hyps) auto
    then show ?thesis
      using vec_step_push [OF push(2,1,3) seq_index_small [OF push(2,1) less.prems(4)]] by simp
  qed
qed

lemma vec_result_cut:
  assumes "t < length (chunks bs)" shows "vec_result t i (bs @ rest) = vec_result t i bs"
proof (rule chunks_decompose [of bs])
  fix qs p assume c: "chunks bs = qs @ [p]" "full qs" "concat qs @ p = bs" "qs = [] \<or> p \<noteq> []"
  let ?q = "take t qs" and ?r = "concat (drop t qs) @ p"
  have bs: "bs = concat ?q @ ?r"
    using c(3) by (metis append.assoc append_take_drop_id concat_append)
  have q: "full ?q" "length ?q = t" using c(1,2) assms by (auto simp: full_def dest: in_set_takeD)
  show ?thesis
  proof (cases "t = 0")
    case True
    then show ?thesis by (simp add: vec_result_def Let_def Suc_le_eq)
  next
    case False
    with c assms have "p \<noteq> []" by auto
    then have "?r \<noteq> []" "?r @ rest \<noteq> []" by auto
    with vec_result_full [OF q(1) _ q(2)] bs show ?thesis by (metis append.assoc)
  qed
qed

lemma vec_serialize_value:
  assumes "0 < t" "length (chunks bs) \<le> t" "length (bs @ concat ws) \<le> 491 * 2 ^ 32"
  shows "serialize_value VecPacketSerializer_write ws (vec_ser t i (chunks bs))
    = vec_result t i (bs @ concat ws)"
  using assms(2,3)
proof (induction ws arbitrary: bs)
  case Nil
  then show ?case by (simp add: vec_result_def)
next
  case (Cons w ws)
  obtain qs p where c: "chunks bs = qs @ [p]" "full qs" "length p \<le> 491" "concat qs @ p = bs"
      "qs = [] \<or> p \<noteq> []"
    by (rule chunks_decompose [of bs])
  have w: "VecPacketSerializer_write (vec_ser t i (chunks bs)) w = vec_result t i (bs @ w)"
  proof -
    have "concat qs @ p @ w = bs @ w" by (simp flip: c(4))
    moreover have "length qs < t" using Cons.prems(1) c(1) by simp
    ultimately show ?thesis
      using vec_write [of qs p t w i] c(1,2,3,5) Cons.prems(2) by auto
  qed
  show ?case
  proof (cases "length (chunks (bs @ w)) \<le> t")
    case True
    then have "vec_result t i (bs @ w) = Some (Inr (), vec_ser t i (chunks (bs @ w)))"
      by (simp add: vec_result_def)
    with w True Cons.IH [of "bs @ w"] Cons.prems show ?thesis by simp
  next
    case False
    then have "vec_result t i (bs @ w)
        = Some (Inl (open_parts i (take t (chunks (bs @ w)))), vec_ser t i [])"
      by (simp add: vec_result_def Let_def)
    with w False vec_result_cut [of t "bs @ w" i "concat ws"] show ?thesis by simp
  qed
qed

section \<open>The channel route\<close>

definition chan_inv ::
    "PacketId \<Rightarrow> nat \<Rightarrow> PacketBuffer list \<Rightarrow> nat option \<Rightarrow> u8 list list \<Rightarrow> u8 list
      \<Rightarrow> ChannelPacketSerializer \<Rightarrow> bool" where
  "chan_inv i S A L qs p ser \<longleftrightarrow>
     full qs \<and> length p \<le> 491 \<and> tx_limit (cs_tx ser) = L \<and>
     (\<forall>n. L = Some n \<longrightarrow> length (tx_sent (cs_tx ser)) \<le> n) \<and>
     (if cs_skip ser > 0
      then frame (cs_buf ser) Kind_Part i (of_nat (length qs)) (length p) \<and>
           cs_skip ser + length qs = S \<and> tx_sent (cs_tx ser) = A
      else holds (cs_buf ser) Kind_Part i (of_nat (length qs)) p \<and>
           S \<le> length qs \<and> tx_sent (cs_tx ser) = open_parts i qs)"

lemma chan_step_room:
  assumes "chan_inv i S A L qs p ser" "length p < 491" "bytes \<noteq> []"
    and n: "n = min (length bytes) (491 - length p)"
  obtains ser' where
    "ChannelPacketSerializer_write ser bytes = ChannelPacketSerializer_write ser' (drop n bytes)"
    "chan_inv i S A L qs (p @ take n bytes) ser'"
proof -
  have ne: "length bytes - n \<noteq> length bytes"
    using assms by (intro length_diff_neq) auto
  show ?thesis
  proof (cases "cs_skip ser > 0")
    case True
    then have "frame (cs_buf ser) Kind_Part i (of_nat (length qs)) (length p)"
      using assms(1) by (simp add: chan_inv_def)
    then obtain b where b: "PacketBuffer_skip (cs_buf ser) bytes = Some (drop n bytes, b)"
      "frame b Kind_Part i (of_nat (length qs)) (length p + n)"
      using skip_frame n by metis
    show ?thesis
    proof (rule that)
      show "ChannelPacketSerializer_write ser bytes
          = ChannelPacketSerializer_write (ser\<lparr>cs_buf := b\<rparr>) (drop n bytes)"
        using True assms(3) ne b by (subst ChannelPacketSerializer_write.simps) simp
      show "chan_inv i S A L qs (p @ take n bytes) (ser\<lparr>cs_buf := b\<rparr>)"
        using True assms(1) b n by (auto simp: chan_inv_def)
    qed
  next
    case False
    then have "holds (cs_buf ser) Kind_Part i (of_nat (length qs)) p"
      using assms(1) by (simp add: chan_inv_def)
    then obtain b where b: "PacketBuffer_append (cs_buf ser) bytes = Some (drop n bytes, b)"
      "holds b Kind_Part i (of_nat (length qs)) (p @ take n bytes)"
      using append_holds n by metis
    show ?thesis
    proof (rule that)
      show "ChannelPacketSerializer_write ser bytes
          = ChannelPacketSerializer_write (ser\<lparr>cs_buf := b\<rparr>) (drop n bytes)"
        using False assms(3) ne b by (subst ChannelPacketSerializer_write.simps) simp
      show "chan_inv i S A L qs (p @ take n bytes) (ser\<lparr>cs_buf := b\<rparr>)"
        using False assms(1) b n by (auto simp: chan_inv_def)
    qed
  qed
qed

lemma chan_step_skip:
  assumes inv: "chan_inv i S A L qs p ser" and "length p = 491" "bytes \<noteq> []" "cs_skip ser > 0"
    and small: "unat (of_nat (length qs) :: u32) + 1 < 2 ^ 32"
    and A: "S = length qs + 1 \<longrightarrow> A = open_parts i (qs @ [p])"
  obtains ser' where
    "ChannelPacketSerializer_write ser bytes = ChannelPacketSerializer_write ser' bytes"
    "chan_inv i S A L (qs @ [p]) [] ser'"
proof -
  have fr: "frame (cs_buf ser) Kind_Part i (of_nat (length qs)) 491"
    using inv assms(2,4) by (simp add: chan_inv_def)
  obtain b where b: "PacketBuffer_skip (cs_buf ser) bytes = Some (bytes, b)"
    "frame b Kind_Part i (of_nat (length qs)) 491"
    using skip_frame [OF fr, of 0 bytes] by auto
  obtain b' where b': "PacketBuffer_next b = Some b'"
    "holds b' Kind_Part i (of_nat (length qs) + 1) []"
    by (rule next_frame [OF b(2) small])
  show ?thesis
  proof (rule that)
    show "ChannelPacketSerializer_write ser bytes = ChannelPacketSerializer_write
        (ser\<lparr>cs_skip := cs_skip ser - 1, cs_buf := b'\<rparr>) bytes"
      using assms(3,4) b b' by (subst ChannelPacketSerializer_write.simps) simp
    show "chan_inv i S A L (qs @ [p]) [] (ser\<lparr>cs_skip := cs_skip ser - 1, cs_buf := b'\<rparr>)"
      using inv assms(2,4) b' A holds_frame [OF b'(2)] by (auto simp: chan_inv_def add.commute)
  qed
qed

lemma chan_step_send:
  assumes inv: "chan_inv i S A L qs p ser" and "length p = 491" "bytes \<noteq> []" "cs_skip ser = 0"
    and small: "unat (of_nat (length qs) :: u32) + 1 < 2 ^ 32"
  obtains
    (sent) ser' where
      "ChannelPacketSerializer_write ser bytes = ChannelPacketSerializer_write ser' bytes"
      "chan_inv i S A L (qs @ [p]) [] ser'"
  | (dropped) ser' where
      "ChannelPacketSerializer_write ser bytes = Some (Inl ReceiverDropped, ser')"
      "L = Some (length qs)" "tx_sent (cs_tx ser') = open_parts i qs"
proof -
  have h: "holds (cs_buf ser) Kind_Part i (of_nat (length qs)) p"
    and tx: "tx_sent (cs_tx ser) = open_parts i qs" "tx_limit (cs_tx ser) = L"
    using inv assms(4) by (simp_all add: chan_inv_def)
  obtain b where b: "PacketBuffer_append (cs_buf ser) bytes = Some (bytes, b)"
    "holds b Kind_Part i (of_nat (length qs)) p"
    using append_holds [OF h, of 0 bytes] assms(2) by auto
  obtain b' where b': "PacketBuffer_next b = Some b'"
    "holds b' Kind_Part i (of_nat (length qs) + 1) []"
    using next_frame [OF _ small] holds_frame [OF b(2)] assms(2) by metis
  show ?thesis
  proof (cases "L = Some (length qs)")
    case True
    show ?thesis
    proof (rule dropped)
      show "ChannelPacketSerializer_write ser bytes
          = Some (Inl ReceiverDropped, ser\<lparr>cs_buf := b\<rparr>)"
        using assms(3,4) b True tx
        by (subst ChannelPacketSerializer_write.simps)
          (simp add: copy_holds SyncSender_send_def)
    qed (use True tx in simp_all)
  next
    case False
    let ?tx = "(cs_tx ser)\<lparr>tx_sent := open_parts i (qs @ [p])\<rparr>"
    have fits: "\<forall>n. L = Some n \<longrightarrow> length qs < n"
      using inv tx False by (fastforce simp: chan_inv_def le_less)
    then have "SyncSender_send (cs_tx ser) (part_buffer Kind_Part i (of_nat (length qs)) p) = Inr ?tx"
      using tx by (auto simp: SyncSender_send_def split: option.splits)
    note send = this
    show ?thesis
    proof (rule sent)
      show "ChannelPacketSerializer_write ser bytes
          = ChannelPacketSerializer_write (ser\<lparr>cs_buf := b', cs_tx := ?tx\<rparr>) bytes"
        using assms(3,4) b b' send
        by (subst ChannelPacketSerializer_write.simps) (simp add: copy_holds)
      show "chan_inv i S A L (qs @ [p]) [] (ser\<lparr>cs_buf := b', cs_tx := ?tx\<rparr>)"
        using assms(2,4) b' inv fits tx by (auto simp: chan_inv_def add.commute Suc_leI)
    qed
  qed
qed

text \<open>One write: either all bytes are consumed, or the receiver went away.\<close>

definition chan_ok where
  "chan_ok i S A L bs res \<longleftrightarrow>
     (\<exists>ser qs p. res = Some (Inr (), ser) \<and> chan_inv i S A L qs p ser \<and> concat qs @ p = bs \<and>
        (qs = [] \<or> p \<noteq> []))"

definition chan_dropped where
  "chan_dropped i L bs res \<longleftrightarrow>
     (\<exists>ser qs r. res = Some (Inl ReceiverDropped, ser) \<and> L = Some (length qs) \<and> full qs \<and>
        tx_sent (cs_tx ser) = open_parts i qs \<and> r \<noteq> [] \<and> concat qs @ r = bs)"

lemma chan_write:
  assumes "chan_inv i S A L qs p ser" "length (concat qs @ p @ bytes) \<le> 491 * 2 ^ 32"
    and "bytes \<noteq> [] \<or> qs = [] \<or> p \<noteq> []"
    and "A = open_parts i (take S (chunks (concat qs @ p @ bytes @ rest)))"
  shows "chan_ok i S A L (concat qs @ p @ bytes) (ChannelPacketSerializer_write ser bytes) \<or>
    chan_dropped i L (concat qs @ p @ bytes) (ChannelPacketSerializer_write ser bytes)"
  using assms
proof (induction "2 * length bytes + (if length p = 491 then 1 else 0 :: nat)"
    arbitrary: qs p bytes ser rule: less_induct)
  case less
  have fp: "full qs" "length p \<le> 491" using less.prems(1) by (auto simp: chan_inv_def)
  consider (fin) "bytes = []" | (room) "bytes \<noteq> []" "length p < 491"
    | (skip) "bytes \<noteq> []" "length p = 491" "cs_skip ser > 0"
    | (send) "bytes \<noteq> []" "length p = 491" "cs_skip ser = 0"
    using fp by linarith
  then show ?case
  proof cases
    case fin
    with less.prems show ?thesis
      by (auto simp: ChannelPacketSerializer_write.simps chan_ok_def)
  next
    case room
    define n where "n = min (length bytes) (491 - length p)"
    obtain ser' where s: "ChannelPacketSerializer_write ser bytes
        = ChannelPacketSerializer_write ser' (drop n bytes)"
      "chan_inv i S A L qs (p @ take n bytes) ser'"
      using chan_step_room [OF less.prems(1) room(2,1) n_def] by blast
    have n: "0 < n" "n \<le> length bytes" using room by (auto simp: n_def)
    have td: "take n bytes @ drop n bytes @ rest = bytes @ rest"
      by (simp flip: append_assoc)
    have m: "2 * (length bytes - n) + (if length p + n = 491 then 1 else 0) < 2 * length bytes"
      using n by auto
    show ?thesis
      using less.hyps [of "drop n bytes" "p @ take n bytes" qs ser'] s less.prems room n m
      by (simp add: td)
  next
    case skip
    have f: "full (qs @ [p])" using fp skip by simp
    have "A = open_parts i (qs @ [p])" if "S = length qs + 1"
      using that less.prems(4) take_chunks_full [OF f, of "bytes @ rest"] skip(1) by simp
    then obtain ser' where s: "ChannelPacketSerializer_write ser bytes
        = ChannelPacketSerializer_write ser' bytes" "chan_inv i S A L (qs @ [p]) [] ser'"
      using chan_step_skip [OF less.prems(1) skip(2,1,3) seq_index_small [OF f skip(1) less.prems(2)]]
      by blast
    with less.hyps [of bytes "[]" "qs @ [p]" ser'] less.prems skip show ?thesis by auto
  next
    case send
    have f: "full (qs @ [p])" using fp send by simp
    show ?thesis
      using less.prems(1) send(2,1,3) seq_index_small [OF f send(1) less.prems(2)]
    proof (rule chan_step_send)
      fix ser' assume s: "ChannelPacketSerializer_write ser bytes
        = ChannelPacketSerializer_write ser' bytes" "chan_inv i S A L (qs @ [p]) [] ser'"
      with less.hyps [of bytes "[]" "qs @ [p]" ser'] less.prems send show ?thesis by auto
    next
      fix ser' assume "ChannelPacketSerializer_write ser bytes = Some (Inl ReceiverDropped, ser')"
        "L = Some (length qs)" "tx_sent (cs_tx ser') = open_parts i qs"
      with fp send show ?thesis by (auto simp: chan_dropped_def)
    qed
  qed
qed

lemma chan_serialize_value:
  assumes "chan_inv i S A L qs p ser" "length (concat qs @ p @ concat ws) \<le> 491 * 2 ^ 32"
    and "qs = [] \<or> p \<noteq> []"
    and "A = open_parts i (take S (chunks (concat qs @ p @ concat ws)))"
  shows "chan_ok i S A L (concat qs @ p @ concat ws)
        (serialize_value ChannelPacketSerializer_write ws ser) \<or>
      (\<exists>bs rest. concat qs @ p @ concat ws = bs @ rest \<and>
        chan_dropped i L bs (serialize_value ChannelPacketSerializer_write ws ser))"
  using assms
proof (induction ws arbitrary: qs p ser)
  case Nil
  then show ?case by (auto simp: chan_ok_def)
next
  case (Cons w ws)
  have "chan_ok i S A L (concat qs @ p @ w) (ChannelPacketSerializer_write ser w) \<or>
      chan_dropped i L (concat qs @ p @ w) (ChannelPacketSerializer_write ser w)"
    using Cons.prems by (intro chan_write [where rest = "concat ws"]) auto
  then show ?case
  proof
    assume "chan_ok i S A L (concat qs @ p @ w) (ChannelPacketSerializer_write ser w)"
    then obtain ser' qs' p' where s: "ChannelPacketSerializer_write ser w = Some (Inr (), ser')"
      "chan_inv i S A L qs' p' ser'" "concat qs' @ p' = concat qs @ p @ w" "qs' = [] \<or> p' \<noteq> []"
      by (auto simp: chan_ok_def)
    then have e: "concat qs' @ p' @ concat ws = concat qs @ p @ w @ concat ws"
      by (metis append.assoc)
    with Cons.IH [OF s(2) _ s(4)] Cons.prems s(1) show ?thesis by simp
  next
    assume d: "chan_dropped i L (concat qs @ p @ w) (ChannelPacketSerializer_write ser w)"
    then obtain ser' where "ChannelPacketSerializer_write ser w = Some (Inl ReceiverDropped, ser')"
      by (auto simp: chan_dropped_def)
    with d show ?thesis
      by (intro disjI2 exI [of _ "concat qs @ p @ w"] exI [of _ "concat ws"]) simp
  qed
qed

section \<open>serialize\_packet produces the numbered parts\<close>

lemma send_all_unlimited:
  "send_all \<lparr>tx_sent = s, tx_limit = None\<rparr> bs = Inr \<lparr>tx_sent = s @ bs, tx_limit = None\<rparr>"
  by (induction bs arbitrary: s) (simp_all add: SyncSender_send_def)

lemma send_all_limited:
  "length s \<le> n \<Longrightarrow> send_all \<lparr>tx_sent = s, tx_limit = Some n\<rparr> bs =
     (if length s + length bs \<le> n then Inr \<lparr>tx_sent = s @ bs, tx_limit = Some n\<rparr>
      else Inl \<lparr>tx_sent = s @ take (n - length s) bs, tx_limit = Some n\<rparr>)"
proof (induction bs arbitrary: s)
  case Nil
  then show ?case by simp
next
  case (Cons b bs)
  then show ?case
    by (cases "length s < n") (auto simp: SyncSender_send_def Suc_le_eq take_Cons')
qed

definition cut :: "nat option \<Rightarrow> 'a list \<Rightarrow> 'a list" where
  "cut L xs = (case L of None \<Rightarrow> xs | Some n \<Rightarrow> take n xs)"

text \<open>The last step of the thread: the final, possibly short, part is marked and sent.\<close>

lemma thread_finish:
  assumes "chan_inv i S A L qs p ser" "cs_skip ser = 0" "qs = [] \<or> p \<noteq> []"
  shows "do {
     buf \<leftarrow> (if cs_skip ser = 0 then PacketBuffer_mark_last (cs_buf ser) else None);
     copy \<leftarrow> PacketBuffer_copy buf;
     (case SyncSender_send (cs_tx ser) copy of
        Inl _ \<Rightarrow> Some (tx_sent (cs_tx ser)) | Inr tx \<Rightarrow> Some (tx_sent tx))
   } = Some (cut L (part_list i (concat qs @ p)))"
proof -
  let ?last = "part_buffer Kind_LastPart i (of_nat (length qs)) p"
  have h: "holds (cs_buf ser) Kind_Part i (of_nat (length qs)) p" and qp: "full qs" "length p \<le> 491"
    and tx: "tx_sent (cs_tx ser) = open_parts i qs" "tx_limit (cs_tx ser) = L"
    and fits: "\<forall>n. L = Some n \<longrightarrow> length qs \<le> n"
    using assms(1,2) by (auto simp: chan_inv_def)
  obtain b where b: "PacketBuffer_mark_last (cs_buf ser) = Some b"
    "holds b Kind_LastPart i (of_nat (length qs)) p"
    by (rule mark_last_holds [OF h])
  have "part_list i (concat qs @ p) = open_parts i qs @ [?last]"
    using qp assms(3) by (simp add: part_list_def chunks_unique)
  moreover have "(case SyncSender_send (cs_tx ser) ?last of
        Inl _ \<Rightarrow> tx_sent (cs_tx ser) | Inr tx \<Rightarrow> tx_sent tx) = cut L (open_parts i qs @ [?last])"
    using tx fits
    by (auto simp: SyncSender_send_def cut_def take_Cons' split: option.splits)
  ultimately show ?thesis
    using assms(2) b by (auto simp: copy_holds split: sum.splits)
qed

theorem serialize_thread_parts:
  assumes "t < length (chunks (concat ws))" "length (concat ws) \<le> 491 * 2 ^ 32"
  shows "serialize_thread i (open_parts i (take t (chunks (concat ws)))) ws L
    = Some (cut L (part_list i (concat ws)))"
proof -
  let ?cs = "chunks (concat ws)" let ?A = "open_parts i (take t ?cs)"
  have A: "length ?A = t" using assms(1) by simp
  consider (short) n where "L = Some n" "n < t"
    | (long) "send_all \<lparr>tx_sent = [], tx_limit = L\<rparr> ?A = Inr \<lparr>tx_sent = ?A, tx_limit = L\<rparr>"
      "\<forall>n. L = Some n \<longrightarrow> t \<le> n"
    using A by (cases L; cases "the L < t") (auto simp: send_all_unlimited send_all_limited)
  then show ?thesis
  proof cases
    case short
    then show ?thesis
      using A assms(1) by (simp add: serialize_thread_def send_all_limited cut_def take_part_list)
  next
    case long
    let ?ser = "\<lparr>cs_skip = t, cs_buf = part_buffer Kind_Part i 0 [],
      cs_tx = \<lparr>tx_sent = ?A, tx_limit = L\<rparr>\<rparr>"
    let ?res = "serialize_value ChannelPacketSerializer_write ws ?ser"
    have "holds (part_buffer Kind_Part i 0 []) Kind_Part i 0 []" by simp
    then have inv: "chan_inv i t ?A L [] [] ?ser"
      using long(2) A holds_frame by (fastforce simp: chan_inv_def)
    have "chan_ok i t ?A L (concat ws) ?res \<or>
        (\<exists>bs rest. concat ws = bs @ rest \<and> chan_dropped i L bs ?res)"
      using chan_serialize_value [OF inv, of ws] assms(2) by simp
    then show ?thesis
    proof (elim disjE exE conjE)
      assume "chan_ok i t ?A L (concat ws) ?res"
      then obtain ser qs p where r: "?res = Some (Inr (), ser)" "chan_inv i t ?A L qs p ser"
        "concat qs @ p = concat ws" "qs = [] \<or> p \<noteq> []"
        by (auto simp: chan_ok_def)
      have "?cs = qs @ [p]"
        using r by (metis chan_inv_def chunks_unique)
      then have "cs_skip ser = 0"
        using r(2) assms(1) by (auto simp: chan_inv_def split: if_splits)
      then show ?thesis
        using thread_finish [OF r(2) _ r(4)] r(1,3) long(1) A
        by (simp add: serialize_thread_def)
    next
      fix bs rest assume bs: "concat ws = bs @ rest" "chan_dropped i L bs ?res"
      then obtain ser qs r where r: "?res = Some (Inl ReceiverDropped, ser)" "L = Some (length qs)"
        "full qs" "tx_sent (cs_tx ser) = open_parts i qs" "r \<noteq> []" "concat qs @ r = bs"
        by (auto simp: chan_dropped_def)
      have "concat ws = concat qs @ (r @ rest)" using bs(1) r(6) by simp
      then have "take (length qs) ?cs = qs" "length qs < length ?cs"
        using take_chunks_full [OF r(3), of "r @ rest"] length_chunks_full [OF r(3), of "r @ rest"]
          r(5) by simp_all
      then show ?thesis
        using r long(1) A by (simp add: serialize_thread_def cut_def take_part_list)
    qed
  qed
qed

lemma serialize_packet_vec:
  assumes "0 < t" "length (chunks (concat ws)) \<le> t" "length (concat ws) \<le> 491 * 2 ^ 32"
  shows "serialize_packet i t ws = Some (SP_Vec (part_list i (concat ws)))"
proof -
  let ?cs = "chunks (concat ws)"
  have c: "open_parts i ?cs = open_parts i (butlast ?cs)
      @ [part_buffer Kind_Part i (of_nat (length ?cs - 1)) (last ?cs)]"
    using open_parts_append_single [of i "butlast ?cs" "last ?cs"] by simp
  have "serialize_value VecPacketSerializer_write ws (vec_ser t i (chunks []))
      = Some (Inr (), vec_ser t i ?cs)"
    using vec_serialize_value [of t "[]" ws i] assms by (simp add: vec_result_def chunks_small)
  moreover have "vec_ser t i (chunks []) =
      \<lparr>vs_threshold = t, vs_buf = [part_buffer Kind_Part i 0 []]\<rparr>"
    using open_parts_append_single [of i "[]" "[]"] by (simp add: chunks_small)
  ultimately show ?thesis
    using assms(1) c by (simp add: serialize_packet_def part_list_def)
qed

lemma serialize_packet_channel:
  assumes "t < length (chunks (concat ws))" "length (concat ws) \<le> 491 * 2 ^ 32"
  shows "serialize_packet i t ws = Some (SP_Channel (part_list i (concat ws)))"
proof (cases "t = 0")
  case True
  then show ?thesis
    using serialize_thread_parts [of 0 ws i None] assms
    by (simp add: serialize_packet_def cut_def)
next
  case False
  let ?cs = "chunks (concat ws)"
  have "serialize_value VecPacketSerializer_write ws (vec_ser t i (chunks []))
      = Some (Inl (open_parts i (take t ?cs)), vec_ser t i [])"
    using vec_serialize_value [of t "[]" ws i] assms False
    by (simp add: vec_result_def chunks_small Let_def)
  moreover have "vec_ser t i (chunks []) =
      \<lparr>vs_threshold = t, vs_buf = [part_buffer Kind_Part i 0 []]\<rparr>"
    using open_parts_append_single [of i "[]" "[]"] by (simp add: chunks_small)
  ultimately show ?thesis
    using False serialize_thread_parts [OF assms, of i None]
    by (simp add: serialize_packet_def cut_def)
qed

lemma serialize_packet_parts:
  assumes "length (concat ws) \<le> 491 * 2 ^ 32"
  obtains p where "serialize_packet i t ws = Some p"
    "SerializedPacket_parts p = part_list i (concat ws)"
proof (cases "0 < t \<and> length (chunks (concat ws)) \<le> t")
  case True
  with assms show ?thesis
    by (intro that [of "SP_Vec (part_list i (concat ws))"])
      (simp_all add: serialize_packet_vec SerializedPacket_parts_def)
next
  case False
  then have "t < length (chunks (concat ws))" by auto
  with assms show ?thesis
    by (intro that [of "SP_Channel (part_list i (concat ws))"])
      (simp_all add: serialize_packet_channel SerializedPacket_parts_def)
qed

end
