(* ===== verification/Packet_Queue.thy ===== *)
theory Packet_Queue
  imports Serialize_Spec
begin

text \<open>
  \<open>PacketQueue\<close> of \<^verbatim>\<open>packet/send.rs\<close>: the parts of an outgoing packet that are not yet acked at
  the front, how many were removed from the front, and the channel with the parts a background
  thread still produces.

  The buffer at position \<open>j\<close> holds part number \<open>first_unacked + j\<close>; \<open>unacked_seqs\<close> is the set of
  part numbers still to be acked. The lemmas compute what \<open>send_unacked\<close> puts on the wire and
  which part number \<open>ack\<close> marks.
\<close>

section \<open>The program\<close>

record PacketQueue =
  pq_packets :: "PacketBuffer list"
  pq_first_unacked :: usize
  pq_rx :: "PacketBuffer list option"

definition PacketQueue_new :: "SerializedPacket \<Rightarrow> PacketQueue" where
  "PacketQueue_new packet =
     (case packet of
        SP_Vec packets \<Rightarrow> \<lparr>pq_packets = packets, pq_first_unacked = 0, pq_rx = None\<rparr>
      | SP_Channel rx \<Rightarrow> \<lparr>pq_packets = [], pq_first_unacked = 0, pq_rx = Some rx\<rparr>)"

text \<open>Receiving from the channel blocks until the thread has the next part or is finished, so
  \<open>zip(existing..count, rx)\<close> takes as many of the parts still to come as there are.\<close>

definition PacketQueue_fill :: "PacketQueue \<Rightarrow> usize \<Rightarrow> PacketQueue" where
  "PacketQueue_fill self count =
     (case pq_rx self of
        None \<Rightarrow> self
      | Some rx \<Rightarrow>
          let existing = length (take count (filter (\<lambda>p. \<not> pb_acked p) (pq_packets self)));
              k = count - existing
          in self\<lparr>pq_packets := pq_packets self @ take k rx, pq_rx := Some (drop k rx)\<rparr>)"

text \<open>The iterator dereferences a buffer when it is asked for it, so its items are the results
  of \<open>as_ref\<close>.\<close>

definition PacketQueue_unacked :: "PacketQueue \<Rightarrow> usize \<Rightarrow> u8 list option list \<times> PacketQueue" where
  "PacketQueue_unacked self count =
     (let self = PacketQueue_fill self count
      in (take count (map PacketBuffer_deref (filter (\<lambda>p. \<not> pb_acked p) (pq_packets self))), self))"

fun send_items ::
    "u8 list option list \<Rightarrow> BatchSize \<Rightarrow> socket \<Rightarrow> world
      \<Rightarrow> ((BatchSize \<times> bool) io_result \<times> world) option" where
  "send_items [] count socket w = Some (Inr (count, True), w)"
| "send_items (item # items) count socket w = do {
     buf \<leftarrow> item;
     (r, w) \<leftarrow> socket buf w;
     (case r of
        Inl error \<Rightarrow> Some (Inl error, w)
      | Inr ok \<Rightarrow>
          if \<not> ok then Some (Inr (count, False), w)
          else do { count \<leftarrow> u16_add count 1; send_items items count socket w })
   }"

definition PacketQueue_send_unacked ::
    "PacketQueue \<Rightarrow> NonZeroBatchSize \<Rightarrow> socket \<Rightarrow> world
      \<Rightarrow> ((BatchSize \<times> bool) io_result \<times> PacketQueue \<times> world) option" where
  "PacketQueue_send_unacked self batch_size socket w = do {
     let (items, self) = PacketQueue_unacked self (unat batch_size);
     (r, w) \<leftarrow> send_items items 0 socket w;
     Some (r, self, w)
   }"

definition PacketQueue_ack ::
    "PacketQueue \<Rightarrow> SeqIndex \<Rightarrow> (SeqIndexAckedBeforeSent + bool) \<times> PacketQueue" where
  "PacketQueue_ack self s =
     (let k = unat s in
      if k < length (pq_packets self)
      then let was_acked = pb_acked (pq_packets self ! k);
               self = self\<lparr>pq_packets := (pq_packets self)[k := (pq_packets self ! k)\<lparr>pb_acked := True\<rparr>]\<rparr>
           in if was_acked then (Inr True, self)
              else let first_unacked =
                         (case position (\<lambda>p. \<not> pb_acked p) (pq_packets self) of
                            None \<Rightarrow> length (pq_packets self) | Some z \<Rightarrow> z);
                       self = self\<lparr>pq_packets := drop first_unacked (pq_packets self),
                                   pq_first_unacked := pq_first_unacked self + first_unacked\<rparr>
                   in (Inr False, self)
      else (Inl (SeqIndexAckedBeforeSent s), self))"

section \<open>What is left to send\<close>

definition unacked_parts :: "PacketQueue \<Rightarrow> PacketBuffer list" where
  "unacked_parts q = filter (\<lambda>p. \<not> pb_acked p) (pq_packets q)"

definition rx_parts :: "PacketQueue \<Rightarrow> PacketBuffer list" where
  "rx_parts q = (case pq_rx q of None \<Rightarrow> [] | Some rx \<Rightarrow> rx)"

definition pending_parts :: "PacketQueue \<Rightarrow> PacketBuffer list" where
  "pending_parts q = unacked_parts q @ rx_parts q"

text \<open>Well-formed queues: every buffer can be sent, what comes from the channel is not acked,
  and the first buffer is not acked, because acked buffers are removed from the front.\<close>

definition queue_wf :: "PacketQueue \<Rightarrow> bool" where
  "queue_wf q \<longleftrightarrow>
     (\<forall>b \<in> set (pq_packets q @ rx_parts q). PacketBuffer_deref b \<noteq> None) \<and>
     (\<forall>b \<in> set (rx_parts q). \<not> pb_acked b) \<and>
     (pq_packets q \<noteq> [] \<longrightarrow> \<not> pb_acked (hd (pq_packets q)))"

lemma PacketQueue_new_pending:
  assumes "\<forall>b \<in> set (SerializedPacket_parts p). \<not> pb_acked b"
  shows "pending_parts (PacketQueue_new p) = SerializedPacket_parts p"
  using assms
  by (auto simp: PacketQueue_new_def pending_parts_def unacked_parts_def rx_parts_def
      SerializedPacket_parts_def filter_id_conv split: SerializedPacket.splits)

lemma PacketQueue_new_wf:
  assumes "\<forall>b \<in> set (SerializedPacket_parts p). \<not> pb_acked b \<and> PacketBuffer_deref b \<noteq> None"
  shows "queue_wf (PacketQueue_new p)"
  using assms
  by (auto simp: queue_wf_def PacketQueue_new_def rx_parts_def SerializedPacket_parts_def
      split: SerializedPacket.splits)

text \<open>Filling from the channel moves parts from the channel into the queue: nothing is lost and
  the order stays.\<close>

lemma PacketQueue_fill_pending:
  "queue_wf q \<Longrightarrow> pending_parts (PacketQueue_fill q n) = pending_parts q"
proof -
  assume wf: "queue_wf q"
  have "filter (\<lambda>p. \<not> pb_acked p) (take k (rx_parts q)) = take k (rx_parts q)" for k
    using wf by (auto simp: queue_wf_def filter_id_conv dest: in_set_takeD)
  then show ?thesis
    by (auto simp: PacketQueue_fill_def pending_parts_def unacked_parts_def rx_parts_def Let_def
        split: option.splits)
qed

lemma PacketQueue_fill_wf [wf_intros]: "queue_wf q \<Longrightarrow> queue_wf (PacketQueue_fill q n)"
proof (cases "pq_rx q")
  case None
  then show "queue_wf q \<Longrightarrow> queue_wf (PacketQueue_fill q n)" by (simp add: PacketQueue_fill_def)
next
  case (Some rx)
  assume wf: "queue_wf q"
  then have rx: "\<forall>b \<in> set rx. PacketBuffer_deref b \<noteq> None \<and> \<not> pb_acked b"
    using Some by (simp add: queue_wf_def rx_parts_def)
  obtain k where k: "PacketQueue_fill q n
      = q\<lparr>pq_packets := pq_packets q @ take k rx, pq_rx := Some (drop k rx)\<rparr>"
    using Some by (simp add: PacketQueue_fill_def Let_def)
  have "\<not> pb_acked (hd (take k rx))" if "take k rx \<noteq> []"
    using rx hd_in_set [OF that] by (meson in_set_takeD)
  with wf rx show ?thesis
    unfolding k queue_wf_def rx_parts_def
    by (auto simp: hd_append dest: in_set_takeD in_set_dropD)
qed

lemma PacketQueue_fill_take:
  assumes "queue_wf q"
  shows "take n (unacked_parts (PacketQueue_fill q n)) = take n (pending_parts q)"
proof (cases "pq_rx q")
  case None
  then show ?thesis by (simp add: PacketQueue_fill_def pending_parts_def rx_parts_def)
next
  case (Some rx)
  have "filter (\<lambda>p. \<not> pb_acked p) (take k rx) = take k rx" for k
    using assms Some by (auto simp: queue_wf_def rx_parts_def filter_id_conv dest: in_set_takeD)
  with Some show ?thesis
    by (simp add: PacketQueue_fill_def pending_parts_def unacked_parts_def rx_parts_def Let_def)
qed

lemma PacketQueue_unacked_items:
  assumes "queue_wf q"
  shows "fst (PacketQueue_unacked q n) = map PacketBuffer_deref (take n (pending_parts q))"
  using PacketQueue_fill_take [OF assms, of n]
  by (simp add: PacketQueue_unacked_def Let_def unacked_parts_def take_map)

section \<open>What a batch puts on the wire\<close>

definition part_wire :: "PacketBuffer \<Rightarrow> u8 list" where
  "part_wire b = the (PacketBuffer_deref b)"

context nonblocking
begin

text \<open>A batch sends a prefix of its items, in order; the count is the length of the prefix, and
  the prefix is everything unless the socket blocked or failed.\<close>

lemma send_items_prefix:
  assumes "whole_datagrams w" "unat c + length bufs < 65536"
  shows "\<exists>r w' k. send_items (map Some bufs) c send w = Some (r, w') \<and> same_env w w' \<and>
     ticks w' = ticks w \<and> k \<le> length bufs \<and> sent w' = sent w @ map (Pair peer) (take k bufs) \<and>
     (case r of
        Inl e \<Rightarrow> k < length bufs
      | Inr (n, all) \<Rightarrow> unat n = unat c + k \<and> (all \<longleftrightarrow> k = length bufs))"
  using assms
proof (induction bufs arbitrary: c w)
  case Nil
  then show ?case by simp
next
  case (Cons b bufs)
  obtain r w1 where s: "send b w = Some (r, w1)" "same_env w w1" "whole_datagrams w1"
    "sent w1 = (if r = Inr True then sent w @ [(peer, b)] else sent w)"
    using sendE [OF Cons.prems(1)] by metis
  have t: "ticks w1 = ticks w" using s(1) by (rule send_clock)
  show ?case
  proof (cases "r = Inr True")
    case False
    with s t show ?thesis by (cases r) (auto intro!: exI [of _ 0])
  next
    case True
    have add: "u16_add c 1 = Some (c + 1)" "unat (c + 1) = unat c + 1"
      using Cons.prems(2) by (auto simp: u16_add_def unat_word_ariths)
    obtain r2 w2 k where IH: "send_items (map Some bufs) (c + 1) send w1 = Some (r2, w2)"
      "same_env w1 w2" "ticks w2 = ticks w1" "k \<le> length bufs"
      "sent w2 = sent w1 @ map (Pair peer) (take k bufs)"
      "case r2 of Inl e \<Rightarrow> k < length bufs
        | Inr (n, all) \<Rightarrow> unat n = unat (c + 1) + k \<and> (all \<longleftrightarrow> k = length bufs)"
      using Cons.IH [OF s(3), of "c + 1"] Cons.prems(2) add(2) by auto
    show ?thesis
      using True s t add IH same_env_trans [OF s(2) IH(2)]
      by (intro exI [of _ r2] exI [of _ w2] exI [of _ "Suc k"]) (auto split: sum.splits)
  qed
qed

lemma send_unacked_prefix:
  assumes "whole_datagrams w" "queue_wf q"
  obtains r w' k where
    "PacketQueue_send_unacked q n send w = Some (r, PacketQueue_fill q (unat n), w')"
    "same_env w w'" "ticks w' = ticks w"
    "sent w' = sent w @ map (\<lambda>b. (peer, part_wire b)) (take k (pending_parts q))"
    "k \<le> unat n" "k \<le> length (pending_parts q)"
    "case r of
       Inl e \<Rightarrow> k < min (unat n) (length (pending_parts q))
     | Inr (c, all) \<Rightarrow> unat c = k \<and> (all \<longleftrightarrow> k = min (unat n) (length (pending_parts q)))"
proof -
  let ?ps = "take (unat n) (pending_parts q)" let ?bufs = "map part_wire ?ps"
  have "PacketBuffer_deref b = Some (part_wire b)" if "b \<in> set (pending_parts q)" for b
    using that assms(2)
    by (auto simp: part_wire_def queue_wf_def pending_parts_def unacked_parts_def)
  then have items: "fst (PacketQueue_unacked q (unat n)) = map Some ?bufs"
    using PacketQueue_unacked_items [OF assms(2)] by (auto dest: in_set_takeD)
  have snd: "snd (PacketQueue_unacked q (unat n)) = PacketQueue_fill q (unat n)"
    by (simp add: PacketQueue_unacked_def Let_def)
  have "unat (0 :: u16) + length ?bufs < 65536"
    using unat_u16_less [of n] by (simp add: min.strict_coboundedI2)
  then obtain r w' k where s: "send_items (map Some ?bufs) 0 send w = Some (r, w')" "same_env w w'"
     "ticks w' = ticks w" "k \<le> length ?bufs" "sent w' = sent w @ map (Pair peer) (take k ?bufs)"
     "case r of Inl e \<Rightarrow> k < length ?bufs
      | Inr (c, all) \<Rightarrow> unat c = unat (0 :: u16) + k \<and> (all \<longleftrightarrow> k = length ?bufs)"
    using send_items_prefix [OF assms(1)] by blast
  show ?thesis
  proof (rule that [of r w' k])
    show "PacketQueue_send_unacked q n send w = Some (r, PacketQueue_fill q (unat n), w')"
      using items snd s(1) by (simp add: PacketQueue_send_unacked_def split_def Let_def)
    show "sent w' = sent w @ map (\<lambda>b. (peer, part_wire b)) (take k (pending_parts q))"
      using s(4,5) by (simp add: take_map comp_def min_absorb1)
  qed (use s in \<open>auto simp: min.commute split: sum.splits\<close>)
qed

end

section \<open>Which part an acknowledgement marks\<close>

lemma deref_acked [simp]: "PacketBuffer_deref (b\<lparr>pb_acked := a\<rparr>) = PacketBuffer_deref b"
  by (simp add: PacketBuffer_deref_def)

lemma holds_acked [simp]: "holds (b\<lparr>pb_acked := a\<rparr>) k i s p = holds b k i s p"
  by (simp add: holds_def)

definition mark :: "nat \<Rightarrow> PacketBuffer list \<Rightarrow> PacketBuffer list" where
  "mark k ps = ps[k := (ps ! k)\<lparr>pb_acked := True\<rparr>]"

lemma ack_out_of_range:
  "length (pq_packets q) \<le> unat s \<Longrightarrow> PacketQueue_ack q s = (Inl (SeqIndexAckedBeforeSent s), q)"
  by (simp add: PacketQueue_ack_def Let_def)

lemma ack_duplicate:
  assumes "unat s < length (pq_packets q)" "pb_acked (pq_packets q ! unat s)"
  shows "PacketQueue_ack q s = (Inr True, q)"
proof -
  have "(pq_packets q ! unat s)\<lparr>pb_acked := True\<rparr> = pq_packets q ! unat s"
    using assms(2) by (cases "pq_packets q ! unat s") simp
  then have "(pq_packets q)[unat s := (pq_packets q ! unat s)\<lparr>pb_acked := True\<rparr>] = pq_packets q"
    by (metis list_update_id)
  with assms show ?thesis by (simp add: PacketQueue_ack_def Let_def)
qed

lemma ack_fresh:
  assumes "unat s < length (pq_packets q)" "\<not> pb_acked (pq_packets q ! unat s)"
  shows "PacketQueue_ack q s = (Inr False,
    q\<lparr>pq_packets := dropWhile pb_acked (mark (unat s) (pq_packets q)),
      pq_first_unacked := pq_first_unacked q
        + length (takeWhile pb_acked (mark (unat s) (pq_packets q)))\<rparr>)"
proof -
  have "(case position (\<lambda>p. \<not> pb_acked p) ps of
        None \<Rightarrow> length (pq_packets (q\<lparr>pq_packets := ps\<rparr>)) | Some z \<Rightarrow> z)
      = length (takeWhile pb_acked ps)" for ps
    using position_takeWhile [of ps "\<lambda>p. \<not> pb_acked p"]
    by (cases "position (\<lambda>p. \<not> pb_acked p) ps") simp_all
  with assms show ?thesis by (simp add: PacketQueue_ack_def Let_def mark_def)
qed

lemmas ack_cases = ack_out_of_range ack_duplicate ack_fresh

text \<open>The part numbers of the buffers that are not acked, for buffers numbered from \<open>off\<close>.\<close>

primrec open_seqs :: "nat \<Rightarrow> PacketBuffer list \<Rightarrow> nat set" where
  "open_seqs off [] = {}"
| "open_seqs off (p # ps) = (if pb_acked p then {} else {off}) \<union> open_seqs (Suc off) ps"

definition unacked_seqs :: "PacketQueue \<Rightarrow> nat set" where
  "unacked_seqs q = open_seqs (pq_first_unacked q) (pq_packets q)"

lemma mem_open_seqs:
  "x \<in> open_seqs off ps \<longleftrightarrow> off \<le> x \<and> x - off < length ps \<and> \<not> pb_acked (ps ! (x - off))"
proof (induction ps arbitrary: off)
  case Nil
  then show ?case by simp
next
  case (Cons p ps)
  show ?case
  proof (cases "x - off")
    case 0
    then show ?thesis by (auto simp: Cons.IH)
  next
    case (Suc n)
    then have "x - Suc off = n" by simp
    with Suc show ?thesis by (auto simp: Cons.IH)
  qed
qed

lemma open_seqs_dropWhile:
  "open_seqs (off + length (takeWhile pb_acked ps)) (dropWhile pb_acked ps) = open_seqs off ps"
  by (induction ps arbitrary: off) (simp_all, metis add_Suc)

lemma open_seqs_empty: "open_seqs off ps = {} \<longleftrightarrow> (\<forall>p \<in> set ps. pb_acked p)"
  by (induction ps arbitrary: off) auto

lemma open_seqs_mark:
  "k < length ps \<Longrightarrow> open_seqs off (mark k ps) = open_seqs off ps - {off + k}"
  by (auto simp: mem_open_seqs mark_def nth_list_update split: if_splits)

lemma unacked_seqs_ack:
  "unacked_seqs (snd (PacketQueue_ack q s)) = unacked_seqs q - {pq_first_unacked q + unat s}"
proof -
  consider (out) "length (pq_packets q) \<le> unat s"
    | (dup) "unat s < length (pq_packets q)" "pb_acked (pq_packets q ! unat s)"
    | (fresh) "unat s < length (pq_packets q)" "\<not> pb_acked (pq_packets q ! unat s)"
    by linarith
  then show ?thesis
  proof cases
    case fresh
    then show ?thesis
      by (simp add: ack_fresh unacked_seqs_def open_seqs_dropWhile open_seqs_mark)
  qed (auto simp: ack_cases unacked_seqs_def mem_open_seqs)
qed

lemma set_mark: "b \<in> set (mark k ps) \<Longrightarrow> \<exists>b' a. b' \<in> set ps \<and> b = b'\<lparr>pb_acked := a\<rparr>"
proof -
  assume "b \<in> set (mark k ps)"
  then obtain j where j: "j < length ps" "b = mark k ps ! j"
    by (auto simp: in_set_conv_nth mark_def)
  show ?thesis
  proof (cases "j = k")
    case True
    with j show ?thesis
      by (intro exI [of _ "ps ! k"] exI [of _ True]) (auto simp: mark_def)
  next
    case False
    with j show ?thesis
      by (intro exI [of _ b] exI [of _ "pb_acked b"]) (auto simp: mark_def)
  qed
qed

lemma PacketQueue_ack_wf [wf_intros]:
  assumes "queue_wf q" shows "queue_wf (snd (PacketQueue_ack q s))"
proof -
  consider (out) "length (pq_packets q) \<le> unat s"
    | (dup) "unat s < length (pq_packets q)" "pb_acked (pq_packets q ! unat s)"
    | (fresh) "unat s < length (pq_packets q)" "\<not> pb_acked (pq_packets q ! unat s)"
    by linarith
  then show ?thesis
  proof cases
    case fresh
    let ?ps = "mark (unat s) (pq_packets q)"
    have "PacketBuffer_deref b \<noteq> None" if "b \<in> set (dropWhile pb_acked ?ps)" for b
      using set_mark [OF set_dropWhileD [OF that]] assms by (auto simp: queue_wf_def)
    with fresh assms show ?thesis
      by (auto simp: ack_fresh queue_wf_def rx_parts_def hd_dropWhile)
  qed (use assms in \<open>simp_all add: ack_cases\<close>)
qed

text \<open>The number of parts the queue has seen does not change.\<close>

lemma PacketQueue_ack_total:
  "pq_first_unacked (snd (PacketQueue_ack q s)) + length (pq_packets (snd (PacketQueue_ack q s)))
     = pq_first_unacked q + length (pq_packets q)"
proof -
  let ?ps = "mark (unat s) (pq_packets q)"
  have "length (takeWhile pb_acked ?ps) + length (dropWhile pb_acked ?ps) = length (pq_packets q)"
    by (metis length_append length_list_update mark_def takeWhile_dropWhile_id)
  then show ?thesis
    by (cases "unat s < length (pq_packets q)"; cases "pb_acked (pq_packets q ! unat s)")
      (simp_all add: ack_cases)
qed

section \<open>Acknowledgements before and after the front moved\<close>

fun ack_all :: "SeqIndex list \<Rightarrow> PacketQueue \<Rightarrow> PacketQueue" where
  "ack_all [] q = q"
| "ack_all (s # ss) q = ack_all ss (snd (PacketQueue_ack q s))"

text \<open>As long as part 0 is open nothing is removed from the front, and an acknowledgement marks
  the part it names.\<close>

lemma ack_keeps_front:
  assumes "pq_packets q = p # ps" "\<not> pb_acked p" "pq_first_unacked q = 0" "s \<noteq> 0"
  shows "\<exists>ps'. pq_packets (snd (PacketQueue_ack q s)) = p # ps' \<and>
    pq_first_unacked (snd (PacketQueue_ack q s)) = 0 \<and>
    pq_rx (snd (PacketQueue_ack q s)) = pq_rx q"
proof -
  obtain k where k: "unat s = Suc k" using assms(4) by (metis not0_implies_Suc unat_eq_zero)
  then have "mark (unat s) (p # ps) = p # mark k ps" by (simp add: mark_def)
  with assms k show ?thesis
    by (cases "unat s < length (pq_packets q)"; cases "pb_acked (pq_packets q ! unat s)")
      (simp_all add: ack_cases)
qed

lemma ack_all_not_zero:
  assumes "pq_packets q = p # ps" "\<not> pb_acked p" "pq_first_unacked q = 0" "0 \<notin> set ss"
  shows "unacked_seqs (ack_all ss q) = unacked_seqs q - unat ` set ss \<and>
    pq_first_unacked (ack_all ss q) = 0 \<and> (\<exists>ps'. pq_packets (ack_all ss q) = p # ps')"
  using assms
proof (induction ss arbitrary: q ps)
  case Nil
  then show ?case by simp
next
  case (Cons s ss)
  from Cons.prems(4) have s: "s \<noteq> 0" "0 \<notin> set ss" by auto
  obtain ps' where q': "pq_packets (snd (PacketQueue_ack q s)) = p # ps'"
      "pq_first_unacked (snd (PacketQueue_ack q s)) = 0"
    using ack_keeps_front [OF Cons.prems(1-3) s(1)] by blast
  have "unacked_seqs (snd (PacketQueue_ack q s)) = unacked_seqs q - {unat s}"
    using Cons.prems(3) by (simp add: unacked_seqs_ack)
  moreover have "A - {x} - B = A - insert x B" for A B and x :: nat by blast
  ultimately show ?case
    using Cons.IH [OF q'(1) Cons.prems(2) q'(2) s(2)] by simp
qed

text \<open>Part 0 last: everything is then acked and the queue is empty.\<close>

lemma ack_all_zero_last:
  assumes "pq_packets q = p # ps" "\<not> pb_acked p" "pq_first_unacked q = 0" "0 \<notin> set ss"
    and "unacked_seqs q \<subseteq> insert 0 (unat ` set ss)"
  shows "pq_packets (ack_all (ss @ [0]) q) = []"
proof -
  have app: "ack_all (xs @ ys) q = ack_all ys (ack_all xs q)" for xs ys q
    by (induction xs arbitrary: q) simp_all
  let ?q = "ack_all ss q"
  obtain ps' where q: "unacked_seqs ?q \<subseteq> {0}" "pq_first_unacked ?q = 0" "pq_packets ?q = p # ps'"
    using ack_all_not_zero [OF assms(1-4)] assms(5) by auto
  have e: "snd (PacketQueue_ack ?q 0) = ?q
      \<lparr>pq_packets := dropWhile pb_acked (mark 0 (pq_packets ?q)),
       pq_first_unacked := 0 + length (takeWhile pb_acked (mark 0 (pq_packets ?q)))\<rparr>"
    using q(2,3) assms(2) by (simp add: ack_fresh)
  have "unacked_seqs (snd (PacketQueue_ack ?q 0)) = {}"
    using q(1,2) unacked_seqs_ack [of ?q 0] by auto
  then have "open_seqs 0 (mark 0 (pq_packets ?q)) = {}"
    unfolding e using open_seqs_dropWhile [of 0 "mark 0 (pq_packets ?q)"]
    by (simp add: unacked_seqs_def)
  then have "dropWhile pb_acked (mark 0 (pq_packets ?q)) = []"
    by (simp add: open_seqs_empty dropWhile_eq_Nil_conv)
  then show ?thesis using e by (simp add: app)
qed

text \<open>Once a part was removed from the front, the last part can no longer be acked by its own
  index: the lookup is off by the number of parts removed.\<close>

lemma ack_last_rejected:
  assumes "0 < pq_first_unacked q" "pq_first_unacked q + length (pq_packets q) = n" "n \<le> 2 ^ 32" "0 < n"
  shows "PacketQueue_ack q (of_nat (n - 1))
    = (Inl (SeqIndexAckedBeforeSent (of_nat (n - 1))), q)"
proof (rule ack_out_of_range)
  have "unat (of_nat (n - 1) :: u32) = n - 1"
    using assms(3,4) by (intro unat_u32_of_nat) simp
  then show "length (pq_packets q) \<le> unat (of_nat (n - 1) :: u32)"
    using assms(1,2) by linarith
qed

end
