(* ===== verification/Packet_Out.thy ===== *)
theory Packet_Out
  imports Packet_Queue
begin

text \<open>
  \<open>PacketOut\<close> of \<^verbatim>\<open>packet/send.rs\<close>: an outgoing packet with its resend timer, its count of missed
  acknowledgements and its batch size, which grows and shrinks with the acknowledgements of the
  last batch. Its statistic \<open>bytes_per_sec\<close> is in \<open>Stats\<close>.
\<close>

section \<open>The program\<close>

record PacketOut =
  po_packet_queue :: PacketQueue
  po_last_send :: "Instant option"
  po_missed_acks :: usize
  po_batch_size :: NonZeroBatchSize
  po_last_batch_size :: BatchSize
  po_last_batch_acks :: BatchSize

text \<open>\<open>u16.try_into().unwrap_or(NonZeroBatchSize::MIN)\<close>.\<close>

definition nonzero_or_min :: "u16 \<Rightarrow> NonZeroBatchSize" where
  "nonzero_or_min n = (if n = 0 then 1 else n)"

definition balance_batch_size ::
    "NonZeroBatchSize \<Rightarrow> BatchSize \<Rightarrow> BatchSize \<Rightarrow> NonZeroBatchSize" where
  "balance_batch_size old_batch_size last_batch_acks last_batch_size =
     (if last_batch_acks \<ge> last_batch_size
      then let doubled_last_batch_size = u16_saturating_mul last_batch_size 2
           in max old_batch_size (nonzero_or_min doubled_last_batch_size)
      else let halfed = old_batch_size div 2 in nonzero_or_min halfed)"

definition PacketOut_send ::
    "SerializedPacket \<Rightarrow> socket \<Rightarrow> NonZeroBatchSize \<Rightarrow> world
      \<Rightarrow> (PacketOut io_result \<times> world) option" where
  "PacketOut_send packet socket initial_batch_size w = do {
     let packet_queue = PacketQueue_new packet;
     (r, packet_queue, w) \<leftarrow> PacketQueue_send_unacked packet_queue initial_batch_size socket w;
     (case r of
        Inl error \<Rightarrow> Some (Inl error, w)
      | Inr (last_batch_size, all_sent) \<Rightarrow>
          let (last_send, w) =
                (if all_sent then let (t, w) = Instant_now w in (Some t, w) else (None, w))
          in Some (Inr \<lparr>po_packet_queue = packet_queue, po_last_send = last_send,
                        po_missed_acks = 0, po_batch_size = initial_batch_size,
                        po_last_batch_size = last_batch_size, po_last_batch_acks = 0\<rparr>, w))
   }"

definition PacketOut_ack ::
    "PacketOut \<Rightarrow> SeqIndex \<Rightarrow> (SeqIndexAckedBeforeSent + bool) \<times> PacketOut" where
  "PacketOut_ack self s =
     (let self = self\<lparr>po_missed_acks := 0\<rparr>;
          (r, queue) = PacketQueue_ack (po_packet_queue self) s;
          self = self\<lparr>po_packet_queue := queue\<rparr>
      in case r of
           Inl error \<Rightarrow> (Inl error, self)
         | Inr duplicate \<Rightarrow>
             if duplicate then (Inr True, self)
             else (Inr False,
                   self\<lparr>po_last_batch_acks := u16_saturating_add (po_last_batch_acks self) 1\<rparr>))"

definition PacketOut_send_pending ::
    "PacketOut \<Rightarrow> PacketId \<Rightarrow> Duration \<Rightarrow> socket \<Rightarrow> world
      \<Rightarrow> (bool io_result \<times> PacketOut \<times> world) option" where
  "PacketOut_send_pending self i resend_delay socket w =
     (case po_last_send self of
        None \<Rightarrow> do { (r, w) \<leftarrow> done_frame_send i socket w; Some (r, self, w) }
      | Some last_send \<Rightarrow> do {
          let (elapsed, w) = Instant_elapsed last_send w;
          if elapsed < resend_delay then Some (Inr False, self, w)
          else do {
            let self = self\<lparr>po_batch_size :=
              balance_batch_size (po_batch_size self) (po_last_batch_acks self)
                (po_last_batch_size self)\<rparr>;
            (r, queue, w) \<leftarrow>
              PacketQueue_send_unacked (po_packet_queue self) (po_batch_size self) socket w;
            let self = self\<lparr>po_packet_queue := queue\<rparr>;
            (case r of
               Inl error \<Rightarrow> Some (Inl error, self, w)
             | Inr (count, ok) \<Rightarrow>
                 if count = 0 \<and> ok
                 then do { (r, w) \<leftarrow> done_frame_send i socket w; Some (r, self, w) }
                 else do {
                   missed \<leftarrow> usize_add (po_missed_acks self)
                     (unat (u16_saturating_sub (po_last_batch_size self) (po_last_batch_acks self)));
                   let (now, w) = Instant_now w;
                   Some (Inr False,
                     self\<lparr>po_missed_acks := missed, po_last_batch_size := count,
                          po_last_batch_acks := 0, po_last_send := Some now\<rparr>, w)
                 })
          }
        })"

definition PacketOut_cancel :: "PacketOut \<Rightarrow> PacketOut" where
  "PacketOut_cancel self = self\<lparr>po_last_send := None\<rparr>"

definition PacketOut_acked_bytes :: "PacketOut \<Rightarrow> usize" where
  "PacketOut_acked_bytes self = pq_first_unacked (po_packet_queue self) * PART_PACKET_PAYLOAD_SIZE"

definition PacketOut_missed_acks :: "PacketOut \<Rightarrow> usize" where
  "PacketOut_missed_acks self = po_missed_acks self"

definition PacketOut_batch_size :: "PacketOut \<Rightarrow> NonZeroBatchSize" where
  "PacketOut_batch_size self = po_batch_size self"

definition PacketOut_last_batch_bytes :: "PacketOut \<Rightarrow> usize" where
  "PacketOut_last_batch_bytes self = unat (po_last_batch_size self) * PART_PACKET_PAYLOAD_SIZE"

section \<open>Batch sizes\<close>

lemma unat_nonzero_or_min: "unat (nonzero_or_min n) = max 1 (unat n)"
  by (cases "n = 0") (auto simp: nonzero_or_min_def unat_gt_0 max_def Suc_leI)

lemma unat_balance_batch_size:
  "unat (balance_batch_size old acks lbs) =
     (if unat lbs \<le> unat acks then max (unat old) (max 1 (min (2 * unat lbs) 65535))
      else max 1 (unat old div 2))"
proof -
  have "unat (old div 2) = unat old div 2" by (simp add: unat_div)
  moreover have "unat (max a b) = max (unat a) (unat b)" for a b :: u16
    by (simp add: max_def word_le_nat_alt)
  ultimately show ?thesis
    by (simp add: balance_batch_size_def Let_def unat_nonzero_or_min unat_u16_saturating_mul
        word_le_nat_alt mult.commute)
qed

lemma balance_batch_size_nonzero: "balance_batch_size old acks lbs \<noteq> 0"
proof -
  have "0 < unat (balance_batch_size old acks lbs)"
    by (simp add: unat_balance_batch_size less_max_iff_disj)
  then show ?thesis by (metis less_irrefl unat_0)
qed

section \<open>Well-formedness\<close>

definition out_wf :: "PacketOut \<Rightarrow> bool" where
  "out_wf p \<longleftrightarrow> queue_wf (po_packet_queue p) \<and> po_batch_size p \<noteq> 0"

lemma PacketOut_ack_wf [wf_intros]: "out_wf p \<Longrightarrow> out_wf (snd (PacketOut_ack p s))"
  using PacketQueue_ack_wf [of "po_packet_queue p" s]
  by (auto simp: PacketOut_ack_def out_wf_def Let_def split: prod.splits sum.splits)

lemma PacketOut_cancel_wf [wf_intros]: "out_wf p \<Longrightarrow> out_wf (PacketOut_cancel p)"
  by (simp add: PacketOut_cancel_def out_wf_def)

section \<open>Sending and resending\<close>

text \<open>A cancelled packet, and one whose first batch was not taken completely, has no last send:
  the next \<open>send_pending\<close> sends \<open>Done\<close> and nothing else.\<close>

lemma send_pending_cancelled:
  assumes "po_last_send p = None"
  shows "PacketOut_send_pending p i d socket w
    = do { (r, w') \<leftarrow> socket (done_bytes i) w; Some (r, p, w') }"
  using assms by (simp add: PacketOut_send_pending_def done_frame_send_eq)

lemma send_pending_early:
  assumes "po_last_send p = Some t" "clock w (ticks w) - t < d"
  shows "PacketOut_send_pending p i d socket w = Some (Inr False, p, w\<lparr>ticks := Suc (ticks w)\<rparr>)"
  using assms by (simp add: PacketOut_send_pending_def Instant_elapsed_def Instant_now_def)

lemma send_pending_due_eq:
  assumes "po_last_send p = Some t" "\<not> clock w (ticks w) - t < d"
    and "PacketQueue_send_unacked (po_packet_queue p)
      (balance_batch_size (po_batch_size p) (po_last_batch_acks p) (po_last_batch_size p))
      socket (w\<lparr>ticks := Suc (ticks w)\<rparr>) = Some (r, q, w')"
  shows "PacketOut_send_pending p i d socket w =
    (let p' = p\<lparr>po_batch_size :=
            balance_batch_size (po_batch_size p) (po_last_batch_acks p) (po_last_batch_size p),
          po_packet_queue := q\<rparr>
     in case r of
          Inl e \<Rightarrow> Some (Inl e, p', w')
        | Inr (c, ok) \<Rightarrow>
            if c = 0 \<and> ok then do { (r, w) \<leftarrow> done_frame_send i socket w'; Some (r, p', w) }
            else do {
              m \<leftarrow> usize_add (po_missed_acks p)
                (unat (u16_saturating_sub (po_last_batch_size p) (po_last_batch_acks p)));
              Some (Inr False,
                p'\<lparr>po_missed_acks := m, po_last_batch_size := c, po_last_batch_acks := 0,
                   po_last_send := Some (clock w' (ticks w'))\<rparr>,
                w'\<lparr>ticks := Suc (ticks w')\<rparr>) })"
  using assms
  by (auto simp: PacketOut_send_pending_def Instant_elapsed_def Instant_now_def Let_def
      split: sum.splits)

text \<open>
  What a call of \<open>send_pending\<close> does, in every branch: it sends a prefix of the parts that are not
  acked, at most a batch of them, and \<open>Done\<close> only when it answers \<open>true\<close>, which it does only for a
  packet without a last send or without any part left to ack. No part is lost.
\<close>

definition resend_step ::
    "SocketAddr \<Rightarrow> PacketId \<Rightarrow> PacketOut \<Rightarrow> world \<Rightarrow> bool io_result \<Rightarrow> PacketOut \<Rightarrow> world \<Rightarrow> nat
      \<Rightarrow> bool" where
  "resend_step peer i p w r p' w' k \<longleftrightarrow>
     same_env w w' \<and> out_wf p' \<and>
     pending_parts (po_packet_queue p') = pending_parts (po_packet_queue p) \<and>
     po_missed_acks p' \<le> po_missed_acks p + 65535 \<and> k \<le> unat (po_batch_size p') \<and>
     sent w' = sent w @ map (\<lambda>b. (peer, part_wire b)) (take k (pending_parts (po_packet_queue p)))
       @ (if r = Inr True then [(peer, done_bytes i)] else []) \<and>
     (r = Inr True \<longrightarrow>
        po_last_send p = None \<and> k = 0 \<or> pending_parts (po_packet_queue p) = [])"

context nonblocking
begin

lemma done_total:
  assumes "whole_datagrams w"
  obtains r w' where "done_frame_send i send w = Some (r, w')" "same_env w w'"
    "sent w' = (if r = Inr True then sent w @ [(peer, done_bytes i)] else sent w)"
  using sendE [OF assms, of "done_bytes i"] by (metis done_frame_send_eq)

lemma PacketOut_send_total:
  assumes w: "whole_datagrams w"
    and p: "\<forall>b \<in> set (SerializedPacket_parts p). \<not> pb_acked b \<and> PacketBuffer_deref b \<noteq> None"
    and n: "n \<noteq> 0"
  obtains r w' k where "PacketOut_send p send n w = Some (r, w')" "same_env w w'"
    "sent w' = sent w @ map (\<lambda>b. (peer, part_wire b)) (take k (SerializedPacket_parts p))"
    "k \<le> unat n"
    "case r of
       Inl e \<Rightarrow> k < length (SerializedPacket_parts p)
     | Inr out \<Rightarrow> out_wf out \<and> pending_parts (po_packet_queue out) = SerializedPacket_parts p \<and>
         po_missed_acks out = 0 \<and> unat (po_last_batch_size out) = k \<and>
         (po_last_send out = None \<longleftrightarrow> k < min (unat n) (length (SerializedPacket_parts p)))"
proof -
  let ?q = "PacketQueue_new p"
  have wf: "queue_wf ?q" using p by (rule PacketQueue_new_wf)
  have pend: "pending_parts ?q = SerializedPacket_parts p"
    using p by (intro PacketQueue_new_pending) auto
  obtain r w' k where s: "PacketQueue_send_unacked ?q n send w
      = Some (r, PacketQueue_fill ?q (unat n), w')"
    "same_env w w'"
    "sent w' = sent w @ map (\<lambda>b. (peer, part_wire b)) (take k (pending_parts ?q))"
    "k \<le> unat n" "k \<le> length (pending_parts ?q)"
    "case r of Inl e \<Rightarrow> k < min (unat n) (length (pending_parts ?q))
     | Inr (c, all) \<Rightarrow> unat c = k \<and> (all \<longleftrightarrow> k = min (unat n) (length (pending_parts ?q)))"
    by (rule send_unacked_prefix [OF w wf])
  have fwf: "queue_wf (PacketQueue_fill ?q (unat n))" using wf by (rule PacketQueue_fill_wf)
  show ?thesis
  proof (cases r)
    case (Inl e)
    with s pend show ?thesis
      by (intro that [of "Inl e" w' k]) (auto simp: PacketOut_send_def)
  next
    case (Inr ca)
    obtain c all where ca: "ca = (c, all)" by (cases ca)
    let ?last = "if all then Some (clock w' (ticks w')) else None"
    let ?w = "if all then w'\<lparr>ticks := Suc (ticks w')\<rparr> else w'"
    let ?out = "\<lparr>po_packet_queue = PacketQueue_fill ?q (unat n), po_last_send = ?last,
      po_missed_acks = 0, po_batch_size = n, po_last_batch_size = c, po_last_batch_acks = 0\<rparr>"
    have "PacketOut_send p send n w = Some (Inr ?out, ?w)"
      using s(1) Inr ca by (simp add: PacketOut_send_def Instant_now_def)
    moreover have "out_wf ?out" using fwf n by (simp add: out_wf_def)
    ultimately show ?thesis
      using s Inr ca pend PacketQueue_fill_pending [OF wf]
      by (intro that [of "Inr ?out" ?w k]) (auto simp: min_def)
  qed
qed

lemma send_pending_idle:
  assumes "whole_datagrams w" "out_wf p"
    and "\<And>t. po_last_send p = Some t \<Longrightarrow> clock w (ticks w) - t < d"
  shows "\<exists>r p' w' k. PacketOut_send_pending p i d send w = Some (r, p', w') \<and>
    resend_step peer i p w r p' w' k"
proof (cases "po_last_send p")
  case None
  obtain r w' where "done_frame_send i send w = Some (r, w')" "same_env w w'"
    "sent w' = (if r = Inr True then sent w @ [(peer, done_bytes i)] else sent w)"
    using done_total [OF assms(1)] .
  with None assms(2) show ?thesis
    by (intro exI [of _ r] exI [of _ p] exI [of _ w'] exI [of _ 0])
      (auto simp: PacketOut_send_pending_def resend_step_def)
next
  case (Some t)
  with assms show ?thesis
    by (intro exI [of _ "Inr False"] exI [of _ p] exI [of _ "w\<lparr>ticks := Suc (ticks w)\<rparr>"] exI [of _ 0])
      (auto simp: send_pending_early resend_step_def)
qed

lemma missed_acks_add:
  assumes "missed + 65535 < USIZE_LIMIT"
  shows "usize_add missed (unat (u16_saturating_sub n acks)) = Some (missed + unat (u16_saturating_sub n acks))"
    "unat (u16_saturating_sub n acks) \<le> 65535"
proof -
  show le: "unat (u16_saturating_sub n acks) \<le> 65535"
    using unat_u16_less [of "u16_saturating_sub n acks"] by linarith
  then show "usize_add missed (unat (u16_saturating_sub n acks)) = Some (missed + unat (u16_saturating_sub n acks))"
    using assms by (simp add: usize_add_def)
qed

lemma send_pending_due:
  assumes w: "whole_datagrams w" and p: "out_wf p"
    and m: "po_missed_acks p + 65535 < USIZE_LIMIT"
    and due: "po_last_send p = Some t" "\<not> clock w (ticks w) - t < d"
  shows "\<exists>r p' w' k. PacketOut_send_pending p i d send w = Some (r, p', w') \<and>
    resend_step peer i p w r p' w' k"
proof -
  let ?w = "w\<lparr>ticks := Suc (ticks w)\<rparr>" let ?q = "po_packet_queue p"
  let ?n = "balance_batch_size (po_batch_size p) (po_last_batch_acks p) (po_last_batch_size p)"
  let ?p = "p\<lparr>po_batch_size := ?n, po_packet_queue := PacketQueue_fill ?q (unat ?n)\<rparr>"
  have w1: "whole_datagrams ?w" using w by (simp add: whole_datagrams_def)
  have q: "queue_wf ?q" using p by (simp add: out_wf_def)
  obtain r w' k where s:
    "PacketQueue_send_unacked ?q ?n send ?w = Some (r, PacketQueue_fill ?q (unat ?n), w')"
    "same_env ?w w'" "ticks w' = ticks ?w"
    "sent w' = sent ?w @ map (\<lambda>b. (peer, part_wire b)) (take k (pending_parts ?q))"
    "k \<le> unat ?n" "k \<le> length (pending_parts ?q)"
    "case r of Inl e \<Rightarrow> k < min (unat ?n) (length (pending_parts ?q))
     | Inr (c, all) \<Rightarrow> unat c = k \<and> (all \<longleftrightarrow> k = min (unat ?n) (length (pending_parts ?q)))"
    using send_unacked_prefix [OF w1 q, of ?n] .
  have env: "same_env w w'" using s(2) by (simp add: same_env_def)
  have wf: "out_wf ?p"
    using PacketQueue_fill_wf [OF q] by (simp add: out_wf_def balance_batch_size_nonzero)
  note eq = send_pending_due_eq [OF due s(1), of i] and fill = PacketQueue_fill_pending [OF q]
  consider (error) e where "r = Inl e" | (all_acked) "r = Inr (0, True)"
    | (more) c ok where "r = Inr (c, ok)" "\<not> (c = 0 \<and> ok)"
    by (metis old.prod.exhaust sum.exhaust)
  then show ?thesis
  proof cases
    case error
    with wf env s(4,5) show ?thesis
      by (intro exI [of _ "Inl e"] exI [of _ ?p] exI [of _ w'] exI [of _ k])
        (simp add: eq fill resend_step_def)
  next
    case all_acked
    have "0 < unat ?n" using balance_batch_size_nonzero by (simp add: unat_gt_0)
    then have k: "k = 0" "pending_parts ?q = []"
      using s(7) all_acked by (auto simp: min_def split: if_splits)
    obtain r2 w2 where "done_frame_send i send w' = Some (r2, w2)" "same_env w' w2"
      "sent w2 = (if r2 = Inr True then sent w' @ [(peer, done_bytes i)] else sent w')"
      using done_total same_env_whole [OF env] w by metis
    with all_acked wf k s(4) same_env_trans [OF env] show ?thesis
      by (intro exI [of _ r2] exI [of _ ?p] exI [of _ w2] exI [of _ 0])
        (simp add: eq fill resend_step_def)
  next
    case more
    let ?m = "unat (u16_saturating_sub (po_last_batch_size p) (po_last_batch_acks p))"
    from more wf env s(4,5) missed_acks_add [OF m] show ?thesis
      by (intro exI [of _ "Inr False"]
          exI [of _ "?p\<lparr>po_missed_acks := po_missed_acks p + ?m, po_last_batch_size := c,
            po_last_batch_acks := 0, po_last_send := Some (clock w' (ticks w'))\<rparr>"]
          exI [of _ "w'\<lparr>ticks := Suc (ticks w')\<rparr>"] exI [of _ k])
        (auto simp: eq fill resend_step_def out_wf_def)
  qed
qed

lemma send_pending_spec:
  assumes "whole_datagrams w" "out_wf p" "po_missed_acks p + 65535 < USIZE_LIMIT"
  obtains r p' w' k where "PacketOut_send_pending p i d send w = Some (r, p', w')"
    "resend_step peer i p w r p' w' k"
  using send_pending_idle [OF assms(1,2)] send_pending_due [OF assms] by metis

end

end
