(* ===== verification/Frames.thy ===== *)
theory Frames
  imports Packet_Buffer
begin

text \<open>
  How the handlers of \<^verbatim>\<open>packet.rs\<close> take a datagram apart, on the frames the senders build: the
  slices for kind, id, sequence index and payload, and that decoding never panics on any bytes.
\<close>

lemma ack_frame_slices [simp]:
  "slice_get (ack_bytes i s) 1 17 = Some (PacketId_as_bytes i)"
  "slice_get (ack_bytes i s) 17 21 = Some (u32_to_le_bytes s)"
  "\<exists>bs. ack_bytes i s = PacketKind_into Kind_Ack # bs"
  by (simp_all add: slice_get_def ack_bytes_def)

lemma done_frame_slices [simp]:
  "slice_get (done_bytes i) 1 17 = Some (PacketId_as_bytes i)"
  "\<exists>bs. done_bytes i = PacketKind_into Kind_Done # bs"
  by (simp_all add: slice_get_def done_bytes_def)

lemma part_frame_slices [simp]:
  "slice_get (part_bytes k i s p) 1 17 = Some (PacketId_as_bytes i)"
  "slice_get (part_bytes k i s p) 17 21 = Some (u32_to_le_bytes s)"
  "slice_from (part_bytes k i s p) 21 = Some p"
  "\<exists>bs. part_bytes k i s p = PacketKind_into k # bs"
  by (simp_all add: slice_get_def slice_from_def part_bytes_def header_def)

text \<open>The decoding steps on arbitrary bytes: a slice of the right length always decodes.\<close>

lemma decode_id:
  assumes "slice_get buf 1 17 = Some bs"
  obtains i where "PacketId_from_slice bs = Some i"
  using slice_get_length [OF assms] PacketId_from_slice_length [of bs] by auto

lemma decode_seq_index:
  assumes "slice_get buf 17 21 = Some bs"
  obtains s where "u32_from_le_bytes bs = Some s"
proof -
  have "\<exists>s. u32_from_le_bytes bs = Some s" using slice_get_length [OF assms] by simp
  then show ?thesis using that by blast
qed

text \<open>The four control and part frames are pairwise different as byte strings.\<close>

lemma frame_kinds_differ:
  "ack_bytes i s \<noteq> done_bytes j"
  "part_bytes k i s p = part_bytes k' i' s' p' \<longleftrightarrow> k = k' \<and> i = i' \<and> s = s' \<and> p = p'"
proof -
  show "ack_bytes i s \<noteq> done_bytes j" 
    by (simp add: ack_bytes_def done_bytes_def PacketKind_into_def)
  have "PacketKind_into k = PacketKind_into k' \<longleftrightarrow> k = k'"
    by (metis PacketKind_roundtrip option.inject)
  moreover have "PacketId_as_bytes i = PacketId_as_bytes i' \<longleftrightarrow> i = i'"
    by (metis PacketId_roundtrip option.inject)
  moreover have "u32_to_le_bytes s = u32_to_le_bytes s' \<longleftrightarrow> s = s'"
    by (metis u32_le_roundtrip option.inject)
  ultimately show "part_bytes k i s p = part_bytes k' i' s' p'
      \<longleftrightarrow> k = k' \<and> i = i' \<and> s = s' \<and> p = p'"
    by (auto simp: part_bytes_def header_def)
qed

lemma deref_part_buffer [simp]:
  "length p \<le> 491 \<Longrightarrow> PacketBuffer_deref (part_buffer k i s p) = Some (part_bytes k i s p)"
  using deref_holds [OF holds_part_buffer] .

end
