(* ===== verification/BTree_Map.thy ===== *)
theory BTree_Map
  imports Prelude
begin

text \<open>
  \<open>std::collections::BTreeMap\<close>, as far as the crate uses it: an association list that is
  strictly sorted by its keys, so that \<open>retain\<close> visits the entries in key order. The
  contract is the locale \<open>key_map\<close>; the operations below are an instance of it.
\<close>

type_synonym ('k, 'v) btree = "('k \<times> 'v) list"

definition BTreeMap_get :: "('k, 'v) btree \<Rightarrow> 'k \<Rightarrow> 'v option" where
  "BTreeMap_get m k = map_of m k"

fun BTreeMap_insert :: "'k::linorder \<Rightarrow> 'v \<Rightarrow> ('k, 'v) btree \<Rightarrow> ('k, 'v) btree" where
  "BTreeMap_insert k v [] = [(k, v)]"
| "BTreeMap_insert k v ((k', v') # m) =
     (if k < k' then (k, v) # (k', v') # m
      else if k = k' then (k, v) # m
      else (k', v') # BTreeMap_insert k v m)"

definition BTreeMap_remove :: "'k \<Rightarrow> ('k, 'v) btree \<Rightarrow> ('k, 'v) btree" where
  "BTreeMap_remove k m = filter (\<lambda>(k', _). k' \<noteq> k) m"

text \<open>\<open>retain\<close> with a closure that may change the value, has a state of its own (what it
  captures by reference) and may panic.\<close>

fun BTreeMap_retain ::
    "('k \<Rightarrow> 'v \<Rightarrow> 's \<Rightarrow> (bool \<times> 'v \<times> 's) option) \<Rightarrow> ('k, 'v) btree \<Rightarrow> 's
      \<Rightarrow> (('k, 'v) btree \<times> 's) option" where
  "BTreeMap_retain f [] s = Some ([], s)"
| "BTreeMap_retain f ((k, v) # m) s = do {
     (keep, v', s') \<leftarrow> f k v s;
     (m', s'') \<leftarrow> BTreeMap_retain f m s';
     Some (if keep then (k, v') # m' else m', s'')
   }"

definition btree_invar :: "('k::linorder, 'v) btree \<Rightarrow> bool" where
  "btree_invar m \<longleftrightarrow> sorted_wrt (<) (map fst m)"

definition btree_all :: "('v \<Rightarrow> bool) \<Rightarrow> ('k, 'v) btree \<Rightarrow> bool" where
  "btree_all P m \<longleftrightarrow> (\<forall>(k, v) \<in> set m. P v)"

section \<open>The contract of a keyed map\<close>

locale key_map =
  fixes empty :: "'m" and get :: "'m \<Rightarrow> 'k \<Rightarrow> 'v option"
    and insert :: "'k \<Rightarrow> 'v \<Rightarrow> 'm \<Rightarrow> 'm" and remove :: "'k \<Rightarrow> 'm \<Rightarrow> 'm"
    and invar :: "'m \<Rightarrow> bool"
  assumes get_empty: "get empty k = None"
    and get_insert: "invar m \<Longrightarrow> get (insert k v m) k' = (if k' = k then Some v else get m k')"
    and get_remove: "invar m \<Longrightarrow> get (remove k m) k' = (if k' = k then None else get m k')"
    and invar_empty: "invar empty"
    and invar_insert: "invar m \<Longrightarrow> invar (insert k v m)"
    and invar_remove: "invar m \<Longrightarrow> invar (remove k m)"
begin

lemma get_insert_same: "invar m \<Longrightarrow> get (insert k v m) k = Some v"
  by (simp add: get_insert)

lemma get_insert_other: "invar m \<Longrightarrow> k' \<noteq> k \<Longrightarrow> get (insert k v m) k' = get m k'"
  by (simp add: get_insert)

lemma remove_insert_get:
  "invar m \<Longrightarrow> get m k = None \<Longrightarrow> get (remove k (insert k v m)) = get m"
  by (rule ext) (auto simp: get_remove get_insert invar_insert)

end

lemma set_BTreeMap_insert_fst:
  "set (map fst (BTreeMap_insert k v m)) = insert k (set (map fst m))"
  by (induction k v m rule: BTreeMap_insert.induct) auto

lemma set_BTreeMap_insertD: "x \<in> set (BTreeMap_insert k v m) \<Longrightarrow> x = (k, v) \<or> x \<in> set m"
  by (induction k v m rule: BTreeMap_insert.induct) (auto split: if_split_asm)

lemma map_of_BTreeMap_insert:
  "btree_invar m \<Longrightarrow> map_of (BTreeMap_insert k v m) = (map_of m)(k \<mapsto> v)"
proof (induction k v m rule: BTreeMap_insert.induct)
  case (1 k v)
  then show ?case by simp
next
  case (2 k v k' v' m)
  then show ?case by (auto simp: btree_invar_def fun_upd_twist)
qed

lemma btree_invar_insert: "btree_invar m \<Longrightarrow> btree_invar (BTreeMap_insert k v m)"
proof (induction k v m rule: BTreeMap_insert.induct)
  case (1 k v)
  then show ?case by (simp add: btree_invar_def)
next
  case (2 k v k' v' m)
  then show ?case
    using set_BTreeMap_insert_fst [of k v m]
    by (auto simp: btree_invar_def)
qed

lemma btree_invar_remove: "btree_invar m \<Longrightarrow> btree_invar (BTreeMap_remove k m)"
  by (induction m) (auto simp: btree_invar_def BTreeMap_remove_def)

lemma map_of_BTreeMap_remove: "map_of (BTreeMap_remove k m) k' = (if k' = k then None else map_of m k')"
  by (induction m) (auto simp: BTreeMap_remove_def)

interpretation btree: key_map "[]" BTreeMap_get BTreeMap_insert BTreeMap_remove btree_invar
  by unfold_locales
    (simp_all add: BTreeMap_get_def map_of_BTreeMap_insert map_of_BTreeMap_remove
      btree_invar_insert btree_invar_remove, simp add: btree_invar_def)

section \<open>Predicates on all values, and retain\<close>

lemma btree_all_Nil [simp]: "btree_all P []"
  by (simp add: btree_all_def)

lemma btree_all_Cons [simp]: "btree_all P ((k, v) # m) \<longleftrightarrow> P v \<and> btree_all P m"
  by (simp add: btree_all_def)

lemma btree_all_get: "btree_all P m \<Longrightarrow> BTreeMap_get m k = Some v \<Longrightarrow> P v"
  by (auto simp: btree_all_def BTreeMap_get_def dest: map_of_SomeD)

lemma btree_all_insert [wf_intros]: "btree_all P m \<Longrightarrow> P v \<Longrightarrow> btree_all P (BTreeMap_insert k v m)"
  by (induction k v m rule: BTreeMap_insert.induct) auto

lemma btree_all_remove [wf_intros]: "btree_all P m \<Longrightarrow> btree_all P (BTreeMap_remove k m)"
  by (auto simp: btree_all_def BTreeMap_remove_def)

lemma BTreeMap_retain_keys:
  assumes "BTreeMap_retain f m s = Some (m', s')"
  shows "set (map fst m') \<subseteq> set (map fst m)"
  using assms
proof (induction f m s arbitrary: m' s' rule: BTreeMap_retain.induct)
  case (1 f s)
  then show ?case by simp
next
  case (2 f k v m s)
  from "2.prems" obtain keep v' s1 m1 where
    f: "f k v s = Some (keep, v', s1)" and
    r: "BTreeMap_retain f m s1 = Some (m1, s')" and
    m': "m' = (if keep then (k, v') # m1 else m1)"
    by (auto simp: bind_eq_Some_conv)
  from "2.IH" [OF f _ _ r] show ?case by (auto simp: m')
qed

lemma BTreeMap_retain_invar [wf_intros]:
  assumes "BTreeMap_retain f m s = Some (m', s')" "btree_invar m"
  shows "btree_invar m'"
  using assms
proof (induction f m s arbitrary: m' s' rule: BTreeMap_retain.induct)
  case (1 f s)
  then show ?case by simp
next
  case (2 f k v m s)
  from "2.prems" obtain keep v' s1 m1 where
    f: "f k v s = Some (keep, v', s1)" and
    r: "BTreeMap_retain f m s1 = Some (m1, s')" and
    m': "m' = (if keep then (k, v') # m1 else m1)"
    by (auto simp: bind_eq_Some_conv)
  from "2.IH" [OF f _ _ r] "2.prems" have "btree_invar m1"
    by (auto simp: btree_invar_def)
  moreover have "\<forall>x \<in> set m1. k < fst x"
  proof
    fix x assume "x \<in> set m1"
    with BTreeMap_retain_keys [OF r] have "fst x \<in> set (map fst m)" by auto
    with "2.prems"(2) show "k < fst x" by (auto simp: btree_invar_def)
  qed
  ultimately show ?case
    by (simp add: m' btree_invar_def)
qed

text \<open>\<open>retain\<close> does not panic where the closure does not, given an invariant of its state.\<close>

lemma BTreeMap_retain_total:
  assumes step: "\<And>k v s. P v \<Longrightarrow> I s \<Longrightarrow> \<exists>keep v' s'. f k v s = Some (keep, v', s') \<and> P v' \<and> I s'"
    and "btree_all P m" "I s"
  shows "\<exists>m' s'. BTreeMap_retain f m s = Some (m', s') \<and> btree_all P m' \<and> I s'"
  using assms(2,3)
proof (induction m arbitrary: s)
  case Nil
  then show ?case by simp
next
  case (Cons e m)
  obtain k v where e: "e = (k, v)" by (cases e)
  with Cons.prems step obtain keep v' s1 where
    f: "f k v s = Some (keep, v', s1)" "P v'" "I s1" by force
  with Cons e obtain m' s' where
    "BTreeMap_retain f m s1 = Some (m', s')" "btree_all P m'" "I s'" by force
  with e f show ?case by auto
qed

text \<open>A closure that only looks at the value makes \<open>retain\<close> a filter.\<close>

lemma BTreeMap_retain_pure:
  "BTreeMap_retain (\<lambda>k v s. Some (P v, v, s0)) m s0 = Some (filter (\<lambda>(k, v). P v) m, s0)"
  by (induction m) auto

lemma btree_invar_filter [wf_intros]: "btree_invar m \<Longrightarrow> btree_invar (filter P m)"
  by (induction m) (auto simp: btree_invar_def)

lemma btree_all_filter [wf_intros]: "btree_all Q m \<Longrightarrow> btree_all Q (filter P m)"
  by (auto simp: btree_all_def)

end
