(* ===== verification/Send_Buffer.thy ===== *)
theory Send_Buffer
  imports Packet_Out Frames BTree_Map
begin

text \<open>
  \<open>SendPacketBuffer\<close> of \<^verbatim>\<open>packet.rs\<close>: the outgoing packets that are not fully acked, by id. A
  value to send is the list of byte slices that its \<open>rkyv::Serialize\<close> implementation writes.
  The statistics are in \<open>Stats\<close>.
\<close>

section \<open>The program\<close>

record SendPacketBuffer =
  sb_batch_size :: NonZeroBatchSize
  sb_packets :: "(PacketId, PacketOut) btree"

datatype SentPacketHandling = SentAck bool | SentUnhandled

definition SendPacketBuffer_new :: "NonZeroBatchSize \<Rightarrow> SendPacketBuffer" where
  "SendPacketBuffer_new initial_batch_size = \<lparr>sb_batch_size = initial_batch_size, sb_packets = []\<rparr>"

definition SendPacketBuffer_ack ::
    "SendPacketBuffer \<Rightarrow> PacketId \<Rightarrow> SeqIndex
      \<Rightarrow> (PacketAckErrorKind + bool) \<times> SendPacketBuffer" where
  "SendPacketBuffer_ack self i seq_index =
     (case BTreeMap_get (sb_packets self) i of
        None \<Rightarrow> (Inl InvalidPacketId, self)
      | Some packet \<Rightarrow>
          let (r, packet) = PacketOut_ack packet seq_index;
              self = self\<lparr>sb_packets := BTreeMap_insert i packet (sb_packets self)\<rparr>
          in case r of
               Inl error \<Rightarrow> (Inl (AckSeqIndexAckedBeforeSent error), self)
             | Inr duplicate \<Rightarrow> (Inr duplicate, self))"

definition SendPacketBuffer_handle ::
    "SendPacketBuffer \<Rightarrow> u8 list
      \<Rightarrow> ((HandlePacketError + SentPacketHandling) \<times> SendPacketBuffer) option" where
  "SendPacketBuffer_handle self buf =
     (case buf of
        [] \<Rightarrow> Some (Inl HandleEmpty, self)
      | kind # _ \<Rightarrow>
          (case PacketKind_try_from kind of
             Some Kind_Ack \<Rightarrow>
               let id_start = size_of_PacketKind;
                   id_end = id_start + size_of_PacketId;
                   seq_index_end = id_end + size_of_SeqIndex
               in (case slice_get buf id_start id_end of
                     None \<Rightarrow> Some (Inl HandleMalformed, self)
                   | Some id_bytes \<Rightarrow> do {
                       i \<leftarrow> PacketId_from_slice id_bytes;
                       (case slice_get buf id_end seq_index_end of
                          None \<Rightarrow> Some (Inl HandleMalformed, self)
                        | Some seq_bytes \<Rightarrow> do {
                            seq_index \<leftarrow> u32_from_le_bytes seq_bytes;
                            let (r, self) = SendPacketBuffer_ack self i seq_index;
                            (case r of
                               Inl kind \<Rightarrow> Some (Inl (HandleAck (PacketAckError i kind)), self)
                             | Inr duplicate \<Rightarrow> Some (Inr (SentAck duplicate), self))
                          })
                     })
           | _ \<Rightarrow> Some (Inr SentUnhandled, self)))"

definition SendPacketBuffer_send ::
    "SendPacketBuffer \<Rightarrow> u8 list list \<Rightarrow> usize \<Rightarrow> socket \<Rightarrow> world
      \<Rightarrow> (PacketId io_result \<times> SendPacketBuffer \<times> world) option" where
  "SendPacketBuffer_send self packet background_serialization_threshold socket w = do {
     let (i, w) = PacketId_new w;
     serialized \<leftarrow> serialize_packet i background_serialization_threshold packet;
     (r, w) \<leftarrow> PacketOut_send serialized socket (sb_batch_size self) w;
     (case r of
        Inl error \<Rightarrow> Some (Inl error, self, w)
      | Inr out \<Rightarrow>
          Some (Inr i, self\<lparr>sb_packets := BTreeMap_insert i out (sb_packets self)\<rparr>, w))
   }"

text \<open>The closure given to \<open>retain\<close>, with the variables it captures: the sum of the batch sizes,
  the number of packets, the result and the environment.\<close>

type_synonym send_pending_state = "usize \<times> usize \<times> unit io_result \<times> world"

fun send_pending_closure ::
    "Duration \<Rightarrow> socket \<Rightarrow> PacketId \<Rightarrow> PacketOut \<Rightarrow> send_pending_state
      \<Rightarrow> (bool \<times> PacketOut \<times> send_pending_state) option" where
  "send_pending_closure resend_delay socket i packet (batch_size, count, result, w) = do {
     let batch_size = usize_saturating_add batch_size (unat (PacketOut_batch_size packet));
     count \<leftarrow> usize_add count 1;
     (case result of
        Inl e \<Rightarrow> Some (True, packet, (batch_size, count, Inl e, w))
      | Inr _ \<Rightarrow> do {
          (r, packet, w) \<leftarrow> PacketOut_send_pending packet i resend_delay socket w;
          (case r of
             Inr is_done \<Rightarrow> Some (\<not> is_done, packet, (batch_size, count, result, w))
           | Inl error \<Rightarrow> Some (True, packet, (batch_size, count, Inl error, w)))
        })
   }"

definition SendPacketBuffer_send_pending ::
    "SendPacketBuffer \<Rightarrow> Duration \<Rightarrow> socket \<Rightarrow> world
      \<Rightarrow> (unit io_result \<times> SendPacketBuffer \<times> world) option" where
  "SendPacketBuffer_send_pending self resend_delay socket w = do {
     (packets, batch_size, count, result, w) \<leftarrow>
       BTreeMap_retain (send_pending_closure resend_delay socket) (sb_packets self)
         (0, 0, Inr (), w);
     let self = self\<lparr>sb_packets := packets\<rparr>;
     let self =
       (if count \<noteq> 0
        then let batch_size =
                   (case u16_try_from (batch_size div count) of None \<Rightarrow> - 1 | Some n \<Rightarrow> n)
             in self\<lparr>sb_batch_size := nonzero_or_min batch_size\<rparr>
        else self);
     Some (result, self, w)
   }"

definition SendPacketBuffer_timeout_packets :: "SendPacketBuffer \<Rightarrow> usize \<Rightarrow> SendPacketBuffer option" where
  "SendPacketBuffer_timeout_packets self max_missed_acks = do {
     (packets, _) \<leftarrow> BTreeMap_retain
       (\<lambda>_ packet s. Some (PacketOut_missed_acks packet \<le> max_missed_acks, packet, s))
       (sb_packets self) ();
     Some (self\<lparr>sb_packets := packets\<rparr>)
   }"

section \<open>Well-formedness\<close>

definition send_wf :: "SendPacketBuffer \<Rightarrow> bool" where
  "send_wf sb \<longleftrightarrow>
     btree_invar (sb_packets sb) \<and> btree_all out_wf (sb_packets sb) \<and> sb_batch_size sb \<noteq> 0"

lemma SendPacketBuffer_new_wf [wf_intros]: "n \<noteq> 0 \<Longrightarrow> send_wf (SendPacketBuffer_new n)"
  by (simp add: send_wf_def SendPacketBuffer_new_def btree.invar_empty)

lemma SendPacketBuffer_ack_wf [wf_intros]:
  assumes "send_wf sb" shows "send_wf (snd (SendPacketBuffer_ack sb i s))"
proof (cases "BTreeMap_get (sb_packets sb) i")
  case None
  with assms show ?thesis by (simp add: SendPacketBuffer_ack_def)
next
  case (Some p)
  with assms have "out_wf (snd (PacketOut_ack p s))"
    by (intro PacketOut_ack_wf) (auto simp: send_wf_def dest: btree_all_get)
  with Some assms show ?thesis
    by (auto simp: SendPacketBuffer_ack_def send_wf_def Let_def split_def
        intro: btree.invar_insert btree_all_insert split: sum.splits)
qed

section \<open>Acknowledgements\<close>

text \<open>An acknowledgement only touches the packet it names.\<close>

lemma SendPacketBuffer_ack_get:
  assumes "send_wf sb"
  shows "BTreeMap_get (sb_packets (snd (SendPacketBuffer_ack sb i s))) j =
    (if j = i then map_option (\<lambda>p. snd (PacketOut_ack p s)) (BTreeMap_get (sb_packets sb) i)
     else BTreeMap_get (sb_packets sb) j)"
  using assms
  by (auto simp: SendPacketBuffer_ack_def send_wf_def Let_def split_def btree.get_insert
      split: option.splits sum.splits)

text \<open>Handling an incoming datagram never panics, whatever the bytes.\<close>

lemma SendPacketBuffer_handle_total: "\<exists>r sb'. SendPacketBuffer_handle sb buf = Some (r, sb')"
proof -
  consider (skip) "buf = [] \<or> PacketKind_try_from (hd buf) \<noteq> Some Kind_Ack"
    | (short) "buf \<noteq> []" "PacketKind_try_from (hd buf) = Some Kind_Ack" "slice_get buf 1 17 = None"
    | (id) ib where "buf \<noteq> []" "PacketKind_try_from (hd buf) = Some Kind_Ack"
        "slice_get buf 1 17 = Some ib"
    by blast
  then show ?thesis
  proof cases
    case skip
    then show ?thesis
      by (auto simp: SendPacketBuffer_handle_def split: list.splits option.splits PacketKind.splits)
  next
    case short
    then show ?thesis
      by (auto simp: SendPacketBuffer_handle_def neq_Nil_conv)
  next
    case id
    then obtain i where i: "PacketId_from_slice ib = Some i" using decode_id by blast
    show ?thesis
    proof (cases "slice_get buf 17 21")
      case None
      with id i show ?thesis by (auto simp: SendPacketBuffer_handle_def neq_Nil_conv)
    next
      case (Some sb)
      then obtain s where "u32_from_le_bytes sb = Some s" using decode_seq_index by blast
      with id i Some show ?thesis
        by (auto simp: SendPacketBuffer_handle_def neq_Nil_conv Let_def split_def split: sum.splits)
    qed
  qed
qed

lemma SendPacketBuffer_handle_ack:
  "SendPacketBuffer_handle sb (ack_bytes i s) =
     Some (case SendPacketBuffer_ack sb i s of
       (Inl kind, sb') \<Rightarrow> (Inl (HandleAck (PacketAckError i kind)), sb')
     | (Inr duplicate, sb') \<Rightarrow> (Inr (SentAck duplicate), sb'))"
proof -
  obtain bs where "ack_bytes i s = PacketKind_into Kind_Ack # bs" using ack_frame_slices(3) by blast
  then show ?thesis
    using ack_frame_slices(1,2) [of i s]
    by (auto simp: SendPacketBuffer_handle_def Let_def split: prod.splits sum.splits)
qed

lemma SendPacketBuffer_handle_wf [wf_intros]:
  assumes "send_wf sb" "SendPacketBuffer_handle sb buf = Some (r, sb')"
  shows "send_wf sb'"
proof -
  have "sb' = sb \<or> (\<exists>i s. sb' = snd (SendPacketBuffer_ack sb i s))"
    using assms(2)
    by (auto simp: SendPacketBuffer_handle_def Let_def bind_eq_Some_conv split_def
        split: list.split_asm option.split_asm PacketKind.split_asm sum.split_asm)
      (metis sum.exhaust)
  with assms(1) SendPacketBuffer_ack_wf show ?thesis by auto
qed

section \<open>Sending\<close>

lemma part_list_sendable:
  "\<forall>b \<in> set (part_list i bs). \<not> pb_acked b \<and> PacketBuffer_deref b \<noteq> None"
proof
  fix b assume "b \<in> set (part_list i bs)"
  then obtain j where "j < length (chunks bs)" "b = part_list i bs ! j"
    by (metis in_set_conv_nth length_part_list)
  then show "\<not> pb_acked b \<and> PacketBuffer_deref b \<noteq> None"
    by (cases "j = length (chunks bs) - 1") (simp_all add: nth_part_list nth_chunks)
qed

context nonblocking
begin

text \<open>Sending a packet puts at most a batch of its first parts on the wire and, unless the
  socket fails, remembers all of its parts under the new id.\<close>

lemma SendPacketBuffer_send_total:
  assumes "whole_datagrams w" "send_wf sb" "length (concat ws) \<le> 491 * 2 ^ 32"
  obtains r sb' w' k where
    "SendPacketBuffer_send sb ws t send w = Some (r, sb', w')" "same_env w w'" "send_wf sb'"
    "k \<le> unat (sb_batch_size sb)"
    "sent w' = sent w @ map (\<lambda>b. (peer, part_wire b))
       (take k (part_list (fst (PacketId_new w)) (concat ws)))"
    "case r of
       Inl e \<Rightarrow> sb' = sb
     | Inr i \<Rightarrow> i = fst (PacketId_new w) \<and>
         (\<exists>out. sb' = sb\<lparr>sb_packets := BTreeMap_insert i out (sb_packets sb)\<rparr> \<and> out_wf out \<and>
            pending_parts (po_packet_queue out) = part_list i (concat ws) \<and>
            po_missed_acks out = 0 \<and>
            (po_last_send out = None
               \<longleftrightarrow> k < min (unat (sb_batch_size sb)) (length (chunks (concat ws)))))"
proof -
  obtain i w1 where i: "PacketId_new w = (i, w1)" by (cases "PacketId_new w")
  then have w1: "w1 = w\<lparr>uuids_drawn := Suc (uuids_drawn w)\<rparr>"
    by (auto simp: PacketId_new_def Uuid_new_v4_def)
  obtain p where p: "serialize_packet i t ws = Some p"
    "SerializedPacket_parts p = part_list i (concat ws)"
    using serialize_packet_parts [OF assms(3)] .
  have n: "sb_batch_size sb \<noteq> 0" using assms(2) by (simp add: send_wf_def)
  have ww: "whole_datagrams w1" using assms(1) w1 by (simp add: whole_datagrams_def)
  have ok: "\<forall>b \<in> set (SerializedPacket_parts p). \<not> pb_acked b \<and> PacketBuffer_deref b \<noteq> None"
    using part_list_sendable by (simp add: p(2))
  obtain r w' k where s: "PacketOut_send p send (sb_batch_size sb) w1 = Some (r, w')"
    "same_env w1 w'"
    "sent w' = sent w1 @ map (\<lambda>b. (peer, part_wire b)) (take k (part_list i (concat ws)))"
    "k \<le> unat (sb_batch_size sb)"
    "case r of Inl e \<Rightarrow> k < length (part_list i (concat ws))
     | Inr out \<Rightarrow> out_wf out \<and> pending_parts (po_packet_queue out) = part_list i (concat ws) \<and>
         po_missed_acks out = 0 \<and> unat (po_last_batch_size out) = k \<and>
         (po_last_send out = None
            \<longleftrightarrow> k < min (unat (sb_batch_size sb)) (length (part_list i (concat ws))))"
    using PacketOut_send_total [OF ww ok n, unfolded p(2)] .
  have env: "same_env w w'" using s(2) w1 by (simp add: same_env_def)
  show ?thesis
  proof (cases r)
    case (Inl e)
    with s env i w1 p(1) assms(2) show ?thesis
      by (intro that [of "Inl e" sb w' k]) (simp_all add: SendPacketBuffer_send_def)
  next
    case (Inr out)
    let ?sb = "sb\<lparr>sb_packets := BTreeMap_insert i out (sb_packets sb)\<rparr>"
    have "send_wf ?sb"
      using assms(2) s(5) Inr
      by (simp add: send_wf_def btree.invar_insert btree_all_insert)
    with Inr s env i w1 p(1) show ?thesis
      by (intro that [of "Inr i" ?sb w' k])
        (simp_all add: SendPacketBuffer_send_def, intro exI [of _ out], simp)
  qed
qed

end

section \<open>Resending\<close>

definition resendable :: "PacketOut \<Rightarrow> bool" where
  "resendable p \<longleftrightarrow> out_wf p \<and> po_missed_acks p + 65535 < USIZE_LIMIT"

text \<open>
  One round of \<open>send_pending\<close> over the packets \<open>m\<close>, which leaves \<open>m'\<close> and sends \<open>log\<close>: a packet
  that stays has the same parts left to ack, a packet that goes was cancelled or has none left
  and its \<open>Done\<close> was sent, and only parts of these packets and \<open>Done\<close> frames are sent.
\<close>

type_synonym packets_out = "(PacketId, PacketOut) btree"

definition parts_kept :: "packets_out \<Rightarrow> packets_out \<Rightarrow> bool" where
  "parts_kept m m' \<longleftrightarrow> (\<forall>i p'. (i, p') \<in> set m' \<longrightarrow> (\<exists>p. (i, p) \<in> set m \<and>
     pending_parts (po_packet_queue p') = pending_parts (po_packet_queue p)))"

definition gone_done ::
    "SocketAddr \<Rightarrow> packets_out \<Rightarrow> packets_out \<Rightarrow> (SocketAddr \<times> u8 list) list \<Rightarrow> bool" where
  "gone_done peer m m' log \<longleftrightarrow> (\<forall>i p. (i, p) \<in> set m \<longrightarrow> i \<in> fst ` set m' \<or>
     (po_last_send p = None \<or> pending_parts (po_packet_queue p) = []) \<and>
     (peer, done_bytes i) \<in> set log)"

definition frames_of :: "PacketId \<Rightarrow> PacketOut \<Rightarrow> u8 list set" where
  "frames_of i p = insert (done_bytes i) (part_wire ` set (pending_parts (po_packet_queue p)))"

definition log_own :: "SocketAddr \<Rightarrow> packets_out \<Rightarrow> (SocketAddr \<times> u8 list) list \<Rightarrow> bool" where
  "log_own peer m log \<longleftrightarrow> set log \<subseteq> {peer} \<times> (\<Union>(i, p) \<in> set m. frames_of i p)"

definition resend_round ::
    "SocketAddr \<Rightarrow> packets_out \<Rightarrow> packets_out \<Rightarrow> (SocketAddr \<times> u8 list) list \<Rightarrow> bool" where
  "resend_round peer m m' log \<longleftrightarrow> parts_kept m m' \<and> gone_done peer m m' log \<and> log_own peer m log"

lemma resend_round_Nil [simp]: "resend_round peer [] [] []"
  by (simp add: resend_round_def parts_kept_def gone_done_def log_own_def)

lemma parts_kept_Cons:
  assumes "parts_kept m m'"
    and "pending_parts (po_packet_queue p') = pending_parts (po_packet_queue p)"
  shows "parts_kept ((i, p) # m) ((i, p') # m')" "parts_kept ((i, p) # m) m'"
  using assms by (auto simp: parts_kept_def)

lemma gone_done_keep:
  assumes "gone_done peer m m' log"
  shows "gone_done peer ((i, p) # m) ((i, p') # m') (log' @ log)"
  using assms by (auto simp: gone_done_def)

lemma gone_done_drop:
  assumes "gone_done peer m m' log" "(peer, done_bytes i) \<in> set log'"
    and "po_last_send p = None \<or> pending_parts (po_packet_queue p) = []"
  shows "gone_done peer ((i, p) # m) m' (log' @ log)"
  using assms by (auto simp: gone_done_def)

lemma log_own_Cons:
  assumes "log_own peer m log" "set log' \<subseteq> {peer} \<times> frames_of i p"
  shows "log_own peer ((i, p) # m) (log' @ log)"
  using assms by (auto simp: log_own_def)

lemma resend_round_skip:
  assumes "resend_round peer m m' log"
  shows "resend_round peer ((i, p) # m) ((i, p) # m') log"
  using assms parts_kept_Cons(1) [of m m' p p] gone_done_keep [of peer m m' log i p p "[]"]
    log_own_Cons [of peer m log "[]"]
  by (simp add: resend_round_def)

lemma resend_round_step:
  assumes "resend_round peer m m' log" "resend_step peer i p w r p' w' k"
  shows "resend_round peer ((i, p) # m) (if r = Inr True then m' else (i, p') # m')
    ((map (\<lambda>b. (peer, part_wire b)) (take k (pending_parts (po_packet_queue p)))
      @ (if r = Inr True then [(peer, done_bytes i)] else [])) @ log)"
    (is "resend_round peer _ _ (?log @ log)")
proof -
  have own: "set ?log \<subseteq> {peer} \<times> frames_of i p"
    by (auto simp: frames_of_def dest: in_set_takeD)
  have step: "pending_parts (po_packet_queue p') = pending_parts (po_packet_queue p)"
    "r = Inr True \<Longrightarrow> po_last_send p = None \<or> pending_parts (po_packet_queue p) = []"
    using assms(2) by (auto simp: resend_step_def)
  have "log_own peer ((i, p) # m) (?log @ log)"
    using assms(1) own by (intro log_own_Cons) (simp_all add: resend_round_def)
  moreover have "parts_kept ((i, p) # m) (if r = Inr True then m' else (i, p') # m')"
    using assms(1) parts_kept_Cons step(1) by (simp add: resend_round_def)
  moreover have "gone_done peer ((i, p) # m) (if r = Inr True then m' else (i, p') # m') (?log @ log)"
    using assms(1) step(2) gone_done_keep [of peer m m' log i p p' ?log]
      gone_done_drop [of peer m m' log i ?log p]
    by (cases "r = Inr True") (simp_all add: resend_round_def)
  ultimately show ?thesis by (simp only: resend_round_def)
qed

definition batch_sum :: "(PacketId, PacketOut) btree \<Rightarrow> nat" where
  "batch_sum m = sum_list (map (\<lambda>(i, p). unat (po_batch_size p)) m)"

lemma batch_average: "m \<noteq> [] \<Longrightarrow> batch_sum m div length m < 2 ^ 16"
proof -
  assume "m \<noteq> []"
  have "batch_sum m \<le> 65535 * length m"
  proof (induction m)
    case (Cons e m)
    have "unat (po_batch_size (snd e)) \<le> 65535" 
      using unat_u16_less [of "po_batch_size (snd e)"] by linarith
    with Cons show ?case by (simp add: batch_sum_def split_def)
  qed (simp add: batch_sum_def)
  then have "batch_sum m div length m \<le> 65535 * length m div length m" by (rule div_le_mono)
  with \<open>m \<noteq> []\<close> show ?thesis by simp
qed

context nonblocking
begin

lemma send_pending_round:
  assumes "whole_datagrams w" "btree_all resendable m" "c + length m < USIZE_LIMIT"
  shows "\<exists>m' r' w' log.
    BTreeMap_retain (send_pending_closure d send) m (bs, c, r, w)
      = Some (m', (if m = [] then bs else min (bs + batch_sum m) (USIZE_LIMIT - 1)),
              c + length m, r', w') \<and>
    same_env w w' \<and> btree_all out_wf m' \<and> sent w' = sent w @ log \<and> resend_round peer m m' log"
  using assms
proof (induction m arbitrary: bs c r w)
  case Nil
  then show ?case by (auto intro!: exI [of _ "[]"])
next
  case (Cons e m)
  obtain i p where e: "e = (i, p)" by (cases e)
  have p: "out_wf p" "po_missed_acks p + 65535 < USIZE_LIMIT" and m: "btree_all resendable m"
    and c: "Suc c + length m < USIZE_LIMIT"
    using Cons.prems by (auto simp: e resendable_def btree_all_def)
  then have add: "usize_add c 1 = Some (Suc c)" by (simp add: usize_add_def)
  let ?bs = "usize_saturating_add bs (unat (po_batch_size p))"
  have total: "(if m = [] then ?bs else min (?bs + batch_sum m) (USIZE_LIMIT - 1))
      = min (bs + batch_sum (e # m)) (USIZE_LIMIT - 1)"
    by (auto simp: usize_saturating_add_def batch_sum_def e)
  show ?case
  proof (cases r)
    case (Inl x)
    obtain m' r' w' log where IH:
      "BTreeMap_retain (send_pending_closure d send) m (?bs, Suc c, Inl x, w)
        = Some (m', (if m = [] then ?bs else min (?bs + batch_sum m) (USIZE_LIMIT - 1)),
            Suc c + length m, r', w')"
      "same_env w w'" "btree_all out_wf m'" "sent w' = sent w @ log" "resend_round peer m m' log"
      using Cons.IH [OF Cons.prems(1) m c] by blast
    show ?thesis
      using IH(2-4) p(1) resend_round_skip [OF IH(5), of i p] IH(1) [unfolded total] add Inl
      by (intro exI [of _ "(i, p) # m'"] exI [of _ r'] exI [of _ w'] exI [of _ log])
        (simp add: e PacketOut_batch_size_def)
  next
    case (Inr u)
    obtain r1 p' w1 k where s: "PacketOut_send_pending p i d send w = Some (r1, p', w1)"
      "resend_step peer i p w r1 p' w1 k"
      using send_pending_spec [OF Cons.prems(1) p] .
    have s': "same_env w w1" "out_wf p'" "sent w1 = sent w
        @ map (\<lambda>b. (peer, part_wire b)) (take k (pending_parts (po_packet_queue p)))
        @ (if r1 = Inr True then [(peer, done_bytes i)] else [])"
      using s(2) by (simp_all add: resend_step_def)
    have w1: "whole_datagrams w1" using same_env_whole [OF s'(1)] Cons.prems(1) by simp
    let ?r = "case r1 of Inl x \<Rightarrow> Inl x | Inr b \<Rightarrow> Inr ()"
    obtain m' r' w' log where IH:
      "BTreeMap_retain (send_pending_closure d send) m (?bs, Suc c, ?r, w1)
        = Some (m', (if m = [] then ?bs else min (?bs + batch_sum m) (USIZE_LIMIT - 1)),
            Suc c + length m, r', w')"
      "same_env w1 w'" "btree_all out_wf m'" "sent w' = sent w1 @ log" "resend_round peer m m' log"
      using Cons.IH [OF w1 m c] by blast
    show ?thesis
      using IH(3) s' same_env_trans [OF s'(1) IH(2)] IH(4) IH(1) [unfolded total]
        resend_round_step [OF IH(5) s(2)] add s(1) Inr
      by (intro exI [of _ "if r1 = Inr True then m' else (i, p') # m'"] exI [of _ r'] exI [of _ w']
          exI [of _ "(map (\<lambda>b. (peer, part_wire b)) (take k (pending_parts (po_packet_queue p)))
            @ (if r1 = Inr True then [(peer, done_bytes i)] else [])) @ log"])
        (cases r1; simp add: e PacketOut_batch_size_def)
  qed
qed

text \<open>
  A round of resending never panics, keeps the buffer well-formed and leaves every packet that is
  not finished in it; the batch size for new packets becomes the average over all packets.
\<close>

lemma SendPacketBuffer_send_pending_total:
  assumes "whole_datagrams w" "send_wf sb" "btree_all resendable (sb_packets sb)"
    "length (sb_packets sb) < USIZE_LIMIT"
  obtains r sb' w' log where
    "SendPacketBuffer_send_pending sb d send w = Some (r, sb', w')" "same_env w w'" "send_wf sb'"
    "sent w' = sent w @ log" "resend_round peer (sb_packets sb) (sb_packets sb') log"
    "unat (sb_batch_size sb') =
       (if sb_packets sb = [] then unat (sb_batch_size sb)
        else max 1 (min (batch_sum (sb_packets sb)) (USIZE_LIMIT - 1) div length (sb_packets sb)))"
proof -
  let ?m = "sb_packets sb"
  let ?sum = "if ?m = [] then 0 else min (0 + batch_sum ?m) (USIZE_LIMIT - 1)"
  obtain m' r w' log where s:
    "BTreeMap_retain (send_pending_closure d send) ?m (0, 0, Inr (), w)
      = Some (m', ?sum, 0 + length ?m, r, w')"
    "same_env w w'" "btree_all out_wf m'" "sent w' = sent w @ log" "resend_round peer ?m m' log"
    using send_pending_round [OF assms(1,3), of 0 d 0 "Inr ()"] assms(4) by auto
  have inv: "btree_invar m'"
    using BTreeMap_retain_invar [OF s(1)] assms(2) by (simp add: send_wf_def)
  let ?n = "?sum div length ?m"
  let ?sb = "sb\<lparr>sb_packets := m', sb_batch_size :=
    (if ?m = [] then sb_batch_size sb
     else nonzero_or_min (case u16_try_from ?n of None \<Rightarrow> - 1 | Some n \<Rightarrow> n))\<rparr>"
  have run: "SendPacketBuffer_send_pending sb d send w = Some (r, ?sb, w')"
    using s(1) by (cases "?m = []") (auto simp: SendPacketBuffer_send_pending_def Let_def)
  have size: "unat (sb_batch_size ?sb) =
      (if ?m = [] then unat (sb_batch_size sb) else max 1 (min (batch_sum ?m) (USIZE_LIMIT - 1) div length ?m))"
  proof (cases "?m = []")
    case False
    have "?sum div length ?m \<le> batch_sum ?m div length ?m" by (simp add: div_le_mono)
    then have "?n < 2 ^ 16" using batch_average [OF False] by simp
    then have "u16_try_from ?n = Some (of_nat ?n)" "unat (of_nat ?n :: u16) = ?n"
      by (simp_all add: u16_try_from_def unat_of_nat)
    with False show ?thesis by (simp add: unat_nonzero_or_min)
  qed simp
  have "sb_batch_size ?sb \<noteq> 0"
    using assms(2) by (auto simp: send_wf_def nonzero_or_min_def)
  with inv s(3) have "send_wf ?sb" by (simp add: send_wf_def)
  with run s size show ?thesis by (intro that [of r ?sb w' log]) (simp_all del: One_nat_def)
qed

end

section \<open>Timeouts\<close>

lemma SendPacketBuffer_timeout_packets_eq:
  "SendPacketBuffer_timeout_packets sb n =
     Some (sb\<lparr>sb_packets := filter (\<lambda>(i, p). po_missed_acks p \<le> n) (sb_packets sb)\<rparr>)"
  by (simp add: SendPacketBuffer_timeout_packets_def PacketOut_missed_acks_def
      BTreeMap_retain_pure [of "\<lambda>p. po_missed_acks p \<le> n"])

lemma SendPacketBuffer_timeout_packets_wf [wf_intros]:
  assumes "send_wf sb" "SendPacketBuffer_timeout_packets sb n = Some sb'"
  shows "send_wf sb'"
  using assms by (auto simp: SendPacketBuffer_timeout_packets_eq send_wf_def intro: wf_intros)

end
