(* ===== verification/Reassemble.thy ===== *)
theory Reassemble
  imports Serialize_Spec
begin

text \<open>
  \<open>ReassembledPacket\<close> of \<^verbatim>\<open>packet/receive.rs\<close>: parts arrive in any order, a bit vector records
  which chunks are there, whole groups of 256 leading chunks are dropped from it, and the
  payload grows as needed.

  The specification is a set: \<open>reassembling bs S st\<close> says that \<open>st\<close> has received exactly the
  chunks with index in \<open>S\<close> of the packet with payload \<open>bs\<close>. \<open>receive_step\<close> is the simulation:
  a part adds its index to the set, a known index is a duplicate, and the part that completes
  the set delivers \<open>bs\<close>. The index subtraction at the start is checked, as in the source; a
  part below \<open>first_pending\<close> makes it panic.
\<close>

section \<open>The program\<close>

datatype ReceivedPacket = Pending | Duplicate | Reassembled "u8 list"

record ReassembledPacket =
  rp_payload :: "u8 list"
  rp_received_chunks :: "bool list"
  rp_first_pending :: SeqIndex
  rp_received_count :: SeqIndex
  rp_max_index :: "SeqIndex option"

definition ReassembledPacket_new :: ReassembledPacket where
  "ReassembledPacket_new =
     \<lparr>rp_payload = [], rp_received_chunks = [], rp_first_pending = 0, rp_received_count = 0,
      rp_max_index = None\<rparr>"

definition ReassembledPacket_receive ::
    "ReassembledPacket \<Rightarrow> bool \<Rightarrow> SeqIndex \<Rightarrow> u8 list
      \<Rightarrow> (ReceivedPacket \<times> ReassembledPacket) option" where
  "ReassembledPacket_receive self is_last seq_index payload = do {
     let self = (if is_last then self\<lparr>rp_max_index := Some seq_index\<rparr> else self);
     let chunk_index = unat seq_index;
     chunk_index_with_offset \<leftarrow> usize_sub chunk_index (unat (rp_first_pending self));
     let chunks0 = rp_received_chunks self;
     let chunks1 =
       (if chunk_index_with_offset \<ge> length chunks0
        then vec_resize chunks0 (chunk_index_with_offset + 1) False else chunks0);
     let replaced = chunks1 ! chunk_index_with_offset;
     let chunks2 = chunks1[chunk_index_with_offset := True];
     let self = self\<lparr>rp_received_chunks := chunks2\<rparr>;
     if replaced then Some (Duplicate, self)
     else do {
       let first_pending =
         (case position Not chunks2 of None \<Rightarrow> length chunks2 | Some z \<Rightarrow> z);
       let byte_boundary = first_pending div 256 * 256;
       let self = self\<lparr>rp_received_chunks := drop byte_boundary chunks2\<rparr>;
       boundary \<leftarrow> u32_try_from byte_boundary;
       pending \<leftarrow> u32_add (rp_first_pending self) boundary;
       let self = self\<lparr>rp_first_pending := pending\<rparr>;
       let payload_start = PART_PACKET_PAYLOAD_SIZE * chunk_index;
       let payload_end = payload_start + length payload;
       let buf =
         (if payload_end > length (rp_payload self)
          then vec_resize (rp_payload self) payload_end 0 else rp_payload self);
       buf \<leftarrow> copy_into buf payload_start payload_end payload;
       let self = self\<lparr>rp_payload := buf\<rparr>;
       if Some (rp_received_count self) = rp_max_index self
       then Some (Reassembled (rp_payload self), self)
       else do {
         count \<leftarrow> u32_add (rp_received_count self) 1;
         Some (Pending, self\<lparr>rp_received_count := count\<rparr>)
       }
     }
   }"

section \<open>The window of received chunks\<close>

text \<open>The chunks in a bit vector that starts at index \<open>fp\<close>, everything before it received.\<close>

definition window :: "nat \<Rightarrow> bool list \<Rightarrow> nat set" where
  "window fp cs = {..<fp} \<union> {fp + j | j. j < length cs \<and> cs ! j}"

lemma mem_window: "i \<in> window fp cs \<longleftrightarrow> i < fp \<or> (i - fp < length cs \<and> cs ! (i - fp))"
  by (auto simp: window_def) (metis add_diff_inverse_nat)

lemma finite_window [simp]: "finite (window fp cs)"
proof -
  have "window fp cs \<subseteq> {..<fp + length cs}" by (auto simp: window_def)
  then show ?thesis by (rule finite_subset) simp
qed

lemma window_Nil [simp]: "window 0 [] = {}"
  by (simp add: window_def)

lemma window_grow: "window fp (vec_resize cs n False) = window fp cs" if "length cs \<le> n"
  using that by (auto simp: window_def vec_resize_grow nth_append)
    (metis diff_less_mono leI nth_replicate)

lemma window_set:
  assumes "j < length cs" shows "window fp (cs[j := True]) = insert (fp + j) (window fp cs)"
  using assms by (auto simp: window_def nth_list_update)

lemma takeWhile_id_nth: "j < length (takeWhile id cs) \<Longrightarrow> cs ! j"
  by (metis id_apply nth_mem set_takeWhileD takeWhile_nth)

lemma window_drop:
  assumes "b \<le> length (takeWhile id cs)"
  shows "window (fp + b) (drop b cs) = window fp cs"
proof -
  have "b \<le> length cs" using assms length_takeWhile_le le_trans by blast
  moreover have "cs ! j" if "j < b" for j
    using that assms by (intro takeWhile_id_nth) simp
  ultimately show ?thesis
    by (auto simp: mem_window set_eq_iff not_less) (metis add_diff_inverse_nat diff_diff_left
      le_add_diff_inverse less_diff_conv2 linorder_not_less nat_le_linear nth_drop)+
qed

lemma window_mark:
  assumes "fp \<le> idx" and off: "off = idx - fp"
    and c1: "c1 = (if off \<ge> length cs then vec_resize cs (off + 1) False else cs)"
  shows "off < length c1" "c1 ! off \<longleftrightarrow> idx \<in> window fp cs"
    "window fp (c1[off := True]) = insert idx (window fp cs)"
    "c1 ! off \<Longrightarrow> c1[off := True] = cs"
proof -
  show l: "off < length c1" using c1 by auto
  have w: "window fp c1 = window fp cs" using c1 by (simp add: window_grow)
  show m: "c1 ! off \<longleftrightarrow> idx \<in> window fp cs"
    using w l off assms(1) by (metis leD mem_window)
  show "window fp (c1[off := True]) = insert idx (window fp cs)"
    using w l off assms(1) by (simp add: window_set)
  assume "c1 ! off"
  with m have "off < length cs" using off assms(1) by (auto simp: mem_window)
  with c1 \<open>c1 ! off\<close> show "c1[off := True] = cs" by (simp add: list_update_same_conv)
qed

lemma takeWhile_drop:
  "b \<le> length (takeWhile P xs) \<Longrightarrow> takeWhile P (drop b xs) = drop b (takeWhile P xs)"
proof (induction b arbitrary: xs)
  case 0
  then show ?case by simp
next
  case (Suc b)
  then show ?case by (cases xs) (auto split: if_splits)
qed

lemma window_trim:
  assumes "b = length (takeWhile id cs) div 256 * 256"
  shows "window (fp + b) (drop b cs) = window fp cs"
    "length (takeWhile id (drop b cs)) < 256" "{..<fp + b} \<subseteq> window fp cs"
proof -
  have b: "b \<le> length (takeWhile id cs)" using assms by simp
  show w: "window (fp + b) (drop b cs) = window fp cs" using b by (rule window_drop)
  have "length (takeWhile id (drop b cs)) = length (takeWhile id cs) mod 256"
    using b assms by (simp add: takeWhile_drop minus_div_mult_eq_mod)
  then show "length (takeWhile id (drop b cs)) < 256" by simp
  show "{..<fp + b} \<subseteq> window fp cs" unfolding w [symmetric] by (auto simp: mem_window)
qed

lemma position_Not: "(case position Not cs of None \<Rightarrow> length cs | Some z \<Rightarrow> z) = length (takeWhile id cs)"
  using position_takeWhile [of cs Not] by (simp add: id_def)

section \<open>The payload buffer\<close>

definition payload_has :: "u8 list \<Rightarrow> nat set \<Rightarrow> u8 list \<Rightarrow> bool" where
  "payload_has bs S pl \<longleftrightarrow> length pl \<le> length bs \<and>
     (\<forall>k < length bs. k div 491 \<in> S \<longrightarrow> k < length pl \<and> pl ! k = bs ! k)"

lemma payload_has_Nil [simp]: "payload_has bs {} []"
  by (simp add: payload_has_def)

lemma payload_has_all: "payload_has bs {..<length (chunks bs)} pl \<Longrightarrow> pl = bs"
proof -
  assume h: "payload_has bs {..<length (chunks bs)} pl"
  have "k div 491 < length (chunks bs)" if "k < length bs" for k
  proof -
    have "k div 491 \<le> (length bs - 1) div 491" using that by (intro div_le_mono) simp
    also have "\<dots> < (length bs + 490) div 491" using that by simp
    finally show ?thesis using that by (auto simp: length_chunks part_count_def)
  qed
  with h have *: "\<forall>k < length bs. k < length pl \<and> pl ! k = bs ! k"
    by (simp add: payload_has_def)
  then have "length bs \<le> length pl" by (meson leI less_irrefl)
  with h * show "pl = bs" by (intro nth_equalityI) (auto simp: payload_has_def)
qed

lemma chunk_start_le: "idx < length (chunks bs) \<Longrightarrow> 491 * idx \<le> length bs"
proof -
  assume "idx < length (chunks bs)"
  then have "idx = 0 \<or> Suc idx \<le> (length bs + 490) div 491"
    by (auto simp: length_chunks part_count_def split: if_splits)
  then show ?thesis
    by (auto simp: less_eq_div_iff_mult_less_eq)
qed

lemma payload_write:
  assumes "payload_has bs S pl" "idx < length (chunks bs)"
    and e: "e = 491 * idx + length (chunks bs ! idx)"
    and g: "buf = (if e > length pl then vec_resize pl e 0 else pl)"
  obtains buf' where "copy_into buf (491 * idx) e (chunks bs ! idx) = Some buf'"
    "payload_has bs (insert idx S) buf'"
proof -
  let ?c = "chunks bs ! idx"
  have c: "?c = take 491 (drop (491 * idx) bs)" using assms(2) by (rule nth_chunks)
  have e_le: "e \<le> length buf" "length buf \<le> length bs" "e \<le> length bs"
    using assms(1) chunk_start_le [OF assms(2)] e g by (auto simp: payload_has_def c)
  let ?buf = "take (491 * idx) buf @ ?c @ drop e buf"
  have len: "length ?buf = length buf" using e e_le by simp
  have old: "k < length buf \<and> buf ! k = bs ! k" if "k < length bs" "k div 491 \<in> S" for k
    using assms(1) that e_le(1) by (auto simp: payload_has_def g vec_resize_grow nth_append)
  have new: "?buf ! k = bs ! k" if "491 * idx \<le> k" "k < e" for k
  proof -
    have "?c ! (k - 491 * idx) = bs ! k" "k - 491 * idx < length ?c"
      using that by (auto simp: e c)
    then show ?thesis using that e_le by (simp add: nth_append)
  qed
  have keep: "?buf ! k = buf ! k" if "k < 491 * idx \<or> e \<le> k" "k < length buf" for k
    using that e_le e by (auto simp: nth_append)
  have range: "491 * idx \<le> k \<and> k < e" if "k div 491 = idx" "k < length bs" for k
    using that unfolding e c by (auto simp: min_def)
  have "payload_has bs (insert idx S) ?buf"
    unfolding payload_has_def len
  proof (intro conjI allI impI)
    fix k assume k: "k < length bs" "k div 491 \<in> insert idx S"
    show "k < length buf" using k range [of k] old [of k] e_le by auto
    then show "?buf ! k = bs ! k"
      using k range [of k] old [of k] new [of k] keep [of k] by (cases "491 * idx \<le> k \<and> k < e") auto
  qed (use e_le in simp)
  moreover have "copy_into buf (491 * idx) e ?c = Some ?buf"
    using e e_le by (simp add: copy_into_def)
  ultimately show ?thesis using that by blast
qed

section \<open>Simulation\<close>

definition reassembling :: "u8 list \<Rightarrow> nat set \<Rightarrow> ReassembledPacket \<Rightarrow> bool" where
  "reassembling bs S st \<longleftrightarrow>
     (let n = length (chunks bs) in
      S \<subseteq> {..<n} \<and>
      window (unat (rp_first_pending st)) (rp_received_chunks st) = S \<and>
      length (takeWhile id (rp_received_chunks st)) < 256 \<and>
      unat (rp_first_pending st) mod 256 = 0 \<and>
      unat (rp_received_count st) = min (card S) (n - 1) \<and>
      rp_max_index st = (if n - 1 \<in> S then Some (of_nat (n - 1)) else None) \<and>
      payload_has bs S (rp_payload st))"

definition deliver :: "u8 list \<Rightarrow> nat \<Rightarrow> ReassembledPacket \<Rightarrow> (ReceivedPacket \<times> ReassembledPacket) option" where
  "deliver bs idx st =
     ReassembledPacket_receive st (idx = length (chunks bs) - 1) (of_nat idx) (chunks bs ! idx)"

lemma reassembling_new: "reassembling bs {} ReassembledPacket_new"
  by (simp add: reassembling_def ReassembledPacket_new_def)

text \<open>A part whose chunk was already dropped from the window panics.\<close>

lemma receive_below_first_pending:
  "unat seq_index < unat (rp_first_pending st) \<Longrightarrow>
     ReassembledPacket_receive st is_last seq_index payload = None"
  by (simp add: ReassembledPacket_receive_def usize_sub_def Let_def)

text \<open>A duplicate changes nothing.\<close>

lemma receive_duplicate:
  assumes inv: "reassembling bs S st" and "idx \<in> S" "unat (rp_first_pending st) \<le> idx"
    and n: "length (chunks bs) < 2 ^ 32"
  shows "deliver bs idx st = Some (Duplicate, st)"
proof -
  let ?fp = "unat (rp_first_pending st)" and ?cs = "rp_received_chunks st"
  have idx: "idx < length (chunks bs)" "idx \<in> window ?fp ?cs"
    using inv assms(2) by (auto simp: reassembling_def Let_def)
  define off where "off = idx - ?fp"
  define c1 where "c1 = (if off \<ge> length ?cs then vec_resize ?cs (off + 1) False else ?cs)"
  note m = window_mark [OF assms(3) off_def c1_def]
  have "(if idx = length (chunks bs) - 1 then st\<lparr>rp_max_index := Some (of_nat idx)\<rparr> else st) = st"
    using inv assms(2) by (auto simp: reassembling_def Let_def)
  moreover have "unat (of_nat idx :: u32) = idx" using idx n by simp
  ultimately show ?thesis
    using m idx assms(3)
    by (simp add: deliver_def ReassembledPacket_receive_def usize_sub_def Let_def
        off_def [symmetric] c1_def [symmetric])
qed

lemma card_insert_full:
  assumes "S \<subseteq> {..<n}" "idx < n" "idx \<notin> S"
  shows "card S < n" "insert idx S = {..<n} \<longleftrightarrow> card S = n - 1"
proof -
  have fin: "finite S" using assms(1) finite_subset by blast
  have "card (insert idx S) \<le> n"
    using assms card_mono [of "{..<n}" "insert idx S"] by simp
  then show "card S < n" using fin assms(3) by simp
  have "insert idx S = {..<n} \<longleftrightarrow> card (insert idx S) = n"
  proof
    assume "card (insert idx S) = n"
    then show "insert idx S = {..<n}"
      using assms by (intro card_subset_eq) auto
  qed simp
  also have "card (insert idx S) = Suc (card S)" using fin assms(3) by simp
  also have "Suc (card S) = n \<longleftrightarrow> card S = n - 1" using assms(2) by arith
  finally show "insert idx S = {..<n} \<longleftrightarrow> card S = n - 1" .
qed

text \<open>The straight-line part of \<open>receive\<close> for a new chunk, every check of it passing.\<close>

lemma receive_unfold:
  assumes st: "st = \<lparr>rp_payload = pl, rp_received_chunks = cs, rp_first_pending = fp,
      rp_received_count = cnt, rp_max_index = mx\<rparr>"
    and s: "unat s = idx" and fp: "unat fp \<le> idx" and off: "off = idx - unat fp"
    and ca: "ca = (if off \<ge> length cs then vec_resize cs (off + 1) False else cs)"
    and new: "\<not> ca ! off" and cb: "cb = ca[off := True]"
    and b: "b = length (takeWhile id cb) div 256 * 256" "b < 2 ^ 32"
    and fp': "u32_add fp (of_nat b) = Some fp'"
    and e: "e = 491 * idx + length p"
    and buf: "copy_into (if e > length pl then vec_resize pl e 0 else pl) (491 * idx) e p = Some buf"
    and st': "st' = \<lparr>rp_payload = buf, rp_received_chunks = drop b cb, rp_first_pending = fp',
      rp_received_count = cnt, rp_max_index = if is_last then Some s else mx\<rparr>"
  shows "ReassembledPacket_receive st is_last s p =
      (if Some (rp_received_count st') = rp_max_index st' then Some (Reassembled buf, st')
       else do { count \<leftarrow> u32_add (rp_received_count st') 1;
                 Some (Pending, st'\<lparr>rp_received_count := count\<rparr>) })"
proof -
  have ca': "(if length cs \<le> off then vec_resize cs (Suc off) False else cs) = ca"
    using ca by simp
  have b': "u32_try_from b = Some (of_nat b)" using b(2) by (simp add: u32_try_from_def)
  show ?thesis
    using fp new unfolding st
    by (cases is_last)
      (simp_all add: ReassembledPacket_receive_def usize_sub_def position_Not Let_def s
        off [symmetric] ca' cb [symmetric] b(1) [symmetric] b' fp' e [symmetric] buf st'
        split del: if_split cong: if_cong)
qed

text \<open>What a new chunk stores, before the completion test.\<close>

definition chunk_stored :: "u8 list \<Rightarrow> nat set \<Rightarrow> ReassembledPacket \<Rightarrow> bool" where
  "chunk_stored bs S st \<longleftrightarrow>
     window (unat (rp_first_pending st)) (rp_received_chunks st) = S \<and>
     length (takeWhile id (rp_received_chunks st)) < 256 \<and>
     unat (rp_first_pending st) mod 256 = 0 \<and>
     rp_max_index st = (if length (chunks bs) - 1 \<in> S then Some (of_nat (length (chunks bs) - 1))
       else None) \<and>
     payload_has bs S (rp_payload st)"

lemma reassembling_stored:
  "reassembling bs S st \<longleftrightarrow> S \<subseteq> {..<length (chunks bs)} \<and> chunk_stored bs S st \<and>
     unat (rp_received_count st) = min (card S) (length (chunks bs) - 1)"
  by (auto simp: reassembling_def chunk_stored_def Let_def)

lemma receive_store:
  assumes inv: "reassembling bs S st" and "idx \<notin> S" "idx < length (chunks bs)"
    and n: "length (chunks bs) < 2 ^ 32"
  obtains st' where "chunk_stored bs (insert idx S) st'" "rp_received_count st' = rp_received_count st"
    "deliver bs idx st =
      (if Some (rp_received_count st') = rp_max_index st'
       then Some (Reassembled (rp_payload st'), st')
       else do { count \<leftarrow> u32_add (rp_received_count st') 1;
                 Some (Pending, st'\<lparr>rp_received_count := count\<rparr>) })"
proof -
  let ?n = "length (chunks bs)"
  let ?fp = "unat (rp_first_pending st)" and ?cs = "rp_received_chunks st"
  have S: "S \<subseteq> {..<?n}" "window ?fp ?cs = S" "payload_has bs S (rp_payload st)"
    and mx: "rp_max_index st = (if ?n - 1 \<in> S then Some (of_nat (?n - 1)) else None)"
    and fp0: "?fp mod 256 = 0"
    using inv by (auto simp: reassembling_def Let_def)
  have fp: "?fp \<le> idx" using S(2) assms(2) by (auto simp: mem_window not_less)
  define off where "off = idx - ?fp"
  define c1 where "c1 = (if off \<ge> length ?cs then vec_resize ?cs (off + 1) False else ?cs)"
  define c2 where "c2 = c1[off := True]"
  note m = window_mark [OF fp off_def c1_def, folded c2_def]
  define b where "b = length (takeWhile id c2) div 256 * 256"
  note t = window_trim [OF b_def]
  have bound: "?fp + b \<le> ?n"
    using t(3) [of ?fp] m(3) S(1,2) assms(3)
    by (metis insert_subset lessThan_iff lessThan_subset_iff subset_trans)
  define e where "e = 491 * idx + length (chunks bs ! idx)"
  obtain buf where buf: "copy_into (if e > length (rp_payload st)
      then vec_resize (rp_payload st) e 0 else rp_payload st) (491 * idx) e (chunks bs ! idx) = Some buf"
    "payload_has bs (insert idx S) buf"
    using payload_write [OF S(3) assms(3) e_def refl] by blast
  have u: "unat (of_nat idx :: u32) = idx" using assms(3) n by simp
  obtain fp' where fp': "u32_add (rp_first_pending st) (of_nat b) = Some fp'" "unat fp' = ?fp + b"
    using bound n by (auto simp: u32_add_def unat_word_ariths)
  define st1 where "st1 = \<lparr>rp_payload = buf, rp_received_chunks = drop b c2,
    rp_first_pending = fp', rp_received_count = rp_received_count st,
    rp_max_index = if idx = ?n - 1 then Some (of_nat idx) else rp_max_index st\<rparr>"
  have "deliver bs idx st =
      (if Some (rp_received_count st1) = rp_max_index st1 then Some (Reassembled buf, st1)
       else do { count \<leftarrow> u32_add (rp_received_count st1) 1;
                 Some (Pending, st1\<lparr>rp_received_count := count\<rparr>) })"
    unfolding deliver_def
    using m(2) assms(2) S(2) bound n
    by (intro receive_unfold [OF _ u fp off_def c1_def _ c2_def b_def _ fp'(1) e_def buf(1) st1_def])
      simp_all
  moreover have "chunk_stored bs (insert idx S) st1"
    using t(1,2) m(3) S(2) buf(2) fp'(2) mx fp0
    by (auto simp: chunk_stored_def st1_def b_def mod_add_left_eq [symmetric])
  ultimately show ?thesis
    using that [of st1] by (simp add: st1_def)
qed

text \<open>The count of a packet reaches the index of the last part exactly with the part that completes it.\<close>

lemma count_reaches_max:
  assumes st: "chunk_stored bs (insert idx S) st" and S: "S \<subseteq> {..<length (chunks bs)}"
    and idx: "idx \<notin> S" "idx < length (chunks bs)" and n: "length (chunks bs) < 2 ^ 32"
    and cnt: "unat (rp_received_count st) = card S"
  shows "Some (rp_received_count st) = rp_max_index st \<longleftrightarrow> insert idx S = {..<length (chunks bs)}"
proof -
  let ?n = "length (chunks bs)"
  note c = card_insert_full [OF S idx(2,1)]
  have mx: "rp_max_index st = (if ?n - 1 \<in> insert idx S then Some (of_nat (?n - 1)) else None)"
    using st unfolding chunk_stored_def by blast
  have last: "unat (of_nat (?n - 1) :: u32) = ?n - 1" using n by simp
  show ?thesis
  proof
    assume "insert idx S = {..<?n}"
    then have "unat (rp_received_count st) = ?n - 1" "?n - 1 \<in> insert idx S" using cnt c(2) idx(2) by auto
    then show "Some (rp_received_count st) = rp_max_index st" using mx last by (metis unsigned_word_eqI)
  next
    assume "Some (rp_received_count st) = rp_max_index st"
    then have "unat (rp_received_count st) = ?n - 1" using mx last by (metis option.distinct(1) option.inject)
    then show "insert idx S = {..<?n}" using cnt c(2) by metis
  qed
qed

lemma receive_fresh:
  assumes inv: "reassembling bs S st" and "idx \<notin> S" "idx < length (chunks bs)"
    and n: "length (chunks bs) < 2 ^ 32"
  obtains st' where "deliver bs idx st = Some
      (if insert idx S = {..<length (chunks bs)} then Reassembled bs else Pending, st')"
    "reassembling bs (insert idx S) st'"
proof -
  let ?n = "length (chunks bs)" and ?S = "insert idx S"
  have S: "S \<subseteq> {..<?n}" and cnt: "unat (rp_received_count st) = min (card S) (?n - 1)"
    using inv by (auto simp: reassembling_stored)
  note c = card_insert_full [OF S assms(3,2)]
  have fin: "finite S" using S finite_subset by blast
  have cnt': "unat (rp_received_count st) = card S" using cnt c(1) by simp
  obtain st1 where st1: "chunk_stored bs ?S st1" "rp_received_count st1 = rp_received_count st"
    and res: "deliver bs idx st =
      (if Some (rp_received_count st1) = rp_max_index st1
       then Some (Reassembled (rp_payload st1), st1)
       else do { count \<leftarrow> u32_add (rp_received_count st1) 1;
                 Some (Pending, st1\<lparr>rp_received_count := count\<rparr>) })"
    by (rule receive_store [OF assms])
  have inv1: "reassembling bs ?S (st1\<lparr>rp_received_count := k\<rparr>)"
    if "unat k = min (Suc (card S)) (?n - 1)" for k
    using that S assms(2,3) st1(1) fin by (simp add: reassembling_stored) (simp add: chunk_stored_def)
  have iff: "Some (rp_received_count st1) = rp_max_index st1 \<longleftrightarrow> ?S = {..<?n}"
    using count_reaches_max [OF st1(1) S assms(2,3) n] cnt' st1(2) by simp
  show ?thesis
  proof (cases "?S = {..<?n}")
    case True
    then have "rp_payload st1 = bs"
      using st1(1) payload_has_all by (simp add: chunk_stored_def)
    moreover have "unat (rp_received_count st1) = min (Suc (card S)) (?n - 1)"
      using st1(2) cnt' c(2) True by simp
    then have "reassembling bs ?S st1" using inv1 [of "rp_received_count st1"] by simp
    ultimately show ?thesis
      using that [of st1] res iff True by simp
  next
    case False
    obtain k where k: "u32_add (rp_received_count st1) 1 = Some k" "unat k = Suc (card S)"
      using c(1) n cnt' st1(2) by (auto simp: u32_add_def unat_word_ariths)
    have "card S \<noteq> ?n - 1" using c(2) False by metis
    then have "unat k = min (Suc (card S)) (?n - 1)" using c(1) k(2) by simp
    then show ?thesis
      using that [of "st1\<lparr>rp_received_count := k\<rparr>"] res iff inv1 [of k] k(1) False by simp
  qed
qed

section \<open>Runs of deliveries\<close>

fun deliver_all ::
    "u8 list \<Rightarrow> nat list \<Rightarrow> ReassembledPacket \<Rightarrow> (ReceivedPacket list \<times> ReassembledPacket) option" where
  "deliver_all bs [] st = Some ([], st)"
| "deliver_all bs (idx # idxs) st = do {
     (r, st') \<leftarrow> deliver bs idx st;
     (rs, st'') \<leftarrow> deliver_all bs idxs st';
     Some (r # rs, st'')
   }"

text \<open>The outcomes the set-level specification prescribes.\<close>

fun outcomes :: "u8 list \<Rightarrow> nat set \<Rightarrow> nat list \<Rightarrow> ReceivedPacket list" where
  "outcomes bs S [] = []"
| "outcomes bs S (idx # idxs) =
     (if idx \<in> S then Duplicate
      else if insert idx S = {..<length (chunks bs)} then Reassembled bs else Pending)
     # outcomes bs (insert idx S) idxs"

lemma receive_step:
  assumes "reassembling bs S st" "idx < length (chunks bs)" "length (chunks bs) < 2 ^ 32"
    and "idx \<in> S \<Longrightarrow> unat (rp_first_pending st) \<le> idx"
  obtains st' where
    "deliver bs idx st = Some
      (if idx \<in> S then Duplicate
       else if insert idx S = {..<length (chunks bs)} then Reassembled bs else Pending, st')"
    "reassembling bs (insert idx S) st'"
proof (cases "idx \<in> S")
  case True
  then show ?thesis
    using that [of st] receive_duplicate [OF assms(1) True] assms by (simp add: insert_absorb)
next
  case False
  then show ?thesis
    using receive_fresh [OF assms(1) False assms(2,3)] that by auto
qed

lemma deliver_all_distinct:
  assumes "reassembling bs S st" "set idxs \<subseteq> {..<length (chunks bs)}"
    and "length (chunks bs) < 2 ^ 32" "distinct idxs" "set idxs \<inter> S = {}"
  shows "\<exists>st'. deliver_all bs idxs st = Some (outcomes bs S idxs, st') \<and>
    reassembling bs (S \<union> set idxs) st'"
  using assms
proof (induction idxs arbitrary: S st)
  case Nil
  then show ?case by simp
next
  case (Cons i idxs)
  then obtain st1 where st1: "deliver bs i st = Some
      (if i \<in> S then Duplicate
       else if insert i S = {..<length (chunks bs)} then Reassembled bs else Pending, st1)"
    "reassembling bs (insert i S) st1"
    using receive_step [of bs S st i] by auto
  have "\<exists>st'. deliver_all bs idxs st1 = Some (outcomes bs (insert i S) idxs, st') \<and>
      reassembling bs (insert i S \<union> set idxs) st'"
    using Cons.prems by (intro Cons.IH st1(2)) auto
  then obtain st' where "deliver_all bs idxs st1 = Some (outcomes bs (insert i S) idxs, st')"
    "reassembling bs (insert i S \<union> set idxs) st'" by blast
  with st1(1) show ?case by simp
qed

text \<open>Fewer than 256 parts: the window never moves, so duplicates are harmless.\<close>

lemma reassembling_small_window:
  assumes "reassembling bs S st" "length (chunks bs) < 256"
  shows "rp_first_pending st = 0"
proof -
  have "{..<unat (rp_first_pending st)} \<subseteq> {..<length (chunks bs)}"
    using assms(1) by (auto simp: reassembling_def Let_def mem_window subset_iff)
  then have "unat (rp_first_pending st) < 256" using assms(2) by simp
  moreover have "unat (rp_first_pending st) mod 256 = 0"
    using assms(1) by (simp add: reassembling_def Let_def)
  ultimately show ?thesis by (simp add: unat_eq_zero)
qed

lemma deliver_all_small:
  assumes "reassembling bs S st" "set idxs \<subseteq> {..<length (chunks bs)}" "length (chunks bs) < 256"
  shows "\<exists>st'. deliver_all bs idxs st = Some (outcomes bs S idxs, st') \<and>
    reassembling bs (S \<union> set idxs) st'"
  using assms
proof (induction idxs arbitrary: S st)
  case Nil
  then show ?case by simp
next
  case (Cons i idxs)
  then obtain st1 where st1: "deliver bs i st = Some
      (if i \<in> S then Duplicate
       else if insert i S = {..<length (chunks bs)} then Reassembled bs else Pending, st1)"
    "reassembling bs (insert i S) st1"
    using receive_step [of bs S st i] reassembling_small_window [of bs S st] by auto
  have "\<exists>st'. deliver_all bs idxs st1 = Some (outcomes bs (insert i S) idxs, st') \<and>
      reassembling bs (insert i S \<union> set idxs) st'"
    using Cons.prems by (intro Cons.IH st1(2)) auto
  then obtain st' where "deliver_all bs idxs st1 = Some (outcomes bs (insert i S) idxs, st')"
    "reassembling bs (insert i S \<union> set idxs) st'" by blast
  with st1(1) show ?case by simp
qed

text \<open>The outcomes of a permutation of all parts: everything pending, then the whole packet.\<close>

lemma outcomes_distinct:
  assumes "distinct idxs" "set idxs \<inter> S = {}" "S \<union> set idxs = {..<length (chunks bs)}" "idxs \<noteq> []"
  shows "outcomes bs S idxs = replicate (length idxs - 1) Pending @ [Reassembled bs]"
  using assms
proof (induction idxs arbitrary: S)
  case Nil
  then show ?case by simp
next
  case (Cons i idxs)
  show ?case
  proof (cases "idxs = []")
    case True
    with Cons.prems show ?thesis by simp
  next
    case False
    then obtain j where j: "j \<in> set idxs" by (cases idxs) auto
    have "j \<notin> insert i S" "j \<in> {..<length (chunks bs)}" using Cons.prems(1-3) j by auto
    then have "insert i S \<noteq> {..<length (chunks bs)}" by metis
    moreover have "outcomes bs (insert i S) idxs
        = replicate (length idxs - 1) Pending @ [Reassembled bs]"
      using Cons.prems False by (intro Cons.IH) auto
    ultimately show ?thesis
      using Cons.prems(2) False by (cases idxs) auto
  qed
qed

text \<open>Whatever is delivered, in whatever order and however often, the packet comes out at
  most once, and it does come out when every part has been delivered.\<close>

lemma outcomes_once:
  assumes "set idxs \<subseteq> {..<length (chunks bs)}" "S \<subset> {..<length (chunks bs)}"
  shows "filter (\<lambda>r. r \<noteq> Pending \<and> r \<noteq> Duplicate) (outcomes bs S idxs)
    = (if S \<union> set idxs = {..<length (chunks bs)} then [Reassembled bs] else [])"
  using assms
proof (induction idxs arbitrary: S)
  case Nil
  then show ?case by auto
next
  case (Cons i idxs)
  have all: "filter (\<lambda>r. r \<noteq> Pending \<and> r \<noteq> Duplicate) (outcomes bs {..<length (chunks bs)} is) = []"
    if "set is \<subseteq> {..<length (chunks bs)}" for "is"
    using that by (induction "is") (simp_all add: insert_absorb)
  show ?case
  proof (cases "insert i S = {..<length (chunks bs)}")
    case True
    with Cons.prems all [of idxs] show ?thesis by (auto simp: insert_absorb)
  next
    case False
    then have "insert i S \<subset> {..<length (chunks bs)}" using Cons.prems by auto
    with Cons.IH [of "insert i S"] Cons.prems False show ?thesis by simp
  qed
qed

section \<open>Arbitrary input\<close>

text \<open>
  Parts that no honest sender produced: any index, any payload, any mark on any part. The chunks
  received are counted at least as often as the counter says, and then a part at or above
  \<open>first_pending\<close> never panics.
\<close>

definition chunks_seen :: "ReassembledPacket \<Rightarrow> nat set" where
  "chunks_seen st = window (unat (rp_first_pending st)) (rp_received_chunks st)"

definition count_ok :: "ReassembledPacket \<Rightarrow> bool" where
  "count_ok st \<longleftrightarrow> unat (rp_received_count st) \<le> card (chunks_seen st)"

lemma copy_into_grown:
  "\<exists>buf. copy_into (if a + length p > length pl then vec_resize pl (a + length p) 0 else pl)
     a (a + length p) p = Some buf"
  by (auto simp: copy_into_def)

lemma receive_seen:
  assumes "unat (rp_first_pending st) \<le> unat s" "unat s \<in> chunks_seen st"
  shows "ReassembledPacket_receive st is_last s p
    = Some (Duplicate, if is_last then st\<lparr>rp_max_index := Some s\<rparr> else st)"
proof -
  define off where "off = unat s - unat (rp_first_pending st)"
  define c1 where "c1 = (if off \<ge> length (rp_received_chunks st)
    then vec_resize (rp_received_chunks st) (off + 1) False else rp_received_chunks st)"
  note m = window_mark [OF assms(1) off_def c1_def]
  have c1: "(if length (rp_received_chunks st) \<le> off
      then vec_resize (rp_received_chunks st) (Suc off) False else rp_received_chunks st) = c1"
    by (simp add: c1_def)
  have "c1 ! off" using m(2) assms(2) by (simp add: chunks_seen_def)
  with m(4) have "c1 ! off" "c1[off := True] = rp_received_chunks st" by simp_all
  with assms(1) show ?thesis
    by (cases is_last) (simp_all add: ReassembledPacket_receive_def usize_sub_def Let_def
        off_def [symmetric] c1 split del: if_split cong: if_cong)
qed

text \<open>A part that was not seen before: everything up to the count.\<close>

lemma receive_unseen:
  assumes fp: "unat (rp_first_pending st) \<le> unat s" and few: "card (chunks_seen st) + 1 < 2 ^ 32"
    and new: "unat s \<notin> chunks_seen st"
  obtains st1 where "rp_received_count st1 = rp_received_count st"
    "\<forall>k. chunks_seen (st1\<lparr>rp_received_count := k\<rparr>) = insert (unat s) (chunks_seen st)"
    "ReassembledPacket_receive st is_last s p =
      (if Some (rp_received_count st1) = rp_max_index st1 then Some (Reassembled (rp_payload st1), st1)
       else do { count \<leftarrow> u32_add (rp_received_count st1) 1;
                 Some (Pending, st1\<lparr>rp_received_count := count\<rparr>) })"
proof -
  let ?fp = "unat (rp_first_pending st)" and ?cs = "rp_received_chunks st"
  define off where "off = unat s - ?fp"
  define c1 where "c1 = (if off \<ge> length ?cs then vec_resize ?cs (off + 1) False else ?cs)"
  define c2 where "c2 = c1[off := True]"
  note m = window_mark [OF fp off_def c1_def, folded c2_def]
  define b where "b = length (takeWhile id c2) div 256 * 256"
  note t = window_trim [OF b_def]
  have fin: "finite (chunks_seen st)" by (simp add: chunks_seen_def)
  have "card {..<?fp + b} \<le> card (insert (unat s) (chunks_seen st))"
    using t(3) [of ?fp] m(3) fin by (intro card_mono) (simp_all add: chunks_seen_def)
  then have bound: "?fp + b < 2 ^ 32" using few fin new by simp
  define e where "e = 491 * unat s + length p"
  obtain buf where buf: "copy_into (if e > length (rp_payload st)
      then vec_resize (rp_payload st) e 0 else rp_payload st) (491 * unat s) e p = Some buf"
    using copy_into_grown unfolding e_def by blast
  obtain fp' where fp': "u32_add (rp_first_pending st) (of_nat b) = Some fp'" "unat fp' = ?fp + b"
    using bound by (auto simp: u32_add_def unat_word_ariths)
  define st1 where "st1 = \<lparr>rp_payload = buf, rp_received_chunks = drop b c2,
    rp_first_pending = fp', rp_received_count = rp_received_count st,
    rp_max_index = if is_last then Some s else rp_max_index st\<rparr>"
  have "ReassembledPacket_receive st is_last s p =
      (if Some (rp_received_count st1) = rp_max_index st1 then Some (Reassembled buf, st1)
       else do { count \<leftarrow> u32_add (rp_received_count st1) 1;
                 Some (Pending, st1\<lparr>rp_received_count := count\<rparr>) })"
    using m(2) new bound
    by (intro receive_unfold [OF _ refl fp off_def c1_def _ c2_def b_def _ fp'(1) e_def buf(1) st1_def])
      (simp_all add: chunks_seen_def)
  moreover have "chunks_seen (st1\<lparr>rp_received_count := k\<rparr>) = insert (unat s) (chunks_seen st)" for k
    using t(1) [of ?fp] m(3) fp'(2) by (simp add: chunks_seen_def st1_def)
  ultimately show ?thesis using that [of st1] by (simp add: st1_def)
qed

lemma receive_no_panic:
  assumes ok: "count_ok st" and fp: "unat (rp_first_pending st) \<le> unat s"
    and few: "card (chunks_seen st) + 1 < 2 ^ 32"
  obtains r st' where "ReassembledPacket_receive st is_last s p = Some (r, st')" "count_ok st'"
    "chunks_seen st' = insert (unat s) (chunks_seen st)"
proof (cases "unat s \<in> chunks_seen st")
  case True
  let ?st = "if is_last then st\<lparr>rp_max_index := Some s\<rparr> else st"
  have "count_ok ?st" "chunks_seen ?st = insert (unat s) (chunks_seen st)"
    using ok True by (auto simp: count_ok_def chunks_seen_def)
  with receive_seen [OF fp True] show ?thesis using that by blast
next
  case False
  have fin: "finite (chunks_seen st)" by (simp add: chunks_seen_def)
  obtain st1 where same: "rp_received_count st1 = rp_received_count st"
    and seen: "\<forall>k. chunks_seen (st1\<lparr>rp_received_count := k\<rparr>) = insert (unat s) (chunks_seen st)"
    and run: "ReassembledPacket_receive st is_last s p =
      (if Some (rp_received_count st1) = rp_max_index st1 then Some (Reassembled (rp_payload st1), st1)
       else do { count \<leftarrow> u32_add (rp_received_count st1) 1;
                 Some (Pending, st1\<lparr>rp_received_count := count\<rparr>) })"
    by (rule receive_unseen [OF fp few False, of is_last p])
  have cnt: "unat (rp_received_count st1) \<le> card (chunks_seen st)"
    using ok same by (simp add: count_ok_def)
  then have k: "u32_add (rp_received_count st1) 1 = Some (rp_received_count st1 + 1)"
      "unat (rp_received_count st1 + 1) = unat (rp_received_count st1) + 1"
    using few by (auto simp: u32_add_def unat_word_ariths)
  have ok': "count_ok (st1\<lparr>rp_received_count := k\<rparr>)" if "unat k \<le> unat (rp_received_count st1) + 1" for k
    using that cnt fin False seen by (simp add: count_ok_def)
  show ?thesis
  proof (cases "Some (rp_received_count st1) = rp_max_index st1")
    case True
    with run seen [rule_format, of "rp_received_count st1"] ok' [of "rp_received_count st1"] show ?thesis
      by (intro that [of "Reassembled (rp_payload st1)" st1]) simp_all
  next
    case False
    with run k seen ok' show ?thesis
      by (intro that [of Pending "st1\<lparr>rp_received_count := rp_received_count st1 + 1\<rparr>"]) simp_all
  qed
qed

end
