(* ===== verification/Receive_Buffer.thy ===== *)
theory Receive_Buffer
  imports Reassemble Frames BTree_Map
begin

text \<open>
  \<open>ReceivePacketBuffer\<close> of \<^verbatim>\<open>packet.rs\<close>: the incoming packets by id, a packet of a single part
  being remembered without a reassembly state.

  \<open>receiving bs S e\<close> relates the entry \<open>e\<close> of a packet with payload \<open>bs\<close> to the set \<open>S\<close> of its parts
  that have arrived; the lemmas show that handling the frame of a part moves from \<open>S\<close> to
  \<open>insert idx S\<close>, answers what the set-level specification prescribes, sends the acknowledgement
  of exactly that part, and leaves every other packet alone.
\<close>

section \<open>The program\<close>

record PacketIn =
  pi_last_receive :: Instant
  pi_packet :: "ReassembledPacket option"

record ReceivePacketBuffer =
  rb_packets :: "(PacketId, PacketIn) btree"

datatype ReceivedPacketHandling =
    ReceivedAck ReceivedPacket
  | ReceivedDone bool
  | ReceivedUnhandled

definition ReceivePacketBuffer_default :: ReceivePacketBuffer where
  "ReceivePacketBuffer_default = \<lparr>rb_packets = []\<rparr>"

definition ReceivePacketBuffer_receive ::
    "ReceivePacketBuffer \<Rightarrow> bool \<Rightarrow> PacketId \<Rightarrow> SeqIndex \<Rightarrow> u8 list \<Rightarrow> socket \<Rightarrow> world
      \<Rightarrow> ((PacketReceiveError + ReceivedPacket) \<times> ReceivePacketBuffer \<times> world) option" where
  "ReceivePacketBuffer_receive self is_last i seq_index payload socket w =
     (if is_last \<and> seq_index = 0
      then (case BTreeMap_get (rb_packets self) i of
              None \<Rightarrow> do {
                let (now, w) = Instant_now w;
                let self = self\<lparr>rb_packets := BTreeMap_insert i
                  \<lparr>pi_last_receive = now, pi_packet = None\<rparr> (rb_packets self)\<rparr>;
                (r, w) \<leftarrow> ack i seq_index socket w;
                (case r of
                   Inl error \<Rightarrow> Some (Inl error, self, w)
                 | Inr _ \<Rightarrow> Some (Inr (Reassembled payload), self, w))
              }
            | Some entry \<Rightarrow>
                if pi_packet entry = None
                then do {
                  (r, w) \<leftarrow> ack i seq_index socket w;
                  (case r of
                     Inl error \<Rightarrow> Some (Inl error, self, w)
                   | Inr _ \<Rightarrow> Some (Inr Duplicate, self, w))
                }
                else Some (Inl (PacketReceiveError i Mismatch), self, w))
      else do {
        let (now, w) = Instant_now w;
        let packet =
          (case BTreeMap_get (rb_packets self) i of
             Some packet \<Rightarrow> packet\<lparr>pi_last_receive := now\<rparr>
           | None \<Rightarrow> \<lparr>pi_last_receive = now, pi_packet = Some ReassembledPacket_new\<rparr>);
        let self = self\<lparr>rb_packets := BTreeMap_insert i packet (rb_packets self)\<rparr>;
        (case pi_packet packet of
           Some reassembled \<Rightarrow> do {
             (received_packet, reassembled) \<leftarrow>
               ReassembledPacket_receive reassembled is_last seq_index payload;
             let self = self\<lparr>rb_packets := BTreeMap_insert i
               (packet\<lparr>pi_packet := Some reassembled\<rparr>) (rb_packets self)\<rparr>;
             (r, w) \<leftarrow> ack i seq_index socket w;
             (case r of
                Inl error \<Rightarrow> Some (Inl error, self, w)
              | Inr _ \<Rightarrow> Some (Inr received_packet, self, w))
           }
         | None \<Rightarrow> Some (Inl (PacketReceiveError i Mismatch), self, w))
      })"

definition ReceivePacketBuffer_done ::
    "ReceivePacketBuffer \<Rightarrow> PacketId \<Rightarrow> bool \<times> ReceivePacketBuffer" where
  "ReceivePacketBuffer_done self i =
     (BTreeMap_get (rb_packets self) i \<noteq> None,
      self\<lparr>rb_packets := BTreeMap_remove i (rb_packets self)\<rparr>)"

text \<open>The closure \<open>id\<close> of \<open>handle\<close>: the slice may be missing, and the conversion is unwrapped.\<close>

definition handle_id :: "u8 list \<Rightarrow> (HandlePacketError + PacketId) option" where
  "handle_id buf =
     (let id_start = size_of_PacketKind; id_end = id_start + size_of_PacketId in
      case slice_get buf id_start id_end of
        None \<Rightarrow> Some (Inl HandleMalformed)
      | Some bs \<Rightarrow> do { i \<leftarrow> PacketId_from_slice bs; Some (Inr i) })"

definition handle_part ::
    "ReceivePacketBuffer \<Rightarrow> bool \<Rightarrow> u8 list \<Rightarrow> socket \<Rightarrow> world
      \<Rightarrow> ((HandlePacketError + ReceivedPacketHandling) \<times> ReceivePacketBuffer \<times> world) option" where
  "handle_part self is_last buf socket w =
     (let id_end = size_of_PacketKind + size_of_PacketId;
          seq_index_end = id_end + size_of_SeqIndex
      in case slice_get buf id_end seq_index_end of
           None \<Rightarrow> Some (Inl HandleMalformed, self, w)
         | Some seq_bytes \<Rightarrow> do {
             seq_index \<leftarrow> u32_from_le_bytes seq_bytes;
             (case slice_from buf seq_index_end of
                None \<Rightarrow> Some (Inl HandleMalformed, self, w)
              | Some payload \<Rightarrow> do {
                  i \<leftarrow> handle_id buf;
                  (case i of
                     Inl error \<Rightarrow> Some (Inl error, self, w)
                   | Inr i \<Rightarrow> do {
                       (r, self, w) \<leftarrow>
                         ReceivePacketBuffer_receive self is_last i seq_index payload socket w;
                       (case r of
                          Inl error \<Rightarrow> Some (Inl (HandleReceive error), self, w)
                        | Inr received \<Rightarrow> Some (Inr (ReceivedAck received), self, w))
                     })
                })
           })"

definition ReceivePacketBuffer_handle ::
    "ReceivePacketBuffer \<Rightarrow> u8 list \<Rightarrow> socket \<Rightarrow> world
      \<Rightarrow> ((HandlePacketError + ReceivedPacketHandling) \<times> ReceivePacketBuffer \<times> world) option" where
  "ReceivePacketBuffer_handle self buf socket w =
     (case buf of
        [] \<Rightarrow> Some (Inl HandleEmpty, self, w)
      | kind # _ \<Rightarrow>
          (case PacketKind_try_from kind of
             None \<Rightarrow> Some (Inr ReceivedUnhandled, self, w)
           | Some kind \<Rightarrow>
               if kind = Kind_Part \<or> kind = Kind_LastPart
               then handle_part self (kind = Kind_LastPart) buf socket w
               else if kind = Kind_Done
               then do {
                 i \<leftarrow> handle_id buf;
                 (case i of
                    Inl error \<Rightarrow> Some (Inl error, self, w)
                  | Inr i \<Rightarrow>
                      let (known_packet, self) = ReceivePacketBuffer_done self i
                      in Some (Inr (ReceivedDone known_packet), self, w))
               }
               else Some (Inr ReceivedUnhandled, self, w)))"

text \<open>\<open>stats\<close> is still \<open>todo!()\<close>.\<close>

record PacketInStats =
  pis_total_bytes :: usize
  pis_received_bytes :: usize

definition ReceivePacketBuffer_stats :: "ReceivePacketBuffer \<Rightarrow> PacketId \<Rightarrow> PacketInStats option" where
  "ReceivePacketBuffer_stats self i = None"

definition ReceivePacketBuffer_timeout_packets ::
    "ReceivePacketBuffer \<Rightarrow> Duration \<Rightarrow> world \<Rightarrow> (ReceivePacketBuffer \<times> world) option" where
  "ReceivePacketBuffer_timeout_packets self timeout w = do {
     (packets, w) \<leftarrow> BTreeMap_retain
       (\<lambda>_ packet w. let (elapsed, w) = Instant_elapsed (pi_last_receive packet) w
                     in Some (elapsed < timeout, packet, w))
       (rb_packets self) w;
     Some (self\<lparr>rb_packets := packets\<rparr>, w)
   }"

section \<open>Receiving the parts of a packet\<close>

definition recv_wf :: "ReceivePacketBuffer \<Rightarrow> bool" where
  "recv_wf rb \<longleftrightarrow> btree_invar (rb_packets rb)"

definition receiving :: "u8 list \<Rightarrow> nat set \<Rightarrow> PacketIn option \<Rightarrow> bool" where
  "receiving bs S e \<longleftrightarrow>
     (case e of
        None \<Rightarrow> S = {}
      | Some p \<Rightarrow>
          if length (chunks bs) = 1 then pi_packet p = None \<and> S = {0}
          else (\<exists>st. pi_packet p = Some st \<and> reassembling bs S st))"

text \<open>A part can be taken: it does not lie below \<open>first_pending\<close> of a packet in reassembly.\<close>

definition in_window :: "ReceivePacketBuffer \<Rightarrow> PacketId \<Rightarrow> SeqIndex \<Rightarrow> bool" where
  "in_window rb i s \<longleftrightarrow>
     (\<forall>e st. BTreeMap_get (rb_packets rb) i = Some e \<longrightarrow> pi_packet e = Some st \<longrightarrow>
        unat (rp_first_pending st) \<le> unat s)"

definition outcome :: "u8 list \<Rightarrow> nat set \<Rightarrow> nat \<Rightarrow> ReceivedPacket" where
  "outcome bs S idx =
     (if idx \<in> S then Duplicate
      else if insert idx S = {..<length (chunks bs)} then Reassembled bs else Pending)"

text \<open>The frame of part \<open>idx\<close>, as the sender puts it on the wire.\<close>

definition part_frame :: "PacketId \<Rightarrow> u8 list \<Rightarrow> nat \<Rightarrow> u8 list" where
  "part_frame i bs idx =
     part_bytes (if idx = length (chunks bs) - 1 then Kind_LastPart else Kind_Part) i (of_nat idx)
       (chunks bs ! idx)"

text \<open>The answer of \<open>receive\<close> given the outcome and the answer of \<open>ack\<close>: a failed
  acknowledgement hides the outcome.\<close>

definition after_ack :: "'e + unit \<Rightarrow> ReceivedPacket \<Rightarrow> 'e + ReceivedPacket" where
  "after_ack r x = (case r of Inl e \<Rightarrow> Inl e | Inr _ \<Rightarrow> Inr x)"

lemma after_ack_fold:
  "(case r of Inl e \<Rightarrow> Some (Inl e, s, w) | Inr _ \<Rightarrow> Some (Inr x, s, w)) = Some (after_ack r x, s, w)"
  by (simp add: after_ack_def split: sum.split)

lemma receive_single:
  assumes "recv_wf rb" "receiving bs S (BTreeMap_get (rb_packets rb) i)" "length (chunks bs) = 1"
  shows "\<exists>rb' t. ReceivePacketBuffer_receive rb True i 0 (chunks bs ! 0) socket w
      = do { (r, w') \<leftarrow> ack i 0 socket (w\<lparr>ticks := t\<rparr>); Some (after_ack r (outcome bs S 0), rb', w') } \<and>
    recv_wf rb' \<and> receiving bs {0} (BTreeMap_get (rb_packets rb') i) \<and>
    (\<forall>j. j \<noteq> i \<longrightarrow> BTreeMap_get (rb_packets rb') j = BTreeMap_get (rb_packets rb) j)"
proof -
  have bs: "chunks bs ! 0 = bs" using assms(3) concat_chunks [of bs] by (cases "chunks bs") auto
  show ?thesis
  proof (cases "BTreeMap_get (rb_packets rb) i")
    case None
    then have "outcome bs S 0 = Reassembled bs"
      using assms(2,3) by (auto simp: receiving_def outcome_def)
    with None assms bs show ?thesis
      by (intro exI [of _ "rb\<lparr>rb_packets := BTreeMap_insert i
            \<lparr>pi_last_receive = clock w (ticks w), pi_packet = None\<rparr> (rb_packets rb)\<rparr>"]
          exI [of _ "Suc (ticks w)"])
        (simp add: ReceivePacketBuffer_receive_def Instant_now_def recv_wf_def after_ack_fold
          btree.invar_insert btree.get_insert receiving_def Let_def)
  next
    case (Some p)
    then have p: "pi_packet p = None" "S = {0}" using assms by (auto simp: receiving_def)
    then have "outcome bs S 0 = Duplicate" by (simp add: outcome_def)
    with Some p assms show ?thesis
      by (intro exI [of _ rb] exI [of _ "ticks w"])
        (simp add: ReceivePacketBuffer_receive_def after_ack_fold)
  qed
qed

lemma part_index_zero:
  assumes "n < 2 ^ 32" "idx < n" shows "(of_nat idx :: u32) = 0 \<longleftrightarrow> idx = 0"
proof -
  have idx: "unat (of_nat idx :: u32) = idx" using assms by (simp add: unat_u32_of_nat)
  show ?thesis using unat_eq_zero [of "of_nat idx :: u32"] unfolding idx by (rule sym)
qed

lemma receive_multi:
  assumes rb: "recv_wf rb" and e: "receiving bs S (BTreeMap_get (rb_packets rb) i)"
    and n: "length (chunks bs) \<noteq> 1" "length (chunks bs) < 2 ^ 32" "idx < length (chunks bs)"
    and win: "in_window rb i (of_nat idx)"
  shows "\<exists>rb' t. ReceivePacketBuffer_receive rb (idx = length (chunks bs) - 1) i (of_nat idx)
        (chunks bs ! idx) socket w
      = do { (r, w') \<leftarrow> ack i (of_nat idx) socket (w\<lparr>ticks := t\<rparr>);
             Some (after_ack r (outcome bs S idx), rb', w') } \<and>
    recv_wf rb' \<and> receiving bs (insert idx S) (BTreeMap_get (rb_packets rb') i) \<and>
    (\<forall>j. j \<noteq> i \<longrightarrow> BTreeMap_get (rb_packets rb') j = BTreeMap_get (rb_packets rb) j)"
proof -
  let ?now = "clock w (ticks w)"
  define p where "p = (case BTreeMap_get (rb_packets rb) i of
      Some p \<Rightarrow> p\<lparr>pi_last_receive := ?now\<rparr>
    | None \<Rightarrow> \<lparr>pi_last_receive = ?now, pi_packet = Some ReassembledPacket_new\<rparr>)"
  obtain st where st: "pi_packet p = Some st" "reassembling bs S st"
    using e n(1) by (auto simp: p_def receiving_def reassembling_new split: option.splits)
  have "unat (rp_first_pending st) \<le> idx"
    using st(1) win n(2,3)
    by (auto simp: p_def in_window_def unat_u32_of_nat ReassembledPacket_new_def split: option.split_asm)
  then obtain st' where st': "deliver bs idx st = Some (outcome bs S idx, st')"
    "reassembling bs (insert idx S) st'"
    using receive_step [OF st(2) n(3,2)] by (auto simp: outcome_def)
  let ?rb = "rb\<lparr>rb_packets := BTreeMap_insert i (p\<lparr>pi_packet := Some st'\<rparr>)
    (BTreeMap_insert i p (rb_packets rb))\<rparr>"
  have not_single: "(idx = length (chunks bs) - 1 \<and> (of_nat idx :: u32) = 0) = False"
    using part_index_zero [OF n(2,3)] n(1,3) by auto
  have "ReceivePacketBuffer_receive rb (idx = length (chunks bs) - 1) i (of_nat idx)
      (chunks bs ! idx) socket w
    = do { (r, w') \<leftarrow> ack i (of_nat idx) socket (w\<lparr>ticks := Suc (ticks w)\<rparr>);
           Some (after_ack r (outcome bs S idx), ?rb, w') }"
    using st'(1) st(1)
    unfolding ReceivePacketBuffer_receive_def not_single
    by (simp add: Instant_now_def p_def [symmetric] deliver_def after_ack_fold Let_def)
  moreover have "recv_wf ?rb" using rb by (simp add: recv_wf_def btree.invar_insert)
  moreover have "receiving bs (insert idx S) (BTreeMap_get (rb_packets ?rb) i)"
    using rb n(1) st'(2) by (simp add: recv_wf_def btree.invar_insert btree.get_insert receiving_def)
  moreover have "\<forall>j. j \<noteq> i \<longrightarrow> BTreeMap_get (rb_packets ?rb) j = BTreeMap_get (rb_packets rb) j"
    using rb by (simp add: recv_wf_def btree.invar_insert btree.get_insert)
  ultimately show ?thesis by blast
qed

text \<open>Taking the frames apart.\<close>

lemma handle_id_frames [simp]:
  "handle_id (part_bytes k i s p) = Some (Inr i)"
  "handle_id (done_bytes i) = Some (Inr i)"
  by (simp_all add: handle_id_def del: One_nat_def)

lemma handle_part_bytes:
  "handle_part rb is_last (part_bytes k i s p) socket w = do {
     (r, rb', w') \<leftarrow> ReceivePacketBuffer_receive rb is_last i s p socket w;
     Some (case r of Inl e \<Rightarrow> Inl (HandleReceive e) | Inr x \<Rightarrow> Inr (ReceivedAck x), rb', w') }"
  by (simp add: handle_part_def)
    (auto intro!: Option.bind_cong split: sum.splits)

lemma part_frame_handle:
  "ReceivePacketBuffer_handle rb (part_frame i bs idx) socket w
     = handle_part rb (idx = length (chunks bs) - 1)
         (part_bytes (if idx = length (chunks bs) - 1 then Kind_LastPart else Kind_Part) i (of_nat idx) (chunks bs ! idx)) socket w"
  by (auto simp: ReceivePacketBuffer_handle_def part_frame_def part_bytes_def header_def)

text \<open>Both kinds of packets, on the frame as it arrives.\<close>

lemma handle_part_frame_window:
  assumes "recv_wf rb" "receiving bs S (BTreeMap_get (rb_packets rb) i)"
    and "length (chunks bs) < 2 ^ 32" "idx < length (chunks bs)"
    and "in_window rb i (of_nat idx)"
  shows "\<exists>rb' t. ReceivePacketBuffer_handle rb (part_frame i bs idx) socket w
      = do { (r, w') \<leftarrow> ack i (of_nat idx) socket (w\<lparr>ticks := t\<rparr>);
             Some (case r of Inl e \<Rightarrow> Inl (HandleReceive e)
                   | Inr _ \<Rightarrow> Inr (ReceivedAck (outcome bs S idx)), rb', w') } \<and>
    recv_wf rb' \<and> receiving bs (insert idx S) (BTreeMap_get (rb_packets rb') i) \<and>
    (\<forall>j. j \<noteq> i \<longrightarrow> BTreeMap_get (rb_packets rb') j = BTreeMap_get (rb_packets rb) j)"
proof -
  let ?last = "idx = length (chunks bs) - 1"
  have "\<exists>rb' t. ReceivePacketBuffer_receive rb ?last i (of_nat idx) (chunks bs ! idx) socket w
      = do { (r, w') \<leftarrow> ack i (of_nat idx) socket (w\<lparr>ticks := t\<rparr>);
             Some (after_ack r (outcome bs S idx), rb', w') } \<and>
    recv_wf rb' \<and> receiving bs (insert idx S) (BTreeMap_get (rb_packets rb') i) \<and>
    (\<forall>j. j \<noteq> i \<longrightarrow> BTreeMap_get (rb_packets rb') j = BTreeMap_get (rb_packets rb) j)"
  proof (cases "length (chunks bs) = 1")
    case True
    have "insert 0 S = {0}" using True assms(2) by (auto simp: receiving_def split: option.splits)
    moreover have "idx = 0" using True assms(4) by simp
    ultimately show ?thesis
      using receive_single [OF assms(1,2) True, of socket w] by (simp only: True of_nat_0) simp
  next
    case False
    from receive_multi [OF assms(1,2) this assms(3-5)] show ?thesis .
  qed
  then obtain rb' t where r:
    "ReceivePacketBuffer_receive rb ?last i (of_nat idx) (chunks bs ! idx) socket w
      = do { (r, w') \<leftarrow> ack i (of_nat idx) socket (w\<lparr>ticks := t\<rparr>);
             Some (after_ack r (outcome bs S idx), rb', w') }"
    "recv_wf rb'" "receiving bs (insert idx S) (BTreeMap_get (rb_packets rb') i)"
    "\<forall>j. j \<noteq> i \<longrightarrow> BTreeMap_get (rb_packets rb') j = BTreeMap_get (rb_packets rb) j"
    by blast
  have "ReceivePacketBuffer_handle rb (part_frame i bs idx) socket w = do { (r, w') \<leftarrow> ack i (of_nat idx) socket (w\<lparr>ticks := t\<rparr>);
             Some (case r of Inl e \<Rightarrow> Inl (HandleReceive e)
                   | Inr _ \<Rightarrow> Inr (ReceivedAck (outcome bs S idx)), rb', w') }"
    by (simp only: part_frame_handle handle_part_bytes r(1))
      (auto simp: after_ack_def intro!: Option.bind_cong split: sum.splits)
  then show ?thesis using r(2-4) by blast
qed

text \<open>A part that has not arrived is above the window, and the window of a packet of fewer than 256
  parts never moves.\<close>

lemma receiving_in_window:
  assumes "receiving bs S (BTreeMap_get (rb_packets rb) i)" "idx < length (chunks bs)" "length (chunks bs) < 2 ^ 32"
    and "idx \<notin> S \<or> length (chunks bs) < 256"
  shows "in_window rb i (of_nat idx)"
proof -
  have "unat (rp_first_pending st) \<le> idx" if "reassembling bs S st" for st
    using assms(4) that reassembling_small_window [OF that]
    by (auto simp: reassembling_def Let_def mem_window not_less [symmetric])
  with assms(1-3) show ?thesis
    by (auto simp: in_window_def receiving_def unat_u32_of_nat split: if_split_asm)
qed

lemma handle_part_frame:
  assumes "recv_wf rb" "receiving bs S (BTreeMap_get (rb_packets rb) i)"
    and "length (chunks bs) < 2 ^ 32" "idx < length (chunks bs)"
    and "idx \<notin> S \<or> length (chunks bs) < 256"
  shows "\<exists>rb' t. ReceivePacketBuffer_handle rb (part_frame i bs idx) socket w
      = do { (r, w') \<leftarrow> ack i (of_nat idx) socket (w\<lparr>ticks := t\<rparr>);
             Some (case r of Inl e \<Rightarrow> Inl (HandleReceive e)
                   | Inr _ \<Rightarrow> Inr (ReceivedAck (outcome bs S idx)), rb', w') } \<and>
    recv_wf rb' \<and> receiving bs (insert idx S) (BTreeMap_get (rb_packets rb') i) \<and>
    (\<forall>j. j \<noteq> i \<longrightarrow> BTreeMap_get (rb_packets rb') j = BTreeMap_get (rb_packets rb) j)"
  using handle_part_frame_window [OF assms(1-4) receiving_in_window [OF assms(2,4,3,5)]] .

text \<open>A part below the window is a panic.\<close>

lemma handle_part_frame_outside:
  assumes "receiving bs S (BTreeMap_get (rb_packets rb) i)" "idx < length (chunks bs)" "length (chunks bs) < 2 ^ 32"
    and "\<not> in_window rb i (of_nat idx)"
  shows "ReceivePacketBuffer_handle rb (part_frame i bs idx) socket w = None"
proof -
  obtain e st where e: "BTreeMap_get (rb_packets rb) i = Some e" "pi_packet e = Some st"
    "idx < unat (rp_first_pending st)" "length (chunks bs) \<noteq> 1"
    using assms by (fastforce simp: in_window_def receiving_def unat_u32_of_nat split: if_split_asm)
  have not_single: "(idx = length (chunks bs) - 1 \<and> (of_nat idx :: u32) = 0) = False"
    using part_index_zero [OF assms(3,2)] assms(2) e(4) by auto
  have below: "ReassembledPacket_receive st l (of_nat idx) p = None" for l p
    using e(3) assms(2,3) by (simp add: ReassembledPacket_receive_def usize_sub_def unat_u32_of_nat Let_def)
  show ?thesis
    unfolding part_frame_handle handle_part_bytes ReceivePacketBuffer_receive_def not_single
    using e(1,2) by (simp add: Instant_now_def below Let_def)
qed

section \<open>Done and timeouts\<close>

lemma handle_done_frame:
  "ReceivePacketBuffer_handle rb (done_bytes i) socket w =
     Some (Inr (ReceivedDone (BTreeMap_get (rb_packets rb) i \<noteq> None)),
           rb\<lparr>rb_packets := BTreeMap_remove i (rb_packets rb)\<rparr>, w)"
proof -
  obtain bs where "done_bytes i = PacketKind_into Kind_Done # bs" using done_frame_slices(2) by blast
  then show ?thesis
    using handle_id_frames(2) [of i]
    by (simp add: ReceivePacketBuffer_handle_def ReceivePacketBuffer_done_def)
qed

lemma ReceivePacketBuffer_timeout_packets_frame:
  "\<exists>m' t. ReceivePacketBuffer_timeout_packets rb d w = Some (rb\<lparr>rb_packets := m'\<rparr>, w\<lparr>ticks := t\<rparr>) \<and>
     set m' \<subseteq> set (rb_packets rb) \<and> (recv_wf rb \<longrightarrow> btree_invar m')"
proof -
  let ?f = "\<lambda>_ packet w. let (elapsed, w) = Instant_elapsed (pi_last_receive packet) w
                     in Some (elapsed < d, packet, w)"
  have "\<exists>m' t. BTreeMap_retain ?f m w = Some (m', w\<lparr>ticks := t\<rparr>) \<and> set m' \<subseteq> set m" for m
  proof (induction m arbitrary: w)
    case Nil
    then show ?case by (intro exI [of _ "[]"] exI [of _ "ticks w"]) simp
  next
    case (Cons e m)
    from Cons.IH [of "w\<lparr>ticks := Suc (ticks w)\<rparr>"] obtain m' t where
      "BTreeMap_retain ?f m (w\<lparr>ticks := Suc (ticks w)\<rparr>) = Some (m', w\<lparr>ticks := t\<rparr>)" "set m' \<subseteq> set m"
      by auto
    then show ?case by (cases e) (auto simp: Instant_elapsed_def Instant_now_def)
  qed
  then obtain m' t where r: "BTreeMap_retain ?f (rb_packets rb) w = Some (m', w\<lparr>ticks := t\<rparr>)"
    "set m' \<subseteq> set (rb_packets rb)" by blast
  then show ?thesis
    using BTreeMap_retain_invar [OF r(1)]
    by (auto simp: ReceivePacketBuffer_timeout_packets_def recv_wf_def)
qed

section \<open>Arbitrary datagrams\<close>

lemma recv_wf_insert [wf_intros]:
  "recv_wf rb \<Longrightarrow> recv_wf (rb\<lparr>rb_packets := BTreeMap_insert i p (rb_packets rb)\<rparr>)"
  by (simp add: recv_wf_def btree.invar_insert)

lemma receive_wf [wf_intros]:
  assumes "recv_wf rb" "ReceivePacketBuffer_receive rb l i s p socket w = Some (r, rb', w')"
  shows "recv_wf rb'"
  using assms
  by (auto simp: ReceivePacketBuffer_receive_def recv_wf_def btree.invar_insert run_simps
      Instant_now_def split: if_split_asm)

lemma handle_wf [wf_intros]:
  assumes "recv_wf rb" "ReceivePacketBuffer_handle rb buf socket w = Some (r, rb', w')"
  shows "recv_wf rb'"
proof -
  have part: "recv_wf rb'" if "handle_part rb l buf socket w = Some (r, rb', w')" for l
    using that receive_wf [OF assms(1)] assms(1)
    by (auto simp: handle_part_def run_simps)
  show ?thesis
    using assms part
    by (auto simp: ReceivePacketBuffer_handle_def ReceivePacketBuffer_done_def recv_wf_def
        btree.invar_remove run_simps split: list.split_asm if_split_asm)
qed

text \<open>
  The invariant of the reassembly states under arbitrary input, and the one thing that can make
  handling a datagram panic: it decodes to a part below \<open>first_pending\<close> of a packet that is being
  reassembled.
\<close>

definition entry_ok :: "PacketIn \<Rightarrow> bool" where
  "entry_ok e \<longleftrightarrow>
     (\<forall>st. pi_packet e = Some st \<longrightarrow> count_ok st \<and> card (chunks_seen st) + 1 < 2 ^ 32)"

definition datagram_in_window :: "ReceivePacketBuffer \<Rightarrow> u8 list \<Rightarrow> bool" where
  "datagram_in_window rb buf \<longleftrightarrow>
     (\<forall>i s. slice_get buf 1 17 = Some (PacketId_as_bytes i) \<longrightarrow>
        slice_get buf 17 21 = Some (u32_to_le_bytes s) \<longrightarrow> in_window rb i s)"

lemma entry_ok_new: "count_ok ReassembledPacket_new" "chunks_seen ReassembledPacket_new = {}"
  by (simp_all add: count_ok_def chunks_seen_def ReassembledPacket_new_def)

text \<open>The entry of a packet that is received, with the time noted, can take the part.\<close>

lemma touched_entry_ok:
  assumes "btree_all entry_ok (rb_packets rb)" "in_window rb i s"
    and "pi_packet (case BTreeMap_get (rb_packets rb) i of
        Some e \<Rightarrow> e\<lparr>pi_last_receive := t\<rparr>
      | None \<Rightarrow> \<lparr>pi_last_receive = t, pi_packet = Some ReassembledPacket_new\<rparr>) = Some st"
  shows "count_ok st \<and> unat (rp_first_pending st) \<le> unat s \<and> card (chunks_seen st) + 1 < 2 ^ 32"
proof (cases "BTreeMap_get (rb_packets rb) i")
  case None
  with assms(3) show ?thesis
    by (auto simp: entry_ok_new ReassembledPacket_new_def [THEN arg_cong, of rp_first_pending])
next
  case (Some e)
  with assms btree_all_get [OF assms(1) Some] show ?thesis by (auto simp: entry_ok_def in_window_def)
qed

context nonblocking
begin

lemma receive_total:
  assumes w: "whole_datagrams w" and rb: "btree_all entry_ok (rb_packets rb)" "in_window rb i s"
  shows "\<exists>r rb' w'. ReceivePacketBuffer_receive rb l i s p send w = Some (r, rb', w') \<and> same_env w w'"
proof -
  have w': "whole_datagrams (w\<lparr>ticks := t\<rparr>)" for t using w by (simp add: whole_datagrams_def)
  have "\<exists>r w'. ack i s send (w\<lparr>ticks := t\<rparr>) = Some (r, w') \<and> same_env w w'" for t
    using ack_total [OF w', of i s t] by (metis same_env_refl same_env_trans same_env_updates(1))
  then obtain ra wa where ack: "\<And>t. ack i s send (w\<lparr>ticks := t\<rparr>) = Some (ra t, wa t)"
    "\<And>t. same_env w (wa t)" by metis
  from ack(1) [of "ticks w"] have ack0: "ack i s send w = Some (ra (ticks w), wa (ticks w))" by simp
  show ?thesis
  proof (cases "l \<and> s = 0")
    case True
    with ack ack0 [unfolded conjunct2 [OF True]] show ?thesis
      by (auto simp: ReceivePacketBuffer_receive_def Instant_now_def after_ack_fold Let_def
          split: option.split)
  next
    case False
    define p0 where "p0 = (case BTreeMap_get (rb_packets rb) i of
        Some e \<Rightarrow> e\<lparr>pi_last_receive := clock w (ticks w)\<rparr>
      | None \<Rightarrow> \<lparr>pi_last_receive = clock w (ticks w), pi_packet = Some ReassembledPacket_new\<rparr>)"
    have ok: "count_ok st \<and> unat (rp_first_pending st) \<le> unat s \<and> card (chunks_seen st) + 1 < 2 ^ 32"
      if "pi_packet p0 = Some st" for st
      using touched_entry_ok [OF rb] that unfolding p0_def by blast
    have run: "ReceivePacketBuffer_receive rb l i s p send w = (case pi_packet p0 of
        Some st \<Rightarrow> do { (x, st') \<leftarrow> ReassembledPacket_receive st l s p;
          Some (after_ack (ra (Suc (ticks w))) x, rb\<lparr>rb_packets := BTreeMap_insert i
            (p0\<lparr>pi_packet := Some st'\<rparr>) (BTreeMap_insert i p0 (rb_packets rb))\<rparr>, wa (Suc (ticks w))) }
      | None \<Rightarrow> Some (Inl (PacketReceiveError i Mismatch),
          rb\<lparr>rb_packets := BTreeMap_insert i p0 (rb_packets rb)\<rparr>, w\<lparr>ticks := Suc (ticks w)\<rparr>))"
      using False
      by (auto simp: ReceivePacketBuffer_receive_def Instant_now_def p0_def [symmetric] ack(1)
          after_ack_fold Let_def cong: option.case_cong)
    show ?thesis
    proof (cases "pi_packet p0")
      case (Some st)
      obtain x st' where "ReassembledPacket_receive st l s p = Some (x, st')"
        by (rule receive_no_panic [of st s l p]) (use ok [OF Some] in auto)
      with Some run ack(2) show ?thesis by auto
    qed (use run in auto)
  qed
qed

lemma handle_total:
  assumes w: "whole_datagrams w" and rb: "btree_all entry_ok (rb_packets rb)"
    and win: "datagram_in_window rb buf"
  shows "\<exists>r rb' w'. ReceivePacketBuffer_handle rb buf send w = Some (r, rb', w') \<and> same_env w w'"
proof -
  have id: "handle_id buf = Some (Inl HandleMalformed) \<or>
      (\<exists>i. handle_id buf = Some (Inr i) \<and> slice_get buf 1 17 = Some (PacketId_as_bytes i))"
  proof (cases "slice_get buf 1 17")
    case (Some bs)
    then obtain i where i: "PacketId_from_slice bs = Some i" by (rule decode_id)
    with Some PacketId_from_slice_SomeD [OF i] show ?thesis
      by (simp add: handle_id_def del: One_nat_def)
  qed (simp add: handle_id_def)
  have "\<exists>r rb' w'. handle_part rb l buf send w = Some (r, rb', w') \<and> same_env w w'" for l
  proof (cases "slice_get buf 17 21")
    case None
    then show ?thesis by (simp add: handle_part_def)
  next
    case (Some sb)
    then obtain s where s: "u32_from_le_bytes sb = Some s" by (rule decode_seq_index)
    obtain payload where pl: "slice_from buf 21 = Some payload"
      using Some by (auto simp: slice_get_def slice_from_def split: if_splits)
    from id show ?thesis
    proof
      assume "handle_id buf = Some (Inl HandleMalformed)"
      with Some s pl show ?thesis by (simp add: handle_part_def)
    next
      assume "\<exists>i. handle_id buf = Some (Inr i) \<and> slice_get buf 1 17 = Some (PacketId_as_bytes i)"
      then obtain i where i: "handle_id buf = Some (Inr i)"
        "slice_get buf 1 17 = Some (PacketId_as_bytes i)" by blast
      have "in_window rb i s"
        using win i(2) Some u32_from_le_bytes_SomeD [OF s] by (simp add: datagram_in_window_def)
      from receive_total [OF w rb this, of l payload] obtain r rb' w' where
        "ReceivePacketBuffer_receive rb l i s payload send w = Some (r, rb', w')" "same_env w w'"
        by blast
      with Some s pl i(1) show ?thesis by (cases r) (auto simp: handle_part_def)
    qed
  qed
  with id show ?thesis
    by (auto simp: ReceivePacketBuffer_handle_def ReceivePacketBuffer_done_def
        split: list.split option.split)
qed

end

end
