(* ===== verification/Packet_Buffers.thy ===== *)
theory Packet_Buffers
  imports Send_Buffer Receive_Buffer
begin

text \<open>
  \<open>PacketBuffers\<close> of \<^verbatim>\<open>packet.rs\<close>: the send and the receive buffer of one connection, and the
  dispatch of an incoming datagram to them.
\<close>

section \<open>The program\<close>

record PacketBuffers =
  pbs_send_buffer :: SendPacketBuffer
  pbs_receive_buffer :: ReceivePacketBuffer

datatype PacketHandling =
    HandlingReceived ReceivedPacket
  | HandlingDone bool
  | HandlingAck bool

definition PacketBuffers_new :: "NonZeroBatchSize \<Rightarrow> PacketBuffers" where
  "PacketBuffers_new initial_send_batch_size =
     \<lparr>pbs_send_buffer = SendPacketBuffer_new initial_send_batch_size,
      pbs_receive_buffer = ReceivePacketBuffer_default\<rparr>"

definition PacketBuffers_send ::
    "PacketBuffers \<Rightarrow> u8 list list \<Rightarrow> usize \<Rightarrow> socket \<Rightarrow> world
      \<Rightarrow> (PacketId io_result \<times> PacketBuffers \<times> world) option" where
  "PacketBuffers_send self packet background_serialization_threshold socket w = do {
     (r, send_buffer, w) \<leftarrow> SendPacketBuffer_send (pbs_send_buffer self) packet
       background_serialization_threshold socket w;
     Some (r, self\<lparr>pbs_send_buffer := send_buffer\<rparr>, w)
   }"

definition PacketBuffers_send_pending ::
    "PacketBuffers \<Rightarrow> Duration \<Rightarrow> socket \<Rightarrow> world
      \<Rightarrow> (unit io_result \<times> PacketBuffers \<times> world) option" where
  "PacketBuffers_send_pending self resend_delay socket w = do {
     (r, send_buffer, w) \<leftarrow>
       SendPacketBuffer_send_pending (pbs_send_buffer self) resend_delay socket w;
     Some (r, self\<lparr>pbs_send_buffer := send_buffer\<rparr>, w)
   }"

definition PacketBuffers_timeout_packets ::
    "PacketBuffers \<Rightarrow> usize option \<Rightarrow> Duration option \<Rightarrow> world
      \<Rightarrow> (PacketBuffers \<times> world) option" where
  "PacketBuffers_timeout_packets self max_missed_acks receive_timeout w = do {
     self \<leftarrow> (case max_missed_acks of
        None \<Rightarrow> Some self
      | Some max_missed_acks \<Rightarrow> do {
          sb \<leftarrow> SendPacketBuffer_timeout_packets (pbs_send_buffer self) max_missed_acks;
          Some (self\<lparr>pbs_send_buffer := sb\<rparr>)
        });
     (case receive_timeout of
        None \<Rightarrow> Some (self, w)
      | Some receive_timeout \<Rightarrow> do {
          (rb, w) \<leftarrow>
            ReceivePacketBuffer_timeout_packets (pbs_receive_buffer self) receive_timeout w;
          Some (self\<lparr>pbs_receive_buffer := rb\<rparr>, w)
        })
   }"

definition PacketBuffers_update ::
    "PacketBuffers \<Rightarrow> Duration \<Rightarrow> usize option \<Rightarrow> Duration option \<Rightarrow> socket \<Rightarrow> world
      \<Rightarrow> (unit io_result \<times> PacketBuffers \<times> world) option" where
  "PacketBuffers_update self resend_delay max_missed_acks receive_timeout socket w = do {
     (self, w) \<leftarrow> PacketBuffers_timeout_packets self max_missed_acks receive_timeout w;
     PacketBuffers_send_pending self resend_delay socket w
   }"

definition PacketBuffers_handle ::
    "PacketBuffers \<Rightarrow> u8 list \<Rightarrow> socket \<Rightarrow> world
      \<Rightarrow> ((HandlePacketError + PacketHandling) \<times> PacketBuffers \<times> world) option" where
  "PacketBuffers_handle self buf socket w =
     (if buf = [] then Some (Inl HandleEmpty, self, w)
      else do {
        (r, rb, w) \<leftarrow> ReceivePacketBuffer_handle (pbs_receive_buffer self) buf socket w;
        let self = self\<lparr>pbs_receive_buffer := rb\<rparr>;
        (case r of
           Inl error \<Rightarrow> Some (Inl error, self, w)
         | Inr (ReceivedAck received) \<Rightarrow> Some (Inr (HandlingReceived received), self, w)
         | Inr (ReceivedDone known_packet) \<Rightarrow> Some (Inr (HandlingDone known_packet), self, w)
         | Inr ReceivedUnhandled \<Rightarrow> do {
             (r, sb) \<leftarrow> SendPacketBuffer_handle (pbs_send_buffer self) buf;
             let self = self\<lparr>pbs_send_buffer := sb\<rparr>;
             (case r of
                Inl error \<Rightarrow> Some (Inl error, self, w)
              | Inr (SentAck duplicate) \<Rightarrow> Some (Inr (HandlingAck duplicate), self, w)
              | Inr SentUnhandled \<Rightarrow> Some (Inl (HandleUnexpectedKind (hd buf)), self, w))
           })
      })"

section \<open>Well-formedness\<close>

definition buffers_wf :: "PacketBuffers \<Rightarrow> bool" where
  "buffers_wf pb \<longleftrightarrow> send_wf (pbs_send_buffer pb) \<and> recv_wf (pbs_receive_buffer pb)"

lemma PacketBuffers_new_wf [wf_intros]: "n \<noteq> 0 \<Longrightarrow> buffers_wf (PacketBuffers_new n)"
  by (simp add: buffers_wf_def PacketBuffers_new_def SendPacketBuffer_new_wf recv_wf_def
      ReceivePacketBuffer_default_def btree.invar_empty)

lemma case_handling_eq_Some:
  "(case h of ReceivedAck x \<Rightarrow> f x | ReceivedDone k \<Rightarrow> g k | ReceivedUnhandled \<Rightarrow> u) = Some y \<longleftrightarrow>
     (\<exists>x. h = ReceivedAck x \<and> f x = Some y) \<or> (\<exists>k. h = ReceivedDone k \<and> g k = Some y) \<or>
     (h = ReceivedUnhandled \<and> u = Some y)"
  "(case s of SentAck d \<Rightarrow> a d | SentUnhandled \<Rightarrow> v) = Some y \<longleftrightarrow>
     (\<exists>d. s = SentAck d \<and> a d = Some y) \<or> (s = SentUnhandled \<and> v = Some y)"
  by (cases h; simp) (cases s; simp)

lemma handle_changes:
  assumes "PacketBuffers_handle pb buf socket w = Some (r, pb', w')" "pb' \<noteq> pb"
  obtains rr rb where "ReceivePacketBuffer_handle (pbs_receive_buffer pb) buf socket w = Some (rr, rb, w')"
    "pb' = pb\<lparr>pbs_receive_buffer := rb\<rparr>"
  | rr rb sr sb where
    "ReceivePacketBuffer_handle (pbs_receive_buffer pb) buf socket w = Some (rr, rb, w')"
    "SendPacketBuffer_handle (pbs_send_buffer pb) buf = Some (sr, sb)"
    "pb' = pb\<lparr>pbs_receive_buffer := rb, pbs_send_buffer := sb\<rparr>"
  using assms
  by (auto simp: PacketBuffers_handle_def run_simps case_handling_eq_Some split: if_split_asm)

lemma PacketBuffers_handle_wf [wf_intros]:
  assumes "buffers_wf pb" "PacketBuffers_handle pb buf socket w = Some (r, pb', w')"
  shows "buffers_wf pb'"
proof (cases "pb' = pb")
  case True
  with assms(1) show ?thesis by simp
next
  case False
  have wf: "send_wf (pbs_send_buffer pb)" "recv_wf (pbs_receive_buffer pb)"
    using assms(1) by (simp_all add: buffers_wf_def)
  from assms(2) False show ?thesis
  proof (rule handle_changes)
    fix rr rb
    assume "ReceivePacketBuffer_handle (pbs_receive_buffer pb) buf socket w = Some (rr, rb, w')"
      "pb' = pb\<lparr>pbs_receive_buffer := rb\<rparr>"
    with wf handle_wf [OF wf(2)] show ?thesis by (simp add: buffers_wf_def)
  next
    fix rr rb sr sb
    assume "ReceivePacketBuffer_handle (pbs_receive_buffer pb) buf socket w = Some (rr, rb, w')"
      "SendPacketBuffer_handle (pbs_send_buffer pb) buf = Some (sr, sb)"
      "pb' = pb\<lparr>pbs_receive_buffer := rb, pbs_send_buffer := sb\<rparr>"
    with handle_wf [OF wf(2)] SendPacketBuffer_handle_wf [OF wf(1)] show ?thesis
      by (simp add: buffers_wf_def)
  qed
qed

section \<open>Dispatch\<close>

text \<open>Acknowledgements go to the send buffer, parts and \<open>Done\<close> to the receive buffer, and every
  other kind is refused with the state and the network untouched.\<close>

lemma handle_ack_frame:
  "PacketBuffers_handle pb (ack_bytes i s) socket w =
     (case SendPacketBuffer_ack (pbs_send_buffer pb) i s of
        (Inl kind, sb) \<Rightarrow>
          Some (Inl (HandleAck (PacketAckError i kind)), pb\<lparr>pbs_send_buffer := sb\<rparr>, w)
      | (Inr duplicate, sb) \<Rightarrow> Some (Inr (HandlingAck duplicate), pb\<lparr>pbs_send_buffer := sb\<rparr>, w))"
proof -
  obtain bs where bs: "ack_bytes i s = PacketKind_into Kind_Ack # bs"
    using ack_frame_slices(3) by blast
  have "ReceivePacketBuffer_handle rb (ack_bytes i s) socket w = Some (Inr ReceivedUnhandled, rb, w)" for rb
    by (simp add: ReceivePacketBuffer_handle_def bs)
  moreover have "ack_bytes i s \<noteq> []" by (simp add: bs)
  ultimately show ?thesis
    by (auto simp: PacketBuffers_handle_def SendPacketBuffer_handle_ack split: prod.split sum.split)
qed

lemma handle_done:
  "PacketBuffers_handle pb (done_bytes i) socket w =
     Some (Inr (HandlingDone (BTreeMap_get (rb_packets (pbs_receive_buffer pb)) i \<noteq> None)),
       pb\<lparr>pbs_receive_buffer := (pbs_receive_buffer pb)
         \<lparr>rb_packets := BTreeMap_remove i (rb_packets (pbs_receive_buffer pb))\<rparr>\<rparr>, w)"
proof -
  have "done_bytes i \<noteq> []" by (simp add: done_bytes_def)
  then show ?thesis by (simp add: PacketBuffers_handle_def handle_done_frame)
qed

lemma handle_unexpected:
  assumes "buf \<noteq> []"
    and "PacketKind_try_from (hd buf) \<in> {None, Some Kind_Version, Some Kind_Ping, Some Kind_FirstUpdate}"
  shows "PacketBuffers_handle pb buf socket w = Some (Inl (HandleUnexpectedKind (hd buf)), pb, w)"
  using assms
  by (auto simp: PacketBuffers_handle_def ReceivePacketBuffer_handle_def SendPacketBuffer_handle_def
      split: list.split)

section \<open>A packet arriving in parts\<close>

abbreviation incoming :: "PacketBuffers \<Rightarrow> PacketId \<Rightarrow> PacketIn option" where
  "incoming pb i \<equiv> BTreeMap_get (rb_packets (pbs_receive_buffer pb)) i"

text \<open>What the sender puts on the wire for part \<open>j\<close> is the frame the receiver expects.\<close>

lemma part_list_deref:
  assumes "j < length (chunks bs)" shows "PacketBuffer_deref (part_list i bs ! j) = Some (part_frame i bs j)"
proof -
  have "length (chunks bs ! j) \<le> 491" using assms by (simp add: nth_chunks)
  then show ?thesis using assms by (simp add: nth_part_list part_frame_def)
qed

lemma part_wire_frame: "j < length (chunks bs) \<Longrightarrow> part_wire (part_list i bs ! j) = part_frame i bs j"
  by (simp add: part_wire_def part_list_deref)

text \<open>The packets that a sequence of answers delivers.\<close>

definition delivered :: "(HandlePacketError + PacketHandling) list \<Rightarrow> u8 list list" where
  "delivered rs = concat (map (\<lambda>r. case r of Inr (HandlingReceived (Reassembled bs)) \<Rightarrow> [bs] | _ \<Rightarrow> []) rs)"

lemma delivered_append [simp]: "delivered (xs @ ys) = delivered xs @ delivered ys"
  by (simp add: delivered_def)

text \<open>The datagrams of a list handled one after the other.\<close>

fun handle_all ::
    "PacketBuffers \<Rightarrow> u8 list list \<Rightarrow> socket \<Rightarrow> world
      \<Rightarrow> ((HandlePacketError + PacketHandling) list \<times> PacketBuffers \<times> world) option" where
  "handle_all pb [] socket w = Some ([], pb, w)"
| "handle_all pb (buf # bufs) socket w = do {
     (r, pb, w) \<leftarrow> PacketBuffers_handle pb buf socket w;
     (rs, pb, w) \<leftarrow> handle_all pb bufs socket w;
     Some (r # rs, pb, w)
   }"

lemma part_frame_not_Nil [simp]: "part_frame i bs idx \<noteq> []"
  by (simp add: part_frame_def part_bytes_def header_def)

context nonblocking
begin

lemma ack_reliable:
  assumes "whole_datagrams w" "io_never_fails w"
  obtains w' where "ack i s send w = Some (Inr (), w')" "same_env w w'"
    "sent w' = sent w @ [(peer, ack_bytes i s)] \<or> sent w' = sent w"
proof -
  obtain r w' where s: "send (ack_bytes i s) w = Some (r, w')" "same_env w w'"
    "sent w' = (if r = Inr True then sent w @ [(peer, ack_bytes i s)] else sent w)"
    using sendE [OF assms(1)] by metis
  then show ?thesis
    using that send_no_error [OF assms(2) s(1)] by (auto simp: ack_eq)
qed

lemma handle_part_step:
  assumes w: "whole_datagrams w" "io_never_fails w" and pb: "buffers_wf pb" "receiving bs S (incoming pb i)"
    and idx: "length (chunks bs) < 2 ^ 32" "idx < length (chunks bs)"
    "idx \<notin> S \<or> length (chunks bs) < 256"
  obtains pb' w' where
    "PacketBuffers_handle pb (part_frame i bs idx) send w
      = Some (Inr (HandlingReceived (outcome bs S idx)), pb', w')"
    "same_env w w'" "buffers_wf pb'" "receiving bs (insert idx S) (incoming pb' i)"
    "\<forall>j. j \<noteq> i \<longrightarrow> incoming pb' j = incoming pb j" "pbs_send_buffer pb' = pbs_send_buffer pb"
    "sent w' = sent w @ [(peer, ack_bytes i (of_nat idx))] \<or> sent w' = sent w"
proof -
  have rb: "recv_wf (pbs_receive_buffer pb)" using pb(1) by (simp add: buffers_wf_def)
  obtain rb' t where h:
    "ReceivePacketBuffer_handle (pbs_receive_buffer pb) (part_frame i bs idx) send w
      = do { (r, w') \<leftarrow> ack i (of_nat idx) send (w\<lparr>ticks := t\<rparr>);
             Some (case r of Inl e \<Rightarrow> Inl (HandleReceive e)
                   | Inr _ \<Rightarrow> Inr (ReceivedAck (outcome bs S idx)), rb', w') }"
    "recv_wf rb'" "receiving bs (insert idx S) (BTreeMap_get (rb_packets rb') i)"
    "\<forall>j. j \<noteq> i \<longrightarrow> BTreeMap_get (rb_packets rb') j = incoming pb j"
    using handle_part_frame [OF rb pb(2) idx] by blast
  have "whole_datagrams (w\<lparr>ticks := t\<rparr>)" "io_never_fails (w\<lparr>ticks := t\<rparr>)"
    using w by (simp_all add: whole_datagrams_def io_never_fails_def)
  then obtain w' where a: "ack i (of_nat idx) send (w\<lparr>ticks := t\<rparr>) = Some (Inr (), w')"
    "same_env (w\<lparr>ticks := t\<rparr>) w'"
    "sent w' = sent (w\<lparr>ticks := t\<rparr>) @ [(peer, ack_bytes i (of_nat idx))] \<or> sent w' = sent (w\<lparr>ticks := t\<rparr>)"
    by (rule ack_reliable)
  show ?thesis
  proof (rule that [of "pb\<lparr>pbs_receive_buffer := rb'\<rparr>" w'])
    show "PacketBuffers_handle pb (part_frame i bs idx) send w
      = Some (Inr (HandlingReceived (outcome bs S idx)), pb\<lparr>pbs_receive_buffer := rb'\<rparr>, w')"
      using h(1) a(1) by (simp add: PacketBuffers_handle_def)
  qed (use a h pb(1) in \<open>simp_all add: same_env_def buffers_wf_def\<close>)
qed

text \<open>Parts in any order: each once, or as often as they like when there are fewer than 256.\<close>

lemma handle_all_parts:
  assumes "whole_datagrams w" "io_never_fails w" "buffers_wf pb" "receiving bs S (incoming pb i)"
    and "length (chunks bs) < 2 ^ 32" "set idxs \<subseteq> {..<length (chunks bs)}"
    and "(distinct idxs \<and> set idxs \<inter> S = {}) \<or> length (chunks bs) < 256"
  shows "\<exists>pb' w'. handle_all pb (map (part_frame i bs) idxs) send w
      = Some (map (Inr \<circ> HandlingReceived) (outcomes bs S idxs), pb', w') \<and>
    same_env w w' \<and> buffers_wf pb' \<and> receiving bs (S \<union> set idxs) (incoming pb' i) \<and>
    (\<forall>j. j \<noteq> i \<longrightarrow> incoming pb' j = incoming pb j) \<and> pbs_send_buffer pb' = pbs_send_buffer pb"
  using assms
proof (induction idxs arbitrary: pb S w)
  case Nil
  then show ?case by simp
next
  case (Cons idx idxs)
  have idx: "idx < length (chunks bs)" "idx \<notin> S \<or> length (chunks bs) < 256"
    using Cons.prems(6,7) by auto
  obtain pb1 w1 where s:
    "PacketBuffers_handle pb (part_frame i bs idx) send w
      = Some (Inr (HandlingReceived (outcome bs S idx)), pb1, w1)"
    "same_env w w1" "buffers_wf pb1" "receiving bs (insert idx S) (incoming pb1 i)"
    "\<forall>j. j \<noteq> i \<longrightarrow> incoming pb1 j = incoming pb j" "pbs_send_buffer pb1 = pbs_send_buffer pb"
    "sent w1 = sent w @ [(peer, ack_bytes i (of_nat idx))] \<or> sent w1 = sent w"
    by (rule handle_part_step [OF Cons.prems(1-5) idx])
  have w1: "whole_datagrams w1" "io_never_fails w1"
    using Cons.prems(1,2) same_env_whole [OF s(2)] same_env_never_fails [OF s(2)] by simp_all
  have "(distinct idxs \<and> set idxs \<inter> insert idx S = {}) \<or> length (chunks bs) < 256"
    "set idxs \<subseteq> {..<length (chunks bs)}"
    using Cons.prems(6,7) by auto
  then obtain pb' w' where IH: "handle_all pb1 (map (part_frame i bs) idxs) send w1
      = Some (map (Inr \<circ> HandlingReceived) (outcomes bs (insert idx S) idxs), pb', w')"
    "same_env w1 w'" "buffers_wf pb'" "receiving bs (insert idx S \<union> set idxs) (incoming pb' i)"
    "\<forall>j. j \<noteq> i \<longrightarrow> incoming pb' j = incoming pb1 j" "pbs_send_buffer pb' = pbs_send_buffer pb1"
    using Cons.IH [OF w1 s(3,4) Cons.prems(5)] by blast
  show ?case
    using s(1,5,6) IH same_env_trans [OF s(2) IH(2)]
    by (intro exI [of _ pb'] exI [of _ w']) (simp add: outcome_def)
qed

end

section \<open>Sending and updating\<close>

definition buffers_ok :: "PacketBuffers \<Rightarrow> bool" where
  "buffers_ok pb \<longleftrightarrow> buffers_wf pb \<and> btree_all resendable (sb_packets (pbs_send_buffer pb)) \<and>
     length (sb_packets (pbs_send_buffer pb)) < USIZE_LIMIT"

lemma buffers_ok_new [simp]: "n \<noteq> 0 \<Longrightarrow> buffers_ok (PacketBuffers_new n)"
  by (simp add: buffers_ok_def PacketBuffers_new_wf) (simp add: PacketBuffers_new_def SendPacketBuffer_new_def)

lemma PacketBuffers_timeout_packets_spec:
  "\<exists>pb' t. PacketBuffers_timeout_packets pb m d w = Some (pb', w\<lparr>ticks := t\<rparr>) \<and>
     sb_packets (pbs_send_buffer pb') =
       (case m of None \<Rightarrow> sb_packets (pbs_send_buffer pb)
        | Some n \<Rightarrow> filter (\<lambda>(i, p). po_missed_acks p \<le> n) (sb_packets (pbs_send_buffer pb))) \<and>
     sb_batch_size (pbs_send_buffer pb') = sb_batch_size (pbs_send_buffer pb) \<and>
     (recv_wf (pbs_receive_buffer pb) \<longrightarrow> recv_wf (pbs_receive_buffer pb'))"
proof -
  define pb1 where "pb1 = (case m of None \<Rightarrow> pb
    | Some n \<Rightarrow> pb\<lparr>pbs_send_buffer := (pbs_send_buffer pb)\<lparr>sb_packets :=
        filter (\<lambda>(i, p). po_missed_acks p \<le> n) (sb_packets (pbs_send_buffer pb))\<rparr>\<rparr>)"
  have pb1: "pbs_receive_buffer pb1 = pbs_receive_buffer pb"
    "sb_batch_size (pbs_send_buffer pb1) = sb_batch_size (pbs_send_buffer pb)"
    "sb_packets (pbs_send_buffer pb1) = (case m of None \<Rightarrow> sb_packets (pbs_send_buffer pb)
        | Some n \<Rightarrow> filter (\<lambda>(i, p). po_missed_acks p \<le> n) (sb_packets (pbs_send_buffer pb)))"
    by (simp_all add: pb1_def split: option.split)
  have run: "PacketBuffers_timeout_packets pb m d w = (case d of None \<Rightarrow> Some (pb1, w)
      | Some d \<Rightarrow> do { (rb, w) \<leftarrow> ReceivePacketBuffer_timeout_packets (pbs_receive_buffer pb1) d w;
                     Some (pb1\<lparr>pbs_receive_buffer := rb\<rparr>, w) })"
    by (cases m)
      (simp_all add: PacketBuffers_timeout_packets_def SendPacketBuffer_timeout_packets_eq pb1_def
        cong: option.case_cong)
  show ?thesis
  proof (cases d)
    case None
    with run pb1 show ?thesis by (intro exI [of _ pb1] exI [of _ "ticks w"]) simp
  next
    case (Some d')
    obtain m' t where "ReceivePacketBuffer_timeout_packets (pbs_receive_buffer pb1) d' w
        = Some ((pbs_receive_buffer pb1)\<lparr>rb_packets := m'\<rparr>, w\<lparr>ticks := t\<rparr>)"
      "recv_wf (pbs_receive_buffer pb1) \<longrightarrow> btree_invar m'"
      using ReceivePacketBuffer_timeout_packets_frame by blast
    with Some run pb1 show ?thesis
      by (intro exI [of _ "pb1\<lparr>pbs_receive_buffer := (pbs_receive_buffer pb1)\<lparr>rb_packets := m'\<rparr>\<rparr>"]
          exI [of _ t]) (simp add: recv_wf_def)
  qed
qed

context nonblocking
begin

lemma PacketBuffers_send_total:
  assumes "whole_datagrams w" "buffers_wf pb" "length (concat ws) \<le> 491 * 2 ^ 32"
  obtains r pb' w' k where "PacketBuffers_send pb ws t send w = Some (r, pb', w')" "same_env w w'"
    "buffers_wf pb'" "pbs_receive_buffer pb' = pbs_receive_buffer pb"
    "k \<le> unat (sb_batch_size (pbs_send_buffer pb))"
    "sent w' = sent w @ map (\<lambda>b. (peer, part_wire b))
       (take k (part_list (fst (PacketId_new w)) (concat ws)))"
    "r = Inr i \<Longrightarrow> i = fst (PacketId_new w)"
proof -
  have sb: "send_wf (pbs_send_buffer pb)" using assms(2) by (simp add: buffers_wf_def)
  obtain r sb' w' k where "SendPacketBuffer_send (pbs_send_buffer pb) ws t send w = Some (r, sb', w')"
    "same_env w w'" "send_wf sb'" "k \<le> unat (sb_batch_size (pbs_send_buffer pb))"
    "sent w' = sent w @ map (\<lambda>b. (peer, part_wire b))
       (take k (part_list (fst (PacketId_new w)) (concat ws)))"
    "case r of Inl e \<Rightarrow> sb' = pbs_send_buffer pb | Inr i \<Rightarrow> i = fst (PacketId_new w) \<and>
         (\<exists>out. sb' = (pbs_send_buffer pb)\<lparr>sb_packets := BTreeMap_insert i out (sb_packets (pbs_send_buffer pb))\<rparr>
            \<and> out_wf out \<and> pending_parts (po_packet_queue out) = part_list i (concat ws) \<and>
            po_missed_acks out = 0 \<and>
            (po_last_send out = None \<longleftrightarrow>
               k < min (unat (sb_batch_size (pbs_send_buffer pb))) (length (chunks (concat ws)))))"
    by (rule SendPacketBuffer_send_total [OF assms(1) sb assms(3)])
  with assms(2) show ?thesis
    by (intro that [of r "pb\<lparr>pbs_send_buffer := sb'\<rparr>" w' k])
      (simp_all add: PacketBuffers_send_def buffers_wf_def)
qed

text \<open>An update drops the packets with too many missed acks, and only those, before it resends.\<close>

lemma PacketBuffers_update_total:
  assumes "whole_datagrams w" "buffers_ok pb"
  obtains r pb' w' log where "PacketBuffers_update pb d m rt send w = Some (r, pb', w')" "same_env w w'"
    "buffers_wf pb'" "sent w' = sent w @ log"
    "resend_round peer
       (case m of None \<Rightarrow> sb_packets (pbs_send_buffer pb)
        | Some n \<Rightarrow> filter (\<lambda>(i, p). po_missed_acks p \<le> n) (sb_packets (pbs_send_buffer pb)))
       (sb_packets (pbs_send_buffer pb')) log"
proof -
  have pb: "btree_invar (sb_packets (pbs_send_buffer pb))" "btree_all out_wf (sb_packets (pbs_send_buffer pb))"
    "sb_batch_size (pbs_send_buffer pb) \<noteq> 0" "recv_wf (pbs_receive_buffer pb)"
    "btree_all resendable (sb_packets (pbs_send_buffer pb))"
    "length (sb_packets (pbs_send_buffer pb)) < USIZE_LIMIT"
    using assms(2) by (simp_all add: buffers_ok_def buffers_wf_def send_wf_def)
  let ?m = "case m of None \<Rightarrow> sb_packets (pbs_send_buffer pb)
        | Some n \<Rightarrow> filter (\<lambda>(i, p). po_missed_acks p \<le> n) (sb_packets (pbs_send_buffer pb))"
  obtain pb1 t where pb1: "PacketBuffers_timeout_packets pb m rt w = Some (pb1, w\<lparr>ticks := t\<rparr>)"
    "sb_packets (pbs_send_buffer pb1) = ?m"
    "sb_batch_size (pbs_send_buffer pb1) = sb_batch_size (pbs_send_buffer pb)"
    "recv_wf (pbs_receive_buffer pb1)"
    using PacketBuffers_timeout_packets_spec [of pb m rt w] pb(4) by blast
  have m: "btree_invar ?m" "btree_all out_wf ?m" "btree_all resendable ?m" "length ?m < USIZE_LIMIT"
    using pb by (auto split: option.split intro: wf_intros le_less_trans [OF length_filter_le])
  have wf: "send_wf (pbs_send_buffer pb1)" "btree_all resendable (sb_packets (pbs_send_buffer pb1))"
    "length (sb_packets (pbs_send_buffer pb1)) < USIZE_LIMIT"
    using m pb1(2,3) pb(3) by (simp_all add: send_wf_def)
  have ww: "whole_datagrams (w\<lparr>ticks := t\<rparr>)" using assms(1) by (simp add: whole_datagrams_def)
  obtain r sb' w' log where s:
    "SendPacketBuffer_send_pending (pbs_send_buffer pb1) d send (w\<lparr>ticks := t\<rparr>) = Some (r, sb', w')"
    "same_env (w\<lparr>ticks := t\<rparr>) w'" "send_wf sb'" "sent w' = sent (w\<lparr>ticks := t\<rparr>) @ log"
    "resend_round peer (sb_packets (pbs_send_buffer pb1)) (sb_packets sb') log"
    by (rule SendPacketBuffer_send_pending_total [OF ww wf])
  show ?thesis
    using s pb1 by (intro that [of r "pb1\<lparr>pbs_send_buffer := sb'\<rparr>" w' log])
      (simp_all add: PacketBuffers_update_def PacketBuffers_send_pending_def buffers_wf_def same_env_def)
qed

end

end
