(* ===== verification/Buffers_Wf.thy ===== *)
theory Buffers_Wf
  imports Packet_Buffers
begin

text \<open>
  Every operation of the packet buffers that does not panic keeps them well-formed, whatever the
  network answers. These are the laws the server and the client rely on.
\<close>

section \<open>The contract of packet buffers\<close>

text \<open>What a connection promises its owner: the invariant is kept by sending a packet that can be
  numbered, by an update and by handling any datagram.\<close>

locale connection =
  fixes invar :: "'b \<Rightarrow> bool"
    and send_packet :: "'b \<Rightarrow> u8 list list \<Rightarrow> usize \<Rightarrow> socket \<Rightarrow> world
      \<Rightarrow> (PacketId io_result \<times> 'b \<times> world) option"
    and update :: "'b \<Rightarrow> Duration \<Rightarrow> usize option \<Rightarrow> Duration option \<Rightarrow> socket \<Rightarrow> world
      \<Rightarrow> (unit io_result \<times> 'b \<times> world) option"
    and handle :: "'b \<Rightarrow> u8 list \<Rightarrow> socket \<Rightarrow> world
      \<Rightarrow> ((HandlePacketError + PacketHandling) \<times> 'b \<times> world) option"
  assumes send_invar: "invar b \<Longrightarrow> length (concat ws) \<le> 491 * 2 ^ 32 \<Longrightarrow>
      send_packet b ws t s w = Some (r, b', w') \<Longrightarrow> invar b'"
    and update_invar: "invar b \<Longrightarrow> update b d m rt s w = Some (ru, b', w') \<Longrightarrow> invar b'"
    and handle_invar: "invar b \<Longrightarrow> handle b buf s w = Some (rh, b', w') \<Longrightarrow> invar b'"
begin

text \<open>The answer to a datagram: handle it, then send a packet.\<close>

lemma handle_send_invar:
  assumes "invar b" "handle b buf s w = Some (rh, b', w')"
    and "length (concat ws) \<le> 491 * 2 ^ 32" "send_packet b' ws t s' w'' = Some (r, b'', w3)"
  shows "invar b''"
  using assms handle_invar send_invar by blast

end

section \<open>Each operation\<close>

lemma PacketQueue_send_unacked_queue:
  "PacketQueue_send_unacked q n socket w = Some (r, q', w') \<Longrightarrow> q' = PacketQueue_fill q (unat n)"
  by (auto simp: PacketQueue_send_unacked_def PacketQueue_unacked_def run_simps)

lemma PacketOut_send_wf [wf_intros]:
  assumes "PacketOut_send p socket n w = Some (Inr out, w')" "n \<noteq> 0"
    and "\<forall>b \<in> set (SerializedPacket_parts p). \<not> pb_acked b \<and> PacketBuffer_deref b \<noteq> None"
  shows "out_wf out"
  using assms PacketQueue_fill_wf [OF PacketQueue_new_wf [OF assms(3)]]
  by (auto simp: PacketOut_send_def out_wf_def run_simps Instant_now_def
      dest!: PacketQueue_send_unacked_queue split: if_split_asm)

lemma PacketOut_send_pending_wf [wf_intros]:
  assumes "PacketOut_send_pending p i d socket w = Some (r, p', w')" "out_wf p"
  shows "out_wf p'"
  using assms PacketQueue_fill_wf
  by (auto simp: PacketOut_send_pending_def out_wf_def run_simps Instant_now_def Instant_elapsed_def
      balance_batch_size_nonzero dest!: PacketQueue_send_unacked_queue split: if_split_asm)

lemma BTreeMap_retain_all:
  assumes "BTreeMap_retain f m s = Some (m', s')" "btree_all P m"
    and "\<And>k v s keep v' s'. P v \<Longrightarrow> f k v s = Some (keep, v', s') \<Longrightarrow> P v'"
  shows "btree_all P m'"
  using assms(1,2)
proof (induction m arbitrary: s m')
  case Nil
  then show ?case by simp
next
  case (Cons e m)
  obtain k v where e: "e = (k, v)" by (cases e)
  with Cons.prems obtain keep v' s1 m1 where
    f: "f k v s = Some (keep, v', s1)" "P v" "btree_all P m"
    and r: "BTreeMap_retain f m s1 = Some (m1, s')" "m' = (if keep then (k, v') # m1 else m1)"
    by (auto simp: run_simps)
  with Cons.IH [OF r(1) f(3)] assms(3) [OF f(2,1)] show ?case by simp
qed

lemma send_pending_closure_wf:
  "out_wf p \<Longrightarrow> send_pending_closure d socket i p s = Some (keep, p', s') \<Longrightarrow> out_wf p'"
  by (cases s) (auto simp: run_simps intro: PacketOut_send_pending_wf)

lemma SendPacketBuffer_send_pending_wf [wf_intros]:
  assumes "SendPacketBuffer_send_pending sb d socket w = Some (r, sb', w')" "send_wf sb"
  shows "send_wf sb'"
proof -
  obtain m bs c r' w2 where m:
    "BTreeMap_retain (send_pending_closure d socket) (sb_packets sb) (0, 0, Inr (), w)
      = Some (m, bs, c, r', w2)"
    and sb': "sb_packets sb' = m" "sb_batch_size sb' = sb_batch_size sb \<or> sb_batch_size sb' \<noteq> 0"
    using assms(1)
    by (auto simp: SendPacketBuffer_send_pending_def run_simps nonzero_or_min_def split: if_split_asm)
  have "btree_all out_wf m"
    using BTreeMap_retain_all [OF m] send_pending_closure_wf assms(2) by (simp add: send_wf_def)
  with BTreeMap_retain_invar [OF m] assms(2) sb' show ?thesis by (auto simp: send_wf_def)
qed

lemma SendPacketBuffer_send_wf [wf_intros]:
  assumes "SendPacketBuffer_send sb ws t socket w = Some (r, sb', w')" "send_wf sb"
    and "length (concat ws) \<le> 491 * 2 ^ 32"
  shows "send_wf sb'"
proof (cases "sb' = sb")
  case True
  with assms(2) show ?thesis by simp
next
  case False
  obtain i w1 where i: "PacketId_new w = (i, w1)" by (cases "PacketId_new w")
  obtain p where p: "serialize_packet i t ws = Some p"
    "SerializedPacket_parts p = part_list i (concat ws)"
    using serialize_packet_parts [OF assms(3)] .
  from assms(1) False obtain out w2 where out:
    "PacketOut_send p socket (sb_batch_size sb) w1 = Some (Inr out, w2)"
    "sb' = sb\<lparr>sb_packets := BTreeMap_insert i out (sb_packets sb)\<rparr>"
    by (auto simp: SendPacketBuffer_send_def i p(1) run_simps)
  have "out_wf out"
    using PacketOut_send_wf [OF out(1)] part_list_sendable assms(2) by (simp add: p(2) send_wf_def)
  with out(2) assms(2) show ?thesis
    by (simp add: send_wf_def btree.invar_insert btree_all_insert)
qed

lemma PacketBuffers_send_wf [wf_intros]:
  assumes "PacketBuffers_send pb ws t socket w = Some (r, pb', w')" "buffers_wf pb"
    and "length (concat ws) \<le> 491 * 2 ^ 32"
  shows "buffers_wf pb'"
  using assms SendPacketBuffer_send_wf
  by (auto simp: PacketBuffers_send_def buffers_wf_def run_simps)

lemma PacketBuffers_timeout_packets_wf [wf_intros]:
  assumes "PacketBuffers_timeout_packets pb m d w = Some (pb', w')" "buffers_wf pb"
  shows "buffers_wf pb'"
proof -
  from PacketBuffers_timeout_packets_spec [of pb m d w] assms(1) have
    "sb_packets (pbs_send_buffer pb') =
       (case m of None \<Rightarrow> sb_packets (pbs_send_buffer pb)
        | Some n \<Rightarrow> filter (\<lambda>(i, p). po_missed_acks p \<le> n) (sb_packets (pbs_send_buffer pb)))"
    "sb_batch_size (pbs_send_buffer pb') = sb_batch_size (pbs_send_buffer pb)"
    "recv_wf (pbs_receive_buffer pb) \<longrightarrow> recv_wf (pbs_receive_buffer pb')"
    by auto
  with assms(2) show ?thesis
    by (auto simp: buffers_wf_def send_wf_def split: option.split intro: wf_intros)
qed

lemma PacketBuffers_update_wf [wf_intros]:
  assumes "PacketBuffers_update pb d m rt socket w = Some (r, pb', w')" "buffers_wf pb"
  shows "buffers_wf pb'"
proof -
  from assms(1) obtain pb1 w1 sb where
    "PacketBuffers_timeout_packets pb m rt w = Some (pb1, w1)"
    "SendPacketBuffer_send_pending (pbs_send_buffer pb1) d socket w1 = Some (r, sb, w')"
    "pb' = pb1\<lparr>pbs_send_buffer := sb\<rparr>"
    by (auto simp: PacketBuffers_update_def PacketBuffers_send_pending_def run_simps)
  with PacketBuffers_timeout_packets_wf [OF _ assms(2)] SendPacketBuffer_send_pending_wf
  show ?thesis by (auto simp: buffers_wf_def)
qed

section \<open>Handling any datagram\<close>

text \<open>The buffers can take this datagram: no part of it lies below the window of its packet.\<close>

definition buffers_safe :: "PacketBuffers \<Rightarrow> u8 list \<Rightarrow> bool" where
  "buffers_safe pb buf \<longleftrightarrow> btree_all entry_ok (rb_packets (pbs_receive_buffer pb)) \<and>
     datagram_in_window (pbs_receive_buffer pb) buf"

lemma buffers_safe_new [simp]: "buffers_safe (PacketBuffers_new n) buf"
  by (simp add: buffers_safe_def PacketBuffers_new_def ReceivePacketBuffer_default_def
      datagram_in_window_def in_window_def BTreeMap_get_def)

context nonblocking
begin

lemma PacketBuffers_handle_total:
  assumes "whole_datagrams w" "buffers_safe pb buf"
  shows "\<exists>r pb' w'. PacketBuffers_handle pb buf send w = Some (r, pb', w') \<and> same_env w w'"
proof -
  obtain r rb w' where "ReceivePacketBuffer_handle (pbs_receive_buffer pb) buf send w = Some (r, rb, w')"
    "same_env w w'"
    using handle_total [OF assms(1)] assms(2) unfolding buffers_safe_def by blast
  moreover obtain sr sb where "SendPacketBuffer_handle (pbs_send_buffer pb) buf = Some (sr, sb)"
    using SendPacketBuffer_handle_total by blast
  ultimately show ?thesis
    by (auto simp: PacketBuffers_handle_def Let_def split: sum.split ReceivedPacketHandling.split
        SentPacketHandling.split)
qed

end

interpretation buffers: connection buffers_wf PacketBuffers_send PacketBuffers_update PacketBuffers_handle
  by unfold_locales
    (blast intro: PacketBuffers_send_wf PacketBuffers_update_wf PacketBuffers_handle_wf)+

end
