(* ===== verification/Single_Part.thy ===== *)
theory Single_Part
  imports Buffers_Wf
begin

text \<open>
  The life of a packet that fits into one datagram, on a network that takes every datagram: what
  sending it, receiving it, and its acknowledgement do to any well-formed packet buffers.
\<close>

definition network_up :: "world \<Rightarrow> bool" where
  "network_up w \<longleftrightarrow> (\<forall>k a buf. send_to w k a buf = Inr (length buf))"

lemma udp_up:
  "network_up w \<Longrightarrow> udp a buf w
     = Some (Inr True, w\<lparr>sends := Suc (sends w), sent := sent w @ [(a, buf)]\<rparr>)"
  by (simp add: network_up_def NonBlockingUdpSocket_send_def NonBlockingUdpSocket_new_def
      UdpSocket_send_to_def Let_def)

lemma network_up_updates [simp]:
  "network_up (w\<lparr>ticks := n\<rparr>) = network_up w" "network_up (w\<lparr>uuids_drawn := n\<rparr>) = network_up w"
  "network_up (w\<lparr>sends := n\<rparr>) = network_up w" "network_up (w\<lparr>sent := l\<rparr>) = network_up w"
  by (simp_all add: network_up_def)

lemma network_up_ok: "network_up w \<Longrightarrow> whole_datagrams w" "network_up w \<Longrightarrow> io_never_fails w"
  by (simp_all add: network_up_def whole_datagrams_def io_never_fails_def)

section \<open>Sending\<close>

text \<open>A queue with one part left, and a packet that consists of it, sent once at time \<open>t\<close>.\<close>

definition single_queue :: "PacketBuffer \<Rightarrow> PacketQueue \<Rightarrow> bool" where
  "single_queue b q \<longleftrightarrow> pq_packets q = [b] \<and> pq_first_unacked q = 0 \<and> rx_parts q = [] \<and> \<not> pb_acked b"

definition sent_once :: "PacketQueue \<Rightarrow> Instant \<Rightarrow> NonZeroBatchSize \<Rightarrow> PacketOut" where
  "sent_once q t n = \<lparr>po_packet_queue = q, po_last_send = Some t, po_missed_acks = 0,
     po_batch_size = n, po_last_batch_size = 1, po_last_batch_acks = 0\<rparr>"

abbreviation outgoing :: "PacketBuffers \<Rightarrow> PacketId \<Rightarrow> PacketOut option" where
  "outgoing pb \<equiv> BTreeMap_get (sb_packets (pbs_send_buffer pb))"

abbreviation with_outgoing :: "PacketBuffers \<Rightarrow> PacketId \<Rightarrow> PacketOut \<Rightarrow> PacketBuffers" where
  "with_outgoing pb i out \<equiv> pb\<lparr>pbs_send_buffer := (pbs_send_buffer pb)\<lparr>sb_packets :=
     BTreeMap_insert i out (sb_packets (pbs_send_buffer pb))\<rparr>\<rparr>"

lemma fill_single:
  assumes "SerializedPacket_parts p = [b]" "\<not> pb_acked b" "0 < n"
  shows "single_queue b (PacketQueue_fill (PacketQueue_new p) n)"
  using assms
  by (cases p) (auto simp: SerializedPacket_parts_def PacketQueue_new_def PacketQueue_fill_def single_queue_def
      rx_parts_def Let_def split: option.splits)

lemma send_single:
  assumes up: "network_up w" and n: "sb_batch_size (pbs_send_buffer pb) \<noteq> 0" and bs: "length (concat ws) \<le> 491"
    and i: "i = fst (PacketId_new w)"
  obtains q where "single_queue (part_buffer Kind_LastPart i 0 (concat ws)) q"
    "PacketBuffers_send pb ws t (udp a) w = Some (Inr i,
       with_outgoing pb i (sent_once q (clock w (ticks w)) (sb_batch_size (pbs_send_buffer pb))),
       w\<lparr>uuids_drawn := Suc (uuids_drawn w), ticks := Suc (ticks w), sends := Suc (sends w),
         sent := sent w @ [(a, part_frame i (concat ws) 0)]\<rparr>)"
proof -
  let ?b = "part_buffer Kind_LastPart i 0 (concat ws)" and ?w = "w\<lparr>uuids_drawn := Suc (uuids_drawn w)\<rparr>"
  let ?n = "sb_batch_size (pbs_send_buffer pb)"
  have c: "chunks (concat ws) = [concat ws]" using bs by (rule chunks_small)
  obtain p where p: "serialize_packet i t ws = Some p" "SerializedPacket_parts p = part_list i (concat ws)"
    by (rule serialize_packet_parts [of ws i t]) (use bs in simp)
  have parts: "SerializedPacket_parts p = [?b]" by (simp add: p(2) part_list_def c)
  have n': "0 < unat ?n" using n by (simp add: unat_gt_0)
  let ?q = "PacketQueue_fill (PacketQueue_new p) (unat ?n)"
  have q: "single_queue ?b ?q" using fill_single [OF parts] n' by simp
  have new: "PacketId_new w = (i, ?w)" using i by (simp add: PacketId_new_def Uuid_new_v4_def)
  have frame: "PacketBuffer_deref ?b = Some (part_frame i (concat ws) 0)"
    using bs by (simp add: part_frame_def c)
  have "send_items [Some (part_frame i (concat ws) 0)] 0 (udp a) ?w = Some (Inr (1, True),
      ?w\<lparr>sends := Suc (sends w), sent := sent w @ [(a, part_frame i (concat ws) 0)]\<rparr>)"
    using up by (simp add: udp_up u16_add_def)
  moreover have "take (unat ?n) (map PacketBuffer_deref (filter (\<lambda>p. \<not> pb_acked p) (pq_packets ?q)))
      = [Some (part_frame i (concat ws) 0)]"
    using q n' by (cases "unat ?n") (simp_all add: single_queue_def frame)
  ultimately have "PacketQueue_send_unacked (PacketQueue_new p) ?n (udp a) ?w = Some (Inr (1, True), ?q,
      ?w\<lparr>sends := Suc (sends w), sent := sent w @ [(a, part_frame i (concat ws) 0)]\<rparr>)"
    by (simp add: PacketQueue_send_unacked_def PacketQueue_unacked_def Let_def del: send_items.simps)
  with q show ?thesis
    by (intro that [of ?q])
      (simp_all add: PacketBuffers_send_def SendPacketBuffer_send_def new p(1) PacketOut_send_def
        Instant_now_def sent_once_def Let_def)
qed

section \<open>Acknowledgement and Done\<close>

lemma ack_single:
  assumes "single_queue b q"
  obtains q' where "PacketQueue_ack q 0 = (Inr False, q')" "pq_packets q' = []" "rx_parts q' = []"
proof -
  have q: "unat (0 :: u32) < length (pq_packets q)" "\<not> pb_acked (pq_packets q ! unat (0 :: u32))"
    using assms by (simp_all add: single_queue_def)
  from ack_fresh [OF q] show ?thesis
    using that assms by (simp add: single_queue_def mark_def rx_parts_def)
qed

text \<open>What the acknowledgement leaves of the packet.\<close>

definition acked_once :: "PacketQueue \<Rightarrow> Instant \<Rightarrow> NonZeroBatchSize \<Rightarrow> PacketOut" where
  "acked_once q t n = (sent_once q t n)\<lparr>po_last_batch_acks := u16_saturating_add 0 1\<rparr>"

lemma handle_single_ack:
  assumes "outgoing pb i = Some (sent_once q t n)" "single_queue b q"
  obtains q' where "pq_packets q' = []" "rx_parts q' = []"
    "PacketBuffers_handle pb (ack_bytes i 0) socket w
       = Some (Inr (HandlingAck False), with_outgoing pb i (acked_once q' t n), w)"
proof -
  obtain q' where q': "PacketQueue_ack q 0 = (Inr False, q')" "pq_packets q' = []" "rx_parts q' = []"
    by (rule ack_single [OF assms(2)])
  have "PacketOut_ack (sent_once q t n) 0 = (Inr False, acked_once q' t n)"
    by (simp add: PacketOut_ack_def sent_once_def acked_once_def q'(1))
  with assms(1) q' show ?thesis
    by (intro that [of q']) (simp_all add: handle_ack_frame SendPacketBuffer_ack_def)
qed

lemma send_pending_empty:
  assumes "network_up w" "pq_packets (po_packet_queue p) = []" "rx_parts (po_packet_queue p) = []"
    and "po_last_send p = Some t" "t + d \<le> clock w (ticks w)"
  shows "\<exists>p'. PacketOut_send_pending p i d (udp a) w = Some (Inr True, p',
    w\<lparr>ticks := Suc (ticks w), sends := Suc (sends w), sent := sent w @ [(a, done_bytes i)]\<rparr>)"
proof -
  let ?w = "w\<lparr>ticks := Suc (ticks w)\<rparr>"
  have fill: "pq_packets (PacketQueue_fill (po_packet_queue p) n) = []" for n
    using assms(2,3) by (auto simp: PacketQueue_fill_def rx_parts_def Let_def split: option.splits)
  have items: "PacketQueue_send_unacked (po_packet_queue p) n (udp a) ?w
      = Some (Inr (0, True), PacketQueue_fill (po_packet_queue p) (unat n), ?w)" for n
    by (simp add: PacketQueue_send_unacked_def PacketQueue_unacked_def fill Let_def)
  have "\<not> clock w (ticks w) - t < d" using assms(5) by simp
  from send_pending_due_eq [OF assms(4) this items, of i] show ?thesis
    using assms(1) by (simp add: Let_def done_frame_send_eq udp_up)
qed

text \<open>Buffers whose only packet has no part left: the first resend that is due announces \<open>Done\<close>.\<close>

lemma drained_done:
  assumes "network_up w" "pq_packets (po_packet_queue p) = []" "rx_parts (po_packet_queue p) = []"
    and "po_last_send p = Some t" "t + d \<le> clock w (ticks w)" "sb_packets (pbs_send_buffer pb) = [(i, p)]"
  obtains pb' w' where "PacketBuffers_send_pending pb d (udp a) w = Some (Inr (), pb', w')"
    "sent w' = sent w @ [(a, done_bytes i)]" "sb_packets (pbs_send_buffer pb') = []"
proof -
  let ?w = "w\<lparr>ticks := Suc (ticks w), sends := Suc (sends w), sent := sent w @ [(a, done_bytes i)]\<rparr>"
  obtain p' where "PacketOut_send_pending p i d (udp a) w = Some (Inr True, p', ?w)"
    using send_pending_empty [OF assms(1-5)] by blast
  then obtain pb' where "PacketBuffers_send_pending pb d (udp a) w = Some (Inr (), pb', ?w)"
    "sb_packets (pbs_send_buffer pb') = []"
    by (simp add: PacketBuffers_send_pending_def SendPacketBuffer_send_pending_def usize_add_def assms(6) Let_def)
  then show ?thesis using that by simp
qed

section \<open>Receiving\<close>

text \<open>The receiver's side of a packet in one datagram: delivery, acknowledgement, and \<open>Done\<close>.\<close>

lemma receive_single_frame:
  assumes "network_up w" "length bs \<le> 491" "recv_wf (pbs_receive_buffer pb)" "incoming pb i = None"
  obtains rb t where "PacketBuffers_handle pb (part_frame i bs 0) (udp a) w
      = Some (Inr (HandlingReceived (Reassembled bs)), pb\<lparr>pbs_receive_buffer := rb\<rparr>,
          w\<lparr>ticks := t, sends := Suc (sends w), sent := sent w @ [(a, ack_bytes i 0)]\<rparr>)"
    "recv_wf rb" "BTreeMap_get (rb_packets rb) i \<noteq> None"
    "\<And>j. j \<noteq> i \<Longrightarrow> BTreeMap_get (rb_packets rb) j = incoming pb j"
proof -
  have c: "chunks bs = [bs]" using assms(2) by (rule chunks_small)
  have "receiving bs {} (incoming pb i)" using assms(4) by (simp add: receiving_def)
  then obtain rb t where rb: "ReceivePacketBuffer_handle (pbs_receive_buffer pb) (part_frame i bs 0) (udp a) w
      = do { (r, w') \<leftarrow> ack i (of_nat 0) (udp a) (w\<lparr>ticks := t\<rparr>);
             Some (case r of Inl e \<Rightarrow> Inl (HandleReceive e)
                   | Inr _ \<Rightarrow> Inr (ReceivedAck (outcome bs {} 0)), rb, w') }"
    "recv_wf rb" "receiving bs {0} (BTreeMap_get (rb_packets rb) i)"
    "\<forall>j. j \<noteq> i \<longrightarrow> BTreeMap_get (rb_packets rb) j = incoming pb j"
    using handle_part_frame [of "pbs_receive_buffer pb" bs "{}" i 0 "udp a" w] assms(3) by (auto simp: c)
  have o: "outcome bs {} 0 = Reassembled bs" by (simp add: outcome_def c lessThan_Suc)
  have "PacketBuffers_handle pb (part_frame i bs 0) (udp a) w
      = Some (Inr (HandlingReceived (Reassembled bs)), pb\<lparr>pbs_receive_buffer := rb\<rparr>,
          w\<lparr>ticks := t, sends := Suc (sends w), sent := sent w @ [(a, ack_bytes i 0)]\<rparr>)"
    using rb(1) assms(1) by (simp add: PacketBuffers_handle_def ack_eq udp_up o)
  moreover have "BTreeMap_get (rb_packets rb) i \<noteq> None" using rb(3) by (auto simp: receiving_def split: option.split_asm)
  ultimately show ?thesis using that rb(2,4) by blast
qed

lemma done_forgets:
  assumes "recv_wf (pbs_receive_buffer pb)" "incoming pb i \<noteq> None"
  shows "\<exists>pb'. PacketBuffers_handle pb (done_bytes i) s w = Some (Inr (HandlingDone True), pb', w) \<and> incoming pb' i = None"
  using assms handle_done [of pb i s w] by (auto simp: recv_wf_def btree.get_remove)

end
