(* ===== verification/Resends.thy ===== *)
theory Resends
  imports Single_Part
begin

text \<open>
  A packet that is never acknowledged, on a network that takes every datagram: every resend that is
  due sends again, half as many parts as the one before, and counts the batch before as missed.
\<close>

lemma send_items_up:
  assumes "send_items items c (udp a) w = Some (r, w')" "network_up w"
  shows "\<exists>n. r = Inr (n, True)"
  using assms
proof (induction items arbitrary: c w)
  case (Cons x xs)
  then show ?case by (auto simp: bind_eq_Some_conv udp_up)
qed auto

lemma saturating_sub_zero: "u16_saturating_sub n 0 = n"
  by (simp add: u16_saturating_sub_def)

text \<open>A packet of which nothing has been acked since its last batch, which was not empty.\<close>

definition unanswered :: "PacketOut \<Rightarrow> bool" where
  "unanswered p \<longleftrightarrow> out_wf p \<and> pending_parts (po_packet_queue p) \<noteq> [] \<and>
     po_last_batch_acks p = 0 \<and> po_last_batch_size p \<noteq> 0"

lemma resend_unanswered:
  assumes "network_up w" "unanswered p" "po_missed_acks p + 65535 < USIZE_LIMIT"
    and "po_last_send p = Some t" "t + d \<le> clock w (ticks w)"
  obtains p' w' where "PacketOut_send_pending p i d (udp a) w = Some (Inr False, p', w')" "unanswered p'"
    "po_missed_acks p' = po_missed_acks p + unat (po_last_batch_size p)"
    "po_last_send p' = Some (clock w (Suc (ticks w)))"
    "same_env w w'" "ticks w' = Suc (Suc (ticks w))"
    "unat (po_batch_size p') = max 1 (unat (po_batch_size p) div 2)"
    "pending_parts (po_packet_queue p') = pending_parts (po_packet_queue p)"
    "sent w' = sent w @ map (\<lambda>b. (a, part_wire b)) (take (unat (po_batch_size p')) (pending_parts (po_packet_queue p)))"
proof -
  let ?w = "w\<lparr>ticks := Suc (ticks w)\<rparr>" and ?q = "po_packet_queue p"
  let ?n = "balance_batch_size (po_batch_size p) (po_last_batch_acks p) (po_last_batch_size p)"
  have w: "whole_datagrams ?w" "network_up ?w" using assms(1) network_up_ok(1) [of ?w] by simp_all
  have q: "queue_wf ?q" and p: "pending_parts ?q \<noteq> []" "po_last_batch_acks p = 0" "po_last_batch_size p \<noteq> 0"
    using assms(2) by (simp_all add: unanswered_def out_wf_def)
  obtain r w' k where s: "PacketQueue_send_unacked ?q ?n (udp a) ?w = Some (r, PacketQueue_fill ?q (unat ?n), w')"
    "same_env ?w w'" "ticks w' = ticks ?w"
    "sent w' = sent ?w @ map (\<lambda>b. (a, part_wire b)) (take k (pending_parts ?q))"
    "case r of Inl e \<Rightarrow> k < min (unat ?n) (length (pending_parts ?q))
     | Inr (c, all) \<Rightarrow> unat c = k \<and> (all \<longleftrightarrow> k = min (unat ?n) (length (pending_parts ?q)))"
    by (rule udp.send_unacked_prefix [OF w(1) q])
  from s(1) obtain items where "send_items items 0 (udp a) ?w = Some (r, w')"
    by (auto simp: PacketQueue_send_unacked_def bind_eq_Some_conv split: prod.split_asm)
  from send_items_up [OF this w(2)] obtain c where r: "r = Inr (c, True)" by blast
  have "0 < unat ?n" using balance_batch_size_nonzero by (simp add: unat_gt_0)
  then have c: "c \<noteq> 0" using s(5) p(1) by (auto simp: r min_def split: if_split_asm)
  have k: "take k (pending_parts ?q) = take (unat ?n) (pending_parts ?q)" using s(5) by (simp add: r min_def)
  have half: "unat ?n = max 1 (unat (po_batch_size p) div 2)" using p(2,3) unat_gt_0 [of "po_last_batch_size p"] by (simp add: unat_balance_batch_size)
  let ?p = "p\<lparr>po_batch_size := ?n, po_packet_queue := PacketQueue_fill ?q (unat ?n),
    po_missed_acks := po_missed_acks p + unat (po_last_batch_size p), po_last_batch_size := c,
    po_last_batch_acks := 0, po_last_send := Some (clock w' (ticks w'))\<rparr>"
  have "unat (po_last_batch_size p) \<le> 65535" using unat_u16_less [of "po_last_batch_size p"] by linarith
  then have m: "usize_add (po_missed_acks p) (unat (u16_saturating_sub (po_last_batch_size p) (po_last_batch_acks p)))
      = Some (po_missed_acks p + unat (po_last_batch_size p))"
    using assms(3) by (simp add: usize_add_def p(2) saturating_sub_zero)
  have "\<not> clock w (ticks w) - t < d" using assms(5) by simp
  note run = send_pending_due_eq [OF assms(4) this s(1), of i]
  have env: "clock w' = clock w" "same_env w (w'\<lparr>ticks := Suc (ticks w')\<rparr>)" using s(2) by (simp_all add: same_env_def)
  show ?thesis
  proof (rule that)
    show "PacketOut_send_pending p i d (udp a) w = Some (Inr False, ?p, w'\<lparr>ticks := Suc (ticks w')\<rparr>)"
      using run r c m by simp
    show "unanswered ?p"
      using PacketQueue_fill_wf [OF q] PacketQueue_fill_pending [OF q] p(1) c
      by (simp add: unanswered_def out_wf_def balance_batch_size_nonzero)
  qed (use s(3,4) env k half PacketQueue_fill_pending [OF q] in simp_all)
qed

text \<open>Resends of one packet, one after the other.\<close>

fun resends :: "nat \<Rightarrow> PacketId \<Rightarrow> Duration \<Rightarrow> SocketAddr \<Rightarrow> PacketOut \<Rightarrow> world
      \<Rightarrow> (bool io_result list \<times> PacketOut \<times> world) option" where
  "resends 0 i d a p w = Some ([], p, w)"
| "resends (Suc n) i d a p w = do {
     (r, p, w) \<leftarrow> PacketOut_send_pending p i d (udp a) w;
     (rs, p, w) \<leftarrow> resends n i d a p w;
     Some (r # rs, p, w)
   }"

text \<open>What \<open>n\<close> resends of the parts \<open>ps\<close> put on the wire, starting from the batch size \<open>b\<close>.\<close>

definition backoff_wires :: "SocketAddr \<Rightarrow> nat \<Rightarrow> PacketBuffer list \<Rightarrow> nat \<Rightarrow> (SocketAddr \<times> u8 list) list" where
  "backoff_wires a b ps n = concat (map (\<lambda>j. map (\<lambda>x. (a, part_wire x)) (take (max 1 (b div 2 ^ Suc j)) ps)) [0..<n])"

lemma halve_again: "max 1 (max 1 (b div 2) div 2 ^ Suc j) = max 1 (b div 2 ^ Suc (Suc j))" for b :: nat
proof (cases "b div 2 = 0")
  case True
  then show ?thesis by (simp add: div_mult2_eq)
next
  case False
  then have "max 1 (b div 2) = b div 2" by simp
  then show ?thesis by (simp only: power_Suc [of 2 "Suc j"] div_mult2_eq)
qed

lemma backoff_wires_simps:
  "backoff_wires a b ps 0 = []"
  "backoff_wires a b ps (Suc n) = map (\<lambda>x. (a, part_wire x)) (take (max 1 (b div 2)) ps) @ backoff_wires a (max 1 (b div 2)) ps n"
  unfolding backoff_wires_def map_upt_Suc halve_again by simp_all

lemma resends_unanswered:
  assumes "network_up w" "\<forall>k. clock w k + d \<le> clock w (Suc k)"
    and "unanswered p" "po_last_send p = Some t" "t + d \<le> clock w (ticks w)"
    and "po_missed_acks p + n * 65535 < USIZE_LIMIT"
  shows "\<exists>p' w'. resends n i d a p w = Some (replicate n (Inr False), p', w') \<and> po_missed_acks p + n \<le> po_missed_acks p' \<and>
    sent w' = sent w @ backoff_wires a (unat (po_batch_size p)) (pending_parts (po_packet_queue p)) n"
  using assms
proof (induction n arbitrary: p w t)
  case 0
  then show ?case by (simp add: backoff_wires_simps)
next
  case (Suc n)
  have lim: "po_missed_acks p + 65535 < USIZE_LIMIT" using Suc.prems(6) by simp
  obtain p1 w1 where s: "PacketOut_send_pending p i d (udp a) w = Some (Inr False, p1, w1)" "unanswered p1"
    "po_missed_acks p1 = po_missed_acks p + unat (po_last_batch_size p)"
    "po_last_send p1 = Some (clock w (Suc (ticks w)))" "same_env w w1" "ticks w1 = Suc (Suc (ticks w))"
    and log: "unat (po_batch_size p1) = max 1 (unat (po_batch_size p) div 2)"
    "pending_parts (po_packet_queue p1) = pending_parts (po_packet_queue p)"
    "sent w1 = sent w @ map (\<lambda>b. (a, part_wire b)) (take (unat (po_batch_size p1)) (pending_parts (po_packet_queue p)))"
    by (rule resend_unanswered [OF Suc.prems(1,3) lim Suc.prems(4,5)])
  have w1: "network_up w1" "clock w1 = clock w" using s(5) Suc.prems(1) by (simp_all add: same_env_def network_up_def)
  have grows: "1 \<le> unat (po_last_batch_size p)" using Suc.prems(3) by (simp add: unanswered_def Suc_le_eq unat_gt_0)
  have small: "unat (po_last_batch_size p) \<le> 65535" using unat_u16_less [of "po_last_batch_size p"] by linarith
  have "\<forall>k. clock w1 k + d \<le> clock w1 (Suc k)" "clock w (Suc (ticks w)) + d \<le> clock w1 (ticks w1)"
    using Suc.prems(2) s(6) by (simp_all add: w1(2))
  moreover have "po_missed_acks p1 + n * 65535 < USIZE_LIMIT" using Suc.prems(6) small s(3) by simp
  ultimately obtain p' w' where "resends n i d a p1 w1 = Some (replicate n (Inr False), p', w')"
    "po_missed_acks p1 + n \<le> po_missed_acks p'"
    "sent w' = sent w1 @ backoff_wires a (unat (po_batch_size p1)) (pending_parts (po_packet_queue p1)) n"
    using Suc.IH [OF w1(1) _ s(2,4)] by blast
  with s(1,3) grows log show ?case by (simp add: backoff_wires_simps)
qed

end
