(* ===== verification/Transition.thy ===== *)
theory Transition
  imports Main
begin

text \<open>
  Transition systems: a step relation with an invariant. Server and client are both presented this
  way; what holds of a step carries over to every sequence of steps.
\<close>

locale transition_system =
  fixes step :: "'s \<Rightarrow> 's \<Rightarrow> bool" and invar :: "'s \<Rightarrow> bool"
  assumes step_invar: "step s s' \<Longrightarrow> invar s \<Longrightarrow> invar s'"
begin

lemma steps_invar: "step\<^sup>*\<^sup>* s s' \<Longrightarrow> invar s \<Longrightarrow> invar s'"
  by (induction rule: rtranclp_induct) (auto intro: step_invar)

text \<open>A run of an operation in rounds: it suffices to look at one round in a state where the
  invariant holds.\<close>

lemma steps_extend:
  assumes "invar s" "step\<^sup>*\<^sup>* s t" "invar t \<Longrightarrow> step\<^sup>*\<^sup>* t u"
  shows "step\<^sup>*\<^sup>* s u" "invar u"
proof -
  have "invar t" using steps_invar assms(1,2) by blast
  with assms show "step\<^sup>*\<^sup>* s u" by (blast intro: rtranclp_trans)
  then show "invar u" using steps_invar assms(1) by blast
qed

text \<open>An observation that every step changes along a relation \<open>R\<close> is changed along \<open>R\<^sup>*\<^sup>*\<close>.\<close>

lemma steps_observe:
  assumes "step\<^sup>*\<^sup>* s s'" "invar s" "\<And>s s'. step s s' \<Longrightarrow> invar s \<Longrightarrow> R\<^sup>*\<^sup>* (obs s) (obs s')"
  shows "R\<^sup>*\<^sup>* (obs s) (obs s')"
  using assms(1)
proof (induction rule: rtranclp_induct)
  case (step t u)
  have "invar t" using step.hyps(1) assms(2) steps_invar by blast
  with step assms(3) show ?case by (blast intro: rtranclp_trans)
qed simp

end

lemma steps1: "step s t \<Longrightarrow> step\<^sup>*\<^sup>* s t"
  by blast

lemma steps2: "step s t \<Longrightarrow> step t u \<Longrightarrow> step\<^sup>*\<^sup>* s u"
  by (meson converse_rtranclp_into_rtranclp r_into_rtranclp)

end
