(* ===== verification/Batch_Size.thy ===== *)
theory Batch_Size
  imports Buffers_Wf Transition
begin

text \<open>
  The batch size over the life of an outgoing packet: any sequence of acknowledgements, resends and
  cancellations, with any socket and any clock, as a transition system that counts the resends.
\<close>

inductive out_step :: "nat \<times> PacketOut \<Rightarrow> nat \<times> PacketOut \<Rightarrow> bool" where
  ack: "out_step (k, p) (k, snd (PacketOut_ack p s))"
| cancel: "out_step (k, p) (k, PacketOut_cancel p)"
| resend: "PacketOut_send_pending p i d socket w = Some (r, p', w') \<Longrightarrow> out_step (k, p) (Suc k, p')"

text \<open>A batch is counted without overflow and is not longer than asked for.\<close>

lemma send_items_count:
  assumes "send_items items c socket w = Some (Inr (c', ok), w')"
  shows "unat c' \<le> unat c + length items"
  using assms
proof (induction items arbitrary: c w)
  case (Cons x xs)
  then obtain w1 c1 where "c' = c \<or> u16_add c 1 = Some c1 \<and> send_items xs c1 socket w1 = Some (Inr (c', ok), w')"
    by (auto simp: run_simps split: if_split_asm)
  moreover have "unat c1 \<le> unat c + 1" if "u16_add c 1 = Some c1"
    using that by (auto simp: u16_add_def unat_word_ariths split: if_split_asm)
  ultimately show ?case using Cons.IH by fastforce
qed simp

lemma send_unacked_count:
  assumes "PacketQueue_send_unacked q n socket w = Some (Inr (c, ok), q', w')" shows "unat c \<le> unat n"
  using assms
  by (auto simp: PacketQueue_send_unacked_def PacketQueue_unacked_def Let_def bind_eq_Some_conv dest!: send_items_count)

text \<open>After \<open>k\<close> resends the batch size has at most doubled, and at most halved, with each of them. The
  last batch is not bounded by the current size: a resend that failed with an I/O error has changed
  the size, but the last batch is still the one before.\<close>

definition batch_invar :: "NonZeroBatchSize \<Rightarrow> nat \<times> PacketOut \<Rightarrow> bool" where
  "batch_invar n kp \<longleftrightarrow> (case kp of (k, p) \<Rightarrow>
     1 \<le> unat (po_batch_size p) \<and> unat n div 2 ^ k \<le> unat (po_batch_size p) \<and>
     unat (po_batch_size p) \<le> unat n * 2 ^ k \<and> unat (po_last_batch_size p) \<le> unat n * 2 ^ k)"

lemma balance_invar:
  assumes "batch_invar n (k, p)" "n \<noteq> 0"
  defines "b \<equiv> balance_batch_size (po_batch_size p) (po_last_batch_acks p) (po_last_batch_size p)"
  shows "1 \<le> unat b" "unat n div 2 ^ Suc k \<le> unat b" "unat b \<le> unat n * 2 ^ Suc k"
proof -
  have p: "1 \<le> unat (po_batch_size p)" "unat n div 2 ^ k \<le> unat (po_batch_size p)"
    "unat (po_batch_size p) \<le> unat n * 2 ^ k" "unat (po_last_batch_size p) \<le> unat n * 2 ^ k"
    using assms(1) by (simp_all add: batch_invar_def)
  have "0 < unat n" using assms(2) by (simp add: unat_gt_0)
  then have n: "1 \<le> unat n * 2 ^ k" by (simp add: Suc_le_eq)
  have half: "unat n div 2 ^ Suc k = unat n div 2 ^ k div 2" by (metis div_mult2_eq power_Suc2)
  show "1 \<le> unat b" "unat n div 2 ^ Suc k \<le> unat b" "unat b \<le> unat n * 2 ^ Suc k"
    unfolding b_def unat_balance_batch_size half using p n by auto
qed

lemma out_step_batch:
  assumes "n \<noteq> 0" "out_step s s'" "batch_invar n s" shows "batch_invar n s'"
  using assms(2,3)
proof (induction rule: out_step.induct)
  case (ack k p s)
  have "po_batch_size (snd (PacketOut_ack p s)) = po_batch_size p"
    "po_last_batch_size (snd (PacketOut_ack p s)) = po_last_batch_size p"
    by (auto simp: PacketOut_ack_def Let_def split: prod.split sum.split)
  with ack show ?case by (simp add: batch_invar_def)
next
  case (cancel k p)
  then show ?case by (simp add: batch_invar_def PacketOut_cancel_def)
next
  case (resend p i d socket w r p' w' k)
  let ?b = "balance_batch_size (po_batch_size p) (po_last_batch_acks p) (po_last_batch_size p)"
  note b = balance_invar [OF resend.prems assms(1)]
  have "po_batch_size p' = po_batch_size p \<and> po_last_batch_size p' = po_last_batch_size p \<or>
      po_batch_size p' = ?b \<and> (po_last_batch_size p' = po_last_batch_size p \<or> unat (po_last_batch_size p') \<le> unat ?b)"
    using resend.hyps
    by (auto simp: PacketOut_send_pending_def run_simps Instant_now_def Instant_elapsed_def
        dest: send_unacked_count split: if_split_asm)
  moreover have "unat n div 2 ^ Suc k \<le> unat n div 2 ^ k" by (simp add: div_le_mono2)
  ultimately show ?case using resend.prems b by (auto simp: batch_invar_def)
qed

interpretation batch: transition_system out_step "\<lambda>s. n \<noteq> 0 \<longrightarrow> batch_invar n s" for n
  by unfold_locales (use out_step_batch in blast)

lemma batch_invar_start:
  assumes "PacketOut_send packet socket n w = Some (Inr p, w')" "n \<noteq> 0"
  shows "batch_invar n (0, p)"
proof -
  have "po_batch_size p = n" "unat (po_last_batch_size p) \<le> unat n"
    using assms(1) by (auto simp: PacketOut_send_def run_simps Instant_now_def dest!: send_unacked_count split: if_split_asm)
  moreover have "0 < unat n" using assms(2) by (simp add: unat_gt_0)
  ultimately show ?thesis by (simp add: batch_invar_def)
qed

end
