(* ===== verification/Example_World.thy ===== *)
theory Example_World
  imports Packet_Buffers
begin

text \<open>
  A concrete environment at which the theorems are instantiated: a clock that counts its readings,
  UUIDs in order, and a network that takes every datagram; and one that refuses every datagram.
\<close>

definition good_world :: world where
  "good_world = \<lparr>clock = id, ticks = 0, uuid_source = of_nat, uuids_drawn = 0,
     send_to = (\<lambda>_ _ buf. Inr (length buf)), sends = 0, sent = []\<rparr>"

definition failing_world :: "io_error \<Rightarrow> world" where
  "failing_world e = good_world\<lparr>send_to := (\<lambda>_ _ _. Inl e)\<rparr>"

definition peer_addr :: SocketAddr where
  "peer_addr = V4 0x7F000001 4242"

definition other_addr :: SocketAddr where
  "other_addr = V4 0x7F000001 4243"

lemma good_world_whole [simp]: "whole_datagrams good_world"
  by (simp add: whole_datagrams_def good_world_def)

lemma good_world_never_fails [simp]: "io_never_fails good_world"
  by (simp add: io_never_fails_def good_world_def)

lemma failing_world_whole [simp]: "whole_datagrams (failing_world e)"
  by (simp add: whole_datagrams_def failing_world_def)

lemma udp_good_world:
  "send_to w = send_to good_world \<Longrightarrow>
     udp a buf w = Some (Inr True, w\<lparr>sends := Suc (sends w), sent := sent w @ [(a, buf)]\<rparr>)"
  by (simp add: NonBlockingUdpSocket_send_def NonBlockingUdpSocket_new_def UdpSocket_send_to_def
      good_world_def Let_def)

lemma other_addr_neq [simp]: "other_addr \<noteq> peer_addr" "peer_addr \<noteq> other_addr"
  by (simp_all add: other_addr_def peer_addr_def)

end
