(* ===== verification/Packet_Theorems.thy ===== *)
theory Packet_Theorems
  imports Resends Batch_Size Example_World
begin

text \<open>
  The properties of the packet layer: serialization, reassembly, acknowledgements, sending and
  resending, and the packet buffers of one connection.
\<close>

section \<open>Packet buffers\<close>

text \<open>The array of a buffer has 512 bytes, and its length stays within it.\<close>

definition packet_buffer_ok :: "PacketBuffer \<Rightarrow> bool" where
  "packet_buffer_ok b \<longleftrightarrow> length (pb_data b) = PACKET_BUFFER_SIZE \<and> unat (pb_len b) \<le> PACKET_BUFFER_SIZE"

lemma packet_buffer_ok_deref:
  "packet_buffer_ok b \<Longrightarrow> PacketBuffer_deref b = Some (take (unat (pb_len b)) (pb_data b))"
  by (simp add: packet_buffer_ok_def PacketBuffer_deref_def slice_get_def)

lemma packet_buffer_ok_append:
  assumes "packet_buffer_ok b"
  obtains b' where "PacketBuffer_append b d = Some (drop (512 - unat (pb_len b)) d, b')" "packet_buffer_ok b'"
    "PacketBuffer_deref b' = Some (take (unat (pb_len b)) (pb_data b) @ take (512 - unat (pb_len b)) d)"
proof -
  let ?e = "unat (pb_len b)" let ?n = "min (length d) (512 - ?e)"
  have b: "?e \<le> 512" "length (pb_data b) = 512" "map_option length (PacketBuffer_deref b) = Some ?e"
    using assms packet_buffer_ok_deref [OF assms] by (simp_all add: packet_buffer_ok_def)
  let ?b = "b\<lparr>pb_data := take ?e (pb_data b) @ take ?n d @ drop (?e + ?n) (pb_data b), pb_len := of_nat (?e + ?n)\<rparr>"
  have l: "unat (of_nat (?e + ?n) :: u16) = ?e + ?n" using b(1) by (simp del: of_nat_add)
  have "PacketBuffer_append b d = Some (drop ?n d, ?b)" by (rule append_compute [OF b(3,1,2) refl])
  moreover have "drop ?n d = drop (512 - ?e) d" "take ?n d = take (512 - ?e) d" by (simp_all add: min_def)
  moreover have ok: "packet_buffer_ok ?b" using b(1,2) l by (simp add: packet_buffer_ok_def del: of_nat_add)
  moreover have "PacketBuffer_deref ?b = Some (take ?e (pb_data b) @ take ?n d)"
    using b(1,2) l by (simp add: packet_buffer_ok_deref [OF ok] del: of_nat_add)
  ultimately show ?thesis using that by simp
qed

lemma packet_buffer_ok_skip:
  assumes "packet_buffer_ok b"
  obtains b' where "PacketBuffer_skip b d = Some (drop (512 - unat (pb_len b)) d, b')" "packet_buffer_ok b'"
    "pb_data b' = pb_data b" "unat (pb_len b') = min 512 (unat (pb_len b) + length d)"
proof -
  let ?n = "min (length d) (512 - unat (pb_len b))"
  have b: "unat (pb_len b) \<le> 512" "length (pb_data b) = 512" using assms by (simp_all add: packet_buffer_ok_def)
  have e: "unat (pb_len b) + ?n = min 512 (unat (pb_len b) + length d)" using b(1) by arith
  have l: "unat (of_nat (unat (pb_len b) + ?n) :: u16) = unat (pb_len b) + ?n" using b(1) by (simp del: of_nat_add)
  have "PacketBuffer_skip b d = Some (drop ?n d, b\<lparr>pb_len := of_nat (unat (pb_len b) + ?n)\<rparr>)"
    using b by (simp add: PacketBuffer_skip_def packet_buffer_ok_deref [OF assms] usize_sub_def Let_def min_absorb2)
  moreover have "drop ?n d = drop (512 - unat (pb_len b)) d" by (simp add: min_def)
  ultimately show ?thesis
    using that b l e by (simp add: packet_buffer_ok_def del: of_nat_add)
qed

lemma packet_buffer_ok_inc:
  assumes "length (pb_data b) = 512" "unat (pb_len b) \<le> 512" "PacketBuffer_inc_seq_index b = Some b'"
  shows "packet_buffer_ok b' \<and> pb_len b' = pb_len b"
  using assms
  by (auto simp: PacketBuffer_inc_seq_index_def packet_buffer_ok_def copy_into_def bind_eq_Some_conv split: if_split_asm)

text \<open>C20. The type invariant of a packet buffer: \<open>new\<close> establishes it, every operation keeps it, and
  on such a buffer \<open>deref\<close>, \<open>append\<close>, \<open>skip\<close>, \<open>copy\<close> and \<open>mark_last\<close> cannot panic. Appending takes as
  much of the data as there is space for, returns the rest and changes nothing before it; \<open>next\<close> and
  \<open>new_next\<close> leave a buffer of which only the header is in use, and \<open>next\<close> only after a full one.\<close>

theorem packet_buffer_type:
  assumes "packet_buffer_ok b"
  shows "(\<exists>b'. PacketBuffer_new i = Some b' \<and> packet_buffer_ok b') \<and>
    PacketBuffer_deref b = Some (take (unat (pb_len b)) (pb_data b)) \<and>
    (\<exists>b'. PacketBuffer_append b d = Some (drop (512 - unat (pb_len b)) d, b') \<and> packet_buffer_ok b' \<and>
       PacketBuffer_deref b' = Some (take (unat (pb_len b)) (pb_data b) @ take (512 - unat (pb_len b)) d)) \<and>
    (\<exists>b'. PacketBuffer_skip b d = Some (drop (512 - unat (pb_len b)) d, b') \<and> packet_buffer_ok b' \<and>
       pb_data b' = pb_data b \<and> unat (pb_len b') = min 512 (unat (pb_len b) + length d)) \<and>
    (\<exists>b'. PacketBuffer_copy b = Some b' \<and> packet_buffer_ok b' \<and> \<not> pb_acked b' \<and>
       PacketBuffer_deref b' = PacketBuffer_deref b) \<and>
    (\<exists>b'. PacketBuffer_mark_last b = Some b' \<and> packet_buffer_ok b' \<and> pb_len b' = pb_len b) \<and>
    (\<forall>b'. PacketBuffer_next b = Some b' \<longrightarrow> packet_buffer_ok b' \<and> unat (pb_len b) = 512 \<and> unat (pb_len b') = 21) \<and>
    (\<forall>b'. PacketBuffer_new_next b = Some b' \<longrightarrow> packet_buffer_ok b' \<and> unat (pb_len b') = 21)"
proof (intro conjI allI impI)
  have b: "length (pb_data b) = 512" "unat (pb_len b) \<le> 512" using assms by (simp_all add: packet_buffer_ok_def)
  show "\<exists>b'. PacketBuffer_new i = Some b' \<and> packet_buffer_ok b'"
    by (simp add: packet_buffer_ok_def part_buffer_def)
  show deref: "PacketBuffer_deref b = Some (take (unat (pb_len b)) (pb_data b))" using assms by (rule packet_buffer_ok_deref)
  show "\<exists>b'. PacketBuffer_append b d = Some (drop (512 - unat (pb_len b)) d, b') \<and> packet_buffer_ok b' \<and>
       PacketBuffer_deref b' = Some (take (unat (pb_len b)) (pb_data b) @ take (512 - unat (pb_len b)) d)"
    using packet_buffer_ok_append [OF assms] by blast
  show "\<exists>b'. PacketBuffer_skip b d = Some (drop (512 - unat (pb_len b)) d, b') \<and> packet_buffer_ok b' \<and>
       pb_data b' = pb_data b \<and> unat (pb_len b') = min 512 (unat (pb_len b) + length d)"
    using packet_buffer_ok_skip [OF assms] by blast
  show "\<exists>b'. PacketBuffer_copy b = Some b' \<and> packet_buffer_ok b' \<and> \<not> pb_acked b' \<and>
       PacketBuffer_deref b' = PacketBuffer_deref b"
    using b by (simp add: PacketBuffer_copy_def slice_get_def copy_into_def packet_buffer_ok_def PacketBuffer_deref_def Let_def)
  show "\<exists>b'. PacketBuffer_mark_last b = Some b' \<and> packet_buffer_ok b' \<and> pb_len b' = pb_len b"
    using b by (simp add: PacketBuffer_mark_last_def index_set_def packet_buffer_ok_def)
next
  fix b' assume "PacketBuffer_next b = Some b'"
  then have n: "unat (pb_len b) = 512" "PacketBuffer_inc_seq_index (b\<lparr>pb_len := 21\<rparr>) = Some b'"
    by (auto simp: PacketBuffer_next_def bind_eq_Some_conv split: if_split_asm)
  then have "packet_buffer_ok b' \<and> unat (pb_len b') = 21"
    using packet_buffer_ok_inc [OF _ _ n(2)] assms by (simp add: packet_buffer_ok_def)
  with n(1) show "packet_buffer_ok b'" "unat (pb_len b) = 512" "unat (pb_len b') = 21" by simp_all
next
  fix b' assume "PacketBuffer_new_next b = Some b'"
  then obtain d where n: "PacketBuffer_inc_seq_index \<lparr>pb_acked = False, pb_len = 21, pb_data = d\<rparr> = Some b'" "length d = 512"
    by (auto simp: PacketBuffer_new_next_def bind_eq_Some_conv copy_into_def Let_def split: if_split_asm)
  then show "packet_buffer_ok b'" "unat (pb_len b') = 21" using packet_buffer_ok_inc [OF _ _ n(1)] by simp_all
qed

theorem packet_buffer_type_witness:
  "packet_buffer_ok \<lparr>pb_acked = True, pb_len = 510, pb_data = replicate 512 0\<rparr> \<and>
   (\<exists>b'. PacketBuffer_append \<lparr>pb_acked = True, pb_len = 510, pb_data = replicate 512 0\<rparr> [1, 2, 3] = Some ([3], b') \<and>
      packet_buffer_ok b')"
proof -
  have ok: "packet_buffer_ok \<lparr>pb_acked = True, pb_len = 510, pb_data = replicate 512 0\<rparr>"
    by (simp add: packet_buffer_ok_def)
  from packet_buffer_type [OF ok, of "PacketId 7" "[1, 2, 3]"] ok show ?thesis by auto
qed

section \<open>Serialization\<close>

text \<open>C2. Serializing a value yields its numbered parts, whatever the background threshold: the
  byte stream cut every 491 bytes, each piece in a buffer with kind, id and sequence index, the
  last one marked. The vector route and the background-thread route agree, and neither of them
  panics, for every payload whose parts a 32-bit sequence index can number.\<close>

theorem serialize_packet_correct:
  assumes "length (concat ws) \<le> 491 * 2 ^ 32"
  shows "map_option SerializedPacket_parts (serialize_packet i t ws) = Some (part_list i (concat ws))"
  by (rule serialize_packet_parts [OF assms, of i t]) simp

theorem serialize_packet_correct_witness:
  "map_option SerializedPacket_parts (serialize_packet (PacketId 7) 1 [[1, 2], [3]])
     = Some [part_buffer Kind_LastPart (PacketId 7) 0 [1, 2, 3]]"
proof -
  have "length (concat [[1, 2], [3 :: u8]]) \<le> 491 * 2 ^ 32" by simp
  from serialize_packet_correct [OF this, of "PacketId 7" 1] show ?thesis
    by (simp add: part_list_def chunks_small)
qed

text \<open>The background thread picks up after the parts that were serialized before it started,
  and when the receiver of its channel is dropped after taking some parts it stops without a
  panic, having handed over exactly that prefix of the parts.\<close>

lemma serialize_thread_prefix:
  assumes "t < length (chunks (concat ws))" "length (concat ws) \<le> 491 * 2 ^ 32"
  shows "serialize_thread i (open_parts i (take t (chunks (concat ws)))) ws (Some n)
    = Some (take n (part_list i (concat ws)))"
  using serialize_thread_parts [OF assms, of i "Some n"] by (simp add: cut_def)

section \<open>Reassembly\<close>

text \<open>All parts of a packet, delivered once each in any order, are reassembled: every part
  but the one delivered last answers \<open>Pending\<close>, and that one delivers exactly the payload. No
  delivery panics.\<close>

lemma reassemble_any_order:
  assumes "length (chunks bs) < 2 ^ 32" "distinct idxs" "set idxs = {..<length (chunks bs)}"
  shows "map_option fst (deliver_all bs idxs ReassembledPacket_new)
    = Some (replicate (length idxs - 1) Pending @ [Reassembled bs])"
proof -
  have "{..<length (chunks bs)} \<noteq> {}" by (simp add: lessThan_empty_iff)
  then have "idxs \<noteq> []" using assms(3) by (metis empty_set)
  then have "outcomes bs {} idxs = replicate (length idxs - 1) Pending @ [Reassembled bs]"
    using assms by (intro outcomes_distinct) auto
  with deliver_all_distinct [OF reassembling_new, of idxs bs] assms show ?thesis by auto
qed

text \<open>A packet of fewer than 256 parts survives repetition: whatever order its parts arrive
  in and however often each of them does, nothing panics, the payload is delivered exactly once,
  and every other answer is \<open>Pending\<close> or \<open>Duplicate\<close>.\<close>

lemma reassemble_with_duplicates:
  assumes "length (chunks bs) < 256" "set idxs = {..<length (chunks bs)}"
  shows "map_option (filter (\<lambda>r. r \<noteq> Pending \<and> r \<noteq> Duplicate) \<circ> fst)
      (deliver_all bs idxs ReassembledPacket_new) = Some [Reassembled bs]"
proof -
  have "{..<length (chunks bs)} \<noteq> {}" by (simp add: lessThan_empty_iff)
  then have "{} \<subset> {..<length (chunks bs)}" by blast
  with outcomes_once [of idxs bs "{}"] assms(2)
  have "filter (\<lambda>r. r \<noteq> Pending \<and> r \<noteq> Duplicate) (outcomes bs {} idxs) = [Reassembled bs]" by simp
  with deliver_all_small [OF reassembling_new, of idxs bs] assms show ?thesis by auto
qed

text \<open>Parts that no honest sender produced, with any index, payload and last-part mark: a part
  at or above \<open>first_pending\<close> is taken without a panic or an overflow of the counter, and marks
  exactly its own chunk as seen.\<close>

lemma receive_arbitrary_part:
  assumes "count_ok st" "unat (rp_first_pending st) \<le> unat s" "card (chunks_seen st) + 1 < 2 ^ 32"
  shows "\<exists>r st'. ReassembledPacket_receive st is_last s p = Some (r, st') \<and> count_ok st' \<and>
    chunks_seen st' = insert (unat s) (chunks_seen st)"
  using receive_no_panic [OF assms] by metis

section \<open>Acknowledgements\<close>

lemma ack_nonzero_front:
  assumes "pq_packets q = p # ps" "\<not> pb_acked p" "s \<noteq> 0"
  shows "\<exists>ps'. pq_packets (snd (PacketQueue_ack q s)) = p # ps' \<and>
    pq_first_unacked (snd (PacketQueue_ack q s)) = pq_first_unacked q"
proof -
  obtain k where k: "unat s = Suc k" using assms(3) by (metis not0_implies_Suc unat_eq_zero)
  then have "mark (unat s) (p # ps) = p # mark k ps" by (simp add: mark_def)
  with assms k show ?thesis
    by (cases "unat s < length (pq_packets q)"; cases "pb_acked (pq_packets q ! unat s)")
      (simp_all add: ack_cases)
qed

lemma ack_all_nonzero_front:
  assumes "pq_packets q = p # ps" "\<not> pb_acked p" "0 \<notin> set ss"
  shows "pq_first_unacked q \<in> unacked_seqs (ack_all ss q)"
  using assms
proof (induction ss arbitrary: q ps)
  case Nil
  then show ?case by (simp add: unacked_seqs_def)
next
  case (Cons s ss)
  then obtain ps' where "pq_packets (snd (PacketQueue_ack q s)) = p # ps'"
    "pq_first_unacked (snd (PacketQueue_ack q s)) = pq_first_unacked q"
    using ack_nonzero_front [OF Cons.prems(1,2), of s] by auto
  with Cons.IH [of "snd (PacketQueue_ack q s)" ps'] Cons.prems show ?case by simp
qed

text \<open>C33. When part 0 of a packet of at least two parts is acked first, the acknowledgements of part 1 are
  not recognised: part 1 stays open under any sequence of acknowledgements that are not for part 0
  again, its own included, however often they are repeated. (A repeated acknowledgement of part 0
  would be taken for part 1.)\<close>

theorem ack_first_stalls:
  assumes "pq_packets q = p0 # p1 # ps" "pq_first_unacked q = 0" "\<not> pb_acked p0" "\<not> pb_acked p1"
    and "0 \<notin> set ss"
  shows "1 \<in> unacked_seqs (ack_all (0 # ss) q)"
proof -
  let ?q = "snd (PacketQueue_ack q 0)"
  have "mark 0 (p0 # p1 # ps) = p0\<lparr>pb_acked := True\<rparr> # p1 # ps" by (simp add: mark_def)
  then have "pq_packets ?q = p1 # ps" "pq_first_unacked ?q = 1"
    using assms ack_fresh [of 0 q] by simp_all
  with ack_all_nonzero_front [of ?q p1 ps ss] assms(4,5) show ?thesis by simp
qed

theorem ack_first_stalls_witness:
  "1 \<in> unacked_seqs (ack_all [0, 1, 1, 1]
     (PacketQueue_new (SP_Vec (part_list (PacketId 7) (replicate 492 5)))))"
proof -
  let ?q = "PacketQueue_new (SP_Vec (part_list (PacketId 7) (replicate 492 5)))"
  have "chunks (replicate 492 (5::u8)) = [replicate 491 5, [5]]"
    by (subst chunks.simps) (simp add: chunks_small)
  then have q: "pq_packets ?q = [part_buffer Kind_Part (PacketId 7) 0 (replicate 491 5),
      part_buffer Kind_LastPart (PacketId 7) 1 [5]]" "pq_first_unacked ?q = 0"
    by (simp_all add: PacketQueue_new_def part_list_def open_parts_def enumerate_eq_zip)
  from ack_first_stalls [OF q, of "[1, 1, 1]"] show ?thesis by simp
qed

text \<open>When the acknowledgement of part 0 comes last, after all other parts that are open were
  acked in any order, the queue is empty: the packet is complete.\<close>

lemma ack_zero_last_completes:
  assumes "pq_packets q = p # ps" "\<not> pb_acked p" "pq_first_unacked q = 0" "0 \<notin> set ss"
    and "unacked_seqs q \<subseteq> insert 0 (unat ` set ss)"
  shows "pq_packets (ack_all (ss @ [0]) q) = []"
  by (rule ack_all_zero_last [OF assms])

section \<open>Batches\<close>

text \<open>C32. The batch size over the life of a packet that was sent with batch size \<open>n\<close>: after any sequence
  of acknowledgements, cancellations and \<open>k\<close> resends, with any socket, any clock and any I/O errors,
  it is at least 1, it has at most halved and at most doubled with each resend, and the last batch
  was not longer than that either.\<close>

theorem batch_size_bounds:
  assumes "PacketOut_send packet socket n w = Some (Inr p, w')" "n \<noteq> 0" "out_step\<^sup>*\<^sup>* (0, p) (k, q)"
  shows "max 1 (unat n div 2 ^ k) \<le> unat (po_batch_size q) \<and> unat (po_batch_size q) \<le> unat n * 2 ^ k \<and>
    unat (po_last_batch_size q) \<le> unat n * 2 ^ k"
  using batch.steps_invar [OF assms(3), of n] batch_invar_start [OF assms(1,2)] assms(2)
  by (simp add: batch_invar_def)

theorem batch_size_bounds_witness:
  "\<exists>p w' q. PacketOut_send (SP_Vec (part_list (PacketId 7) [1])) (udp peer_addr) 8 good_world = Some (Inr p, w') \<and>
     out_step\<^sup>*\<^sup>* (0, p) (1, q) \<and> 4 \<le> unat (po_batch_size q) \<and> unat (po_batch_size q) \<le> 16"
proof -
  let ?s = "SP_Vec (part_list (PacketId 7) [1])"
  have parts: "\<forall>b \<in> set (SerializedPacket_parts ?s). \<not> pb_acked b \<and> PacketBuffer_deref b \<noteq> None"
    using part_list_sendable [of "PacketId 7" "[1]"] by (simp add: SerializedPacket_parts_def)
  have eight: "(8 :: NonZeroBatchSize) \<noteq> 0" by simp
  have up: "network_up good_world" by (simp add: network_up_def good_world_def)
  obtain r w' k where s: "PacketOut_send ?s (udp peer_addr) 8 good_world = Some (r, w')" "same_env good_world w'"
    "case r of Inl e \<Rightarrow> k < length (SerializedPacket_parts ?s) | Inr out \<Rightarrow> out_wf out \<and>
       pending_parts (po_packet_queue out) = SerializedPacket_parts ?s \<and> po_missed_acks out = 0 \<and>
       unat (po_last_batch_size out) = k \<and>
       (po_last_send out = None \<longleftrightarrow> k < min (unat (8 :: NonZeroBatchSize)) (length (SerializedPacket_parts ?s)))"
    by (rule udp.PacketOut_send_total [OF good_world_whole parts eight])
  obtain p where r: "r = Inr p"
    using s(1) by (auto simp: PacketOut_send_def PacketQueue_send_unacked_def run_simps Instant_now_def split_def
        dest!: send_items_up [OF _ up] split: if_split_asm)
  have w': "whole_datagrams w'" using same_env_whole [OF s(2)] good_world_whole by simp
  have p: "out_wf p" "po_missed_acks p + 65535 < USIZE_LIMIT" using s(3) by (simp_all add: r)
  obtain r2 q w2 where "PacketOut_send_pending p (PacketId 7) 0 (udp peer_addr) w' = Some (r2, q, w2)"
    by (rule udp.send_pending_spec [OF w' p])
  then have run: "out_step\<^sup>*\<^sup>* (0, p) (1, q)" using out_step.resend [where k = 0] by fastforce
  from batch_size_bounds [OF s(1) [unfolded r] eight run] s(1) run show ?thesis unfolding r by auto
qed

section \<open>Sending and resending\<close>

text \<open>C22. Sending a packet never panics. Its first parts, at most a batch of them, go out in order;
  if the socket does not fail, all its parts are remembered under the new id as parts to be acked,
  and if it fails the buffer is left unchanged.\<close>

theorem send_remembers_all_parts:
  assumes "whole_datagrams w" "send_wf sb" "length (concat ws) \<le> 491 * 2 ^ 32"
  shows "\<exists>r sb' w' k. SendPacketBuffer_send sb ws t (udp a) w = Some (r, sb', w') \<and> send_wf sb' \<and>
    sent w' = sent w @ map (\<lambda>b. (a, part_wire b)) (take k (part_list (fst (PacketId_new w)) (concat ws))) \<and>
    k \<le> unat (sb_batch_size sb) \<and>
    (case r of
       Inl e \<Rightarrow> sb' = sb
     | Inr i \<Rightarrow> i = fst (PacketId_new w) \<and>
         (\<exists>out. BTreeMap_get (sb_packets sb') i = Some out \<and>
            pending_parts (po_packet_queue out) = part_list i (concat ws)))"
proof -
  obtain r sb' w' k where s: "SendPacketBuffer_send sb ws t (udp a) w = Some (r, sb', w')" "send_wf sb'"
    "k \<le> unat (sb_batch_size sb)"
    "sent w' = sent w @ map (\<lambda>b. (a, part_wire b)) (take k (part_list (fst (PacketId_new w)) (concat ws)))"
    "case r of
       Inl e \<Rightarrow> sb' = sb
     | Inr i \<Rightarrow> i = fst (PacketId_new w) \<and>
         (\<exists>out. sb' = sb\<lparr>sb_packets := BTreeMap_insert i out (sb_packets sb)\<rparr> \<and> out_wf out \<and>
            pending_parts (po_packet_queue out) = part_list i (concat ws) \<and>
            po_missed_acks out = 0 \<and>
            (po_last_send out = None
               \<longleftrightarrow> k < min (unat (sb_batch_size sb)) (length (chunks (concat ws)))))"
    by (rule udp.SendPacketBuffer_send_total [OF assms])
  moreover have "btree_invar (sb_packets sb)" using assms(2) by (simp add: send_wf_def)
  ultimately show ?thesis
    by (intro exI [of _ r] exI [of _ sb'] exI [of _ w'] exI [of _ k])
      (auto simp: btree.get_insert split: sum.splits)
qed

theorem send_remembers_all_parts_witness:
  "\<exists>r sb' w'. SendPacketBuffer_send (SendPacketBuffer_new 8) [[1, 2, 3]] 1 (udp peer_addr) good_world
     = Some (r, sb', w') \<and> send_wf sb'"
  using send_remembers_all_parts [OF good_world_whole SendPacketBuffer_new_wf [of 8], of "[[1, 2, 3]]" 1 peer_addr]
  by auto

text \<open>C19. One call of \<open>send_pending\<close> for a packet, in every branch: it sends a prefix of the parts
  still to be acked, at most a batch, and \<open>Done\<close> exactly when it answers \<open>true\<close>, which it does only
  for a packet that has no part left or that has no last send. No part is lost, and the count of
  missed acknowledgements does not overflow.\<close>

theorem send_pending_lossless:
  assumes "whole_datagrams w" "out_wf p" "po_missed_acks p + 65535 < USIZE_LIMIT"
  shows "\<exists>r p' w' k. PacketOut_send_pending p i d (udp a) w = Some (r, p', w') \<and> out_wf p' \<and>
    pending_parts (po_packet_queue p') = pending_parts (po_packet_queue p) \<and>
    po_missed_acks p' \<le> po_missed_acks p + 65535 \<and> k \<le> unat (po_batch_size p') \<and>
    sent w' = sent w @ map (\<lambda>b. (a, part_wire b)) (take k (pending_parts (po_packet_queue p)))
      @ (if r = Inr True then [(a, done_bytes i)] else []) \<and>
    (r = Inr True \<longrightarrow> po_last_send p = None \<and> k = 0 \<or> pending_parts (po_packet_queue p) = [])"
proof -
  obtain r p' w' k where "PacketOut_send_pending p i d (udp a) w = Some (r, p', w')"
    "resend_step a i p w r p' w' k"
    by (rule udp.send_pending_spec [OF assms])
  then show ?thesis unfolding resend_step_def by blast
qed

definition sample_out :: PacketOut where
  "sample_out = \<lparr>po_packet_queue = \<lparr>pq_packets = [part_buffer Kind_LastPart (PacketId 7) 0 [5]],
     pq_first_unacked = 0, pq_rx = None\<rparr>, po_last_send = Some 0, po_missed_acks = 0,
     po_batch_size = 4, po_last_batch_size = 1, po_last_batch_acks = 0\<rparr>"

lemma sample_out_wf: "out_wf sample_out"
  by (simp add: sample_out_def out_wf_def queue_wf_def rx_parts_def)

theorem send_pending_lossless_witness:
  "\<exists>r p' w'. PacketOut_send_pending sample_out (PacketId 7) 0 (udp peer_addr) good_world = Some (r, p', w') \<and>
     pending_parts (po_packet_queue p') = pending_parts (po_packet_queue sample_out)"
proof -
  have "po_missed_acks sample_out + 65535 < USIZE_LIMIT" by (simp add: sample_out_def)
  from send_pending_lossless [OF good_world_whole sample_out_wf this, of "PacketId 7" 0 peer_addr]
  show ?thesis by blast
qed

text \<open>C35. A packet whose first batch the socket did not take completely has no last send, so the
  next \<open>send_pending\<close> announces \<open>Done\<close> and answers \<open>true\<close>: the packet is abandoned although not all
  of its parts were sent, and without waiting for the resend delay.\<close>

theorem blocked_batch_abandoned:
  assumes "whole_datagrams w" "n \<noteq> 0"
    and "\<forall>b \<in> set (SerializedPacket_parts p). \<not> pb_acked b \<and> PacketBuffer_deref b \<noteq> None"
    and "PacketOut_send p (udp a) n w = Some (Inr out, w1)"
    and "length (sent w1) < length (sent w) + min (unat n) (length (SerializedPacket_parts p))"
    and "udp a (done_bytes i) w2 = Some (Inr True, w3)"
  shows "PacketOut_send_pending out i d (udp a) w2 = Some (Inr True, out, w3) \<and>
    pending_parts (po_packet_queue out) = SerializedPacket_parts p"
proof -
  obtain r w' k where s: "PacketOut_send p (udp a) n w = Some (r, w')"
    "sent w' = sent w @ map (\<lambda>b. (a, part_wire b)) (take k (SerializedPacket_parts p))"
    "case r of
       Inl e \<Rightarrow> k < length (SerializedPacket_parts p)
     | Inr out \<Rightarrow> out_wf out \<and> pending_parts (po_packet_queue out) = SerializedPacket_parts p \<and>
         po_missed_acks out = 0 \<and> unat (po_last_batch_size out) = k \<and>
         (po_last_send out = None \<longleftrightarrow> k < min (unat n) (length (SerializedPacket_parts p)))"
    by (rule udp.PacketOut_send_total [OF assms(1,3,2)])
  have r: "r = Inr out" "w' = w1" using s(1) assms(4) by auto
  have "k < min (unat n) (length (SerializedPacket_parts p))" using s(2) r assms(5) by auto
  then have "po_last_send out = None" "pending_parts (po_packet_queue out) = SerializedPacket_parts p"
    using s(3) r by simp_all
  with assms(6) show ?thesis by (simp add: send_pending_cancelled)
qed

theorem blocked_batch_abandoned_witness:
  "\<exists>out w1 w3. PacketOut_send (SP_Vec (part_list (PacketId 7) [1, 2])) (udp peer_addr) 8 (failing_world WouldBlock)
      = Some (Inr out, w1) \<and> sent w1 = [] \<and>
     PacketOut_send_pending out (PacketId 7) 1 (udp peer_addr) good_world = Some (Inr True, out, w3)"
proof -
  let ?p = "SP_Vec (part_list (PacketId 7) [1, 2])"
  let ?w = "failing_world WouldBlock"
  have ok: "\<forall>b \<in> set (SerializedPacket_parts ?p). \<not> pb_acked b \<and> PacketBuffer_deref b \<noteq> None"
    using part_list_sendable by (simp add: SerializedPacket_parts_def)
  have parts: "part_list (PacketId 7) [1, 2] = [part_buffer Kind_LastPart (PacketId 7) 0 [1, 2]]"
    by (simp add: part_list_def chunks_small)
  have block: "udp peer_addr buf ?w = Some (Inr False, ?w\<lparr>sends := 1\<rparr>)" for buf
    by (simp add: NonBlockingUdpSocket_send_def NonBlockingUdpSocket_new_def UdpSocket_send_to_def
        failing_world_def good_world_def Let_def)
  then obtain out where out: "PacketOut_send ?p (udp peer_addr) 8 ?w = Some (Inr out, ?w\<lparr>sends := 1\<rparr>)"
    by (auto simp: PacketOut_send_def PacketQueue_send_unacked_def PacketQueue_unacked_def
        PacketQueue_fill_def PacketQueue_new_def parts Let_def)
  have "length (sent (?w\<lparr>sends := 1\<rparr>)) < length (sent ?w) + min (unat (8 :: u16)) (length (SerializedPacket_parts ?p))"
    by (simp add: SerializedPacket_parts_def parts)
  moreover obtain w3 where "udp peer_addr (done_bytes (PacketId 7)) good_world = Some (Inr True, w3)"
    using udp_good_world [OF refl] by blast
  ultimately have "PacketOut_send_pending out (PacketId 7) 1 (udp peer_addr) good_world = Some (Inr True, out, w3)"
    using blocked_batch_abandoned [OF failing_world_whole _ ok out] by simp
  with out show ?thesis by (auto simp: failing_world_def good_world_def)
qed

text \<open>C21. A resend round over all outgoing packets never panics: a packet that stays has the same
  parts to be acked, a packet that goes was cancelled or complete and its \<open>Done\<close> was sent, nothing
  but parts and \<open>Done\<close> frames of these packets is sent, and the batch size for new packets becomes
  the average of theirs, at least 1.\<close>

theorem resend_round_correct:
  assumes "whole_datagrams w" "send_wf sb" "btree_all resendable (sb_packets sb)"
    "length (sb_packets sb) < USIZE_LIMIT"
  shows "\<exists>r sb' w' log. SendPacketBuffer_send_pending sb d (udp a) w = Some (r, sb', w') \<and> send_wf sb' \<and>
    sent w' = sent w @ log \<and> resend_round a (sb_packets sb) (sb_packets sb') log \<and>
    unat (sb_batch_size sb') =
       (if sb_packets sb = [] then unat (sb_batch_size sb)
        else max 1 (min (batch_sum (sb_packets sb)) (USIZE_LIMIT - 1) div length (sb_packets sb)))"
proof -
  obtain r sb' w' log where "SendPacketBuffer_send_pending sb d (udp a) w = Some (r, sb', w')" "send_wf sb'"
    "sent w' = sent w @ log" "resend_round a (sb_packets sb) (sb_packets sb') log"
    "unat (sb_batch_size sb') =
       (if sb_packets sb = [] then unat (sb_batch_size sb)
        else max 1 (min (batch_sum (sb_packets sb)) (USIZE_LIMIT - 1) div length (sb_packets sb)))"
    by (rule udp.SendPacketBuffer_send_pending_total [OF assms])
  then show ?thesis by blast
qed

theorem resend_round_correct_witness:
  "\<exists>r sb' w' log. SendPacketBuffer_send_pending \<lparr>sb_batch_size = 8, sb_packets = [(PacketId 7, sample_out)]\<rparr>
      0 (udp peer_addr) good_world = Some (r, sb', w') \<and>
     resend_round peer_addr [(PacketId 7, sample_out)] (sb_packets sb') log \<and> unat (sb_batch_size sb') = 4"
proof -
  let ?sb = "\<lparr>sb_batch_size = 8, sb_packets = [(PacketId 7, sample_out)]\<rparr>"
  have "send_wf ?sb" "btree_all resendable (sb_packets ?sb)" "length (sb_packets ?sb) < USIZE_LIMIT"
    by (simp_all add: send_wf_def sample_out_wf btree_invar_def resendable_def)
      (simp add: sample_out_def)
  moreover have "batch_sum [(PacketId 7, sample_out)] = 4"
    by (simp add: batch_sum_def sample_out_def)
  ultimately show ?thesis
    using resend_round_correct [OF good_world_whole, of ?sb 0 peer_addr] by simp blast
qed

section \<open>The buffers of a connection\<close>

text \<open>An update of the buffers of a connection never panics. It forgets exactly the outgoing
  packets with more missed acknowledgements than allowed, and then resends what is left.\<close>

lemma update_times_out_and_resends:
  assumes "whole_datagrams w" "buffers_ok pb"
  shows "\<exists>r pb' w' log. PacketBuffers_update pb d m rt (udp a) w = Some (r, pb', w') \<and> buffers_wf pb' \<and>
    sent w' = sent w @ log \<and>
    resend_round a
       (case m of None \<Rightarrow> sb_packets (pbs_send_buffer pb)
        | Some n \<Rightarrow> filter (\<lambda>(i, p). po_missed_acks p \<le> n) (sb_packets (pbs_send_buffer pb)))
       (sb_packets (pbs_send_buffer pb')) log"
proof -
  obtain r pb' w' log where "PacketBuffers_update pb d m rt (udp a) w = Some (r, pb', w')" "buffers_wf pb'"
    "sent w' = sent w @ log"
    "resend_round a
       (case m of None \<Rightarrow> sb_packets (pbs_send_buffer pb)
        | Some n \<Rightarrow> filter (\<lambda>(i, p). po_missed_acks p \<le> n) (sb_packets (pbs_send_buffer pb)))
       (sb_packets (pbs_send_buffer pb')) log"
    by (rule udp.PacketBuffers_update_total [OF assms])
  then show ?thesis by blast
qed

text \<open>C23. Every operation of the buffers keeps them well-formed whenever it returns: sending,
  updating and handling any datagram, whatever the socket answers.\<close>

theorem buffers_invariant:
  assumes "buffers_wf pb"
  shows "(\<forall>ws t s w r pb' w'. length (concat ws) \<le> 491 * 2 ^ 32 \<longrightarrow>
        PacketBuffers_send pb ws t s w = Some (r, pb', w') \<longrightarrow> buffers_wf pb') \<and>
    (\<forall>d m rt s w r pb' w'. PacketBuffers_update pb d m rt s w = Some (r, pb', w') \<longrightarrow> buffers_wf pb') \<and>
    (\<forall>buf s w r pb' w'. PacketBuffers_handle pb buf s w = Some (r, pb', w') \<longrightarrow> buffers_wf pb')"
  by (intro conjI allI impI; elim buffers.send_invar [OF assms] buffers.update_invar [OF assms]
      buffers.handle_invar [OF assms])

theorem buffers_invariant_witness:
  "\<exists>r pb'. PacketBuffers_handle (PacketBuffers_new 8) (done_bytes (PacketId 3)) (udp peer_addr) good_world
     = Some (r, pb', good_world) \<and> buffers_wf pb'"
proof -
  have "buffers_wf (PacketBuffers_new 8)" by (simp add: PacketBuffers_new_wf)
  from buffers_invariant [OF this]
    handle_done [of "PacketBuffers_new 8" "PacketId 3" "udp peer_addr" good_world]
  show ?thesis by metis
qed

section \<open>Transfer of a packet\<close>

lemma handle_all_append:
  "handle_all pb (xs @ ys) s w = do {
     (rs, pb, w) \<leftarrow> handle_all pb xs s w; (rs', pb, w) \<leftarrow> handle_all pb ys s w; Some (rs @ rs', pb, w) }"
proof (induction xs arbitrary: pb w)
  case Nil
  then show ?case by (cases "handle_all pb ys s w") auto
next
  case (Cons x xs)
  then show ?case by (cases "PacketBuffers_handle pb x s w") (auto simp: bind_assoc split_def)
qed

lemma delivered_outcomes:
  assumes "set idxs = {..<length (chunks bs)}"
  shows "delivered (map (Inr \<circ> HandlingReceived) (outcomes bs {} idxs)) = [bs]"
proof -
  have "{..<length (chunks bs)} \<noteq> {}" by (simp add: lessThan_empty_iff)
  then have once: "filter (\<lambda>r. r \<noteq> Pending \<and> r \<noteq> Duplicate) (outcomes bs {} idxs) = [Reassembled bs]"
    using outcomes_once [of idxs bs "{}"] assms by auto
  have "delivered (map (Inr \<circ> HandlingReceived) rs) =
      concat (map (\<lambda>r. case r of Reassembled bs \<Rightarrow> [bs] | _ \<Rightarrow> [])
        (filter (\<lambda>r. r \<noteq> Pending \<and> r \<noteq> Duplicate) rs))" for rs
    by (induction rs) (auto simp: delivered_def split: ReceivedPacket.split)
  then show ?thesis by (simp add: once)
qed

lemma transfer:
  assumes "whole_datagrams w" "io_never_fails w" "buffers_wf pb" "incoming pb i = None"
    and "length (chunks bs) < 2 ^ 32" "set idxs = {..<length (chunks bs)}"
    and "distinct idxs \<or> length (chunks bs) < 256"
  obtains rs pb' w' where "handle_all pb (map (part_frame i bs) idxs) (udp a) w = Some (rs, pb', w')"
    "delivered rs = [bs]" "buffers_wf pb'" "pbs_send_buffer pb' = pbs_send_buffer pb"
    "\<forall>j. j \<noteq> i \<longrightarrow> incoming pb' j = incoming pb j" "same_env w w'"
proof -
  have "receiving bs {} (incoming pb i)" using assms(4) by (simp add: receiving_def)
  then have "\<exists>pb' w'. handle_all pb (map (part_frame i bs) idxs) (udp a) w
      = Some (map (Inr \<circ> HandlingReceived) (outcomes bs {} idxs), pb', w') \<and>
    same_env w w' \<and> buffers_wf pb' \<and> receiving bs ({} \<union> set idxs) (incoming pb' i) \<and>
    (\<forall>j. j \<noteq> i \<longrightarrow> incoming pb' j = incoming pb j) \<and> pbs_send_buffer pb' = pbs_send_buffer pb"
    using assms by (intro udp.handle_all_parts) auto
  then show ?thesis using that delivered_outcomes [OF assms(6)] by blast
qed

text \<open>C1. End to end over the wire format: the datagrams a sender makes of a packet, handled by the
  receiver's buffers in any order, each once, or repeated as often as the network likes if there
  are fewer than 256, deliver exactly the bytes that were serialized, exactly once. Nothing panics,
  and neither the receiver's other incoming packets nor its outgoing ones change.\<close>

theorem transfer_exactly_once:
  assumes "whole_datagrams w" "io_never_fails w" "buffers_wf pb" "incoming pb i = None"
    and "length (concat ws) \<le> 491 * (2 ^ 32 - 1)" "serialize_packet i t ws = Some p"
    and "set idxs = {..<length (SerializedPacket_parts p)}"
    and "distinct idxs \<or> length (SerializedPacket_parts p) < 256"
  shows "\<exists>rs pb' w'. handle_all pb (map (\<lambda>j. part_wire (SerializedPacket_parts p ! j)) idxs) (udp a) w
      = Some (rs, pb', w') \<and>
    delivered rs = [concat ws] \<and> buffers_wf pb' \<and> pbs_send_buffer pb' = pbs_send_buffer pb \<and>
    (\<forall>j. j \<noteq> i \<longrightarrow> incoming pb' j = incoming pb j)"
proof -
  let ?bs = "concat ws"
  have parts: "SerializedPacket_parts p = part_list i ?bs"
    using serialize_packet_parts [of ws i t] assms(5,6) by auto
  have n: "length (chunks ?bs) < 2 ^ 32"
    using part_count_bound [OF assms(5)] by (simp add: length_chunks)
  have frames: "map (\<lambda>j. part_wire (SerializedPacket_parts p ! j)) idxs = map (part_frame i ?bs) idxs"
    using assms(7) by (auto simp: parts part_wire_frame)
  have idxs: "set idxs = {..<length (chunks ?bs)}" "distinct idxs \<or> length (chunks ?bs) < 256"
    using assms(7,8) by (simp_all add: parts)
  obtain rs pb' w' where "handle_all pb (map (part_frame i ?bs) idxs) (udp a) w = Some (rs, pb', w')"
    "delivered rs = [?bs]" "buffers_wf pb'" "pbs_send_buffer pb' = pbs_send_buffer pb"
    "\<forall>j. j \<noteq> i \<longrightarrow> incoming pb' j = incoming pb j"
    by (rule transfer [OF assms(1-4) n idxs])
  then show ?thesis unfolding frames by blast
qed

lemma new_buffers_incoming [simp]: "incoming (PacketBuffers_new n) i = None"
  by (simp add: PacketBuffers_new_def ReceivePacketBuffer_default_def BTreeMap_get_def)

theorem transfer_exactly_once_witness:
  "\<exists>p rs pb' w'. serialize_packet (PacketId 7) 0 [replicate 400 1, replicate 400 2] = Some p \<and>
     handle_all (PacketBuffers_new 8) (map (\<lambda>j. part_wire (SerializedPacket_parts p ! j)) [1, 0, 1])
       (udp peer_addr) good_world = Some (rs, pb', w') \<and>
     delivered rs = [replicate 400 1 @ replicate 400 2]"
proof -
  let ?ws = "[replicate 400 1, replicate 400 2] :: u8 list list"
  obtain p where p: "serialize_packet (PacketId 7) 0 ?ws = Some p"
    "SerializedPacket_parts p = part_list (PacketId 7) (concat ?ws)"
    by (rule serialize_packet_parts [of ?ws "PacketId 7" 0]) simp
  have n: "length (SerializedPacket_parts p) = 2" by (simp add: p(2) length_chunks part_count_def)
  have "set [1, 0, 1] = {..<length (SerializedPacket_parts p)}" by (auto simp: n)
  moreover have "buffers_wf (PacketBuffers_new 8)" by (simp add: PacketBuffers_new_wf)
  ultimately show ?thesis
    using transfer_exactly_once [OF good_world_whole good_world_never_fails, of "PacketBuffers_new 8"
        "PacketId 7" ?ws 0 p "[1, 0, 1]" peer_addr] p(1) n
    by auto
qed

text \<open>C37. Once the receiver has handled \<open>Done\<close> it has forgotten the packet: a late copy of its parts
  is delivered to the application a second time.\<close>

theorem redelivery_after_done:
  assumes "whole_datagrams w" "io_never_fails w" "buffers_wf pb" "incoming pb i = None"
    and "length (chunks bs) < 2 ^ 32" "set idxs = {..<length (chunks bs)}" "distinct idxs"
  shows "\<exists>rs pb' w'. handle_all pb
      (map (part_frame i bs) idxs @ [done_bytes i] @ map (part_frame i bs) idxs) (udp a) w = Some (rs, pb', w') \<and>
    delivered rs = [bs, bs]"
proof -
  obtain rs pb1 w1 where 1: "handle_all pb (map (part_frame i bs) idxs) (udp a) w = Some (rs, pb1, w1)"
    "delivered rs = [bs]" "buffers_wf pb1" "same_env w w1"
    by (rule transfer [OF assms(1-6) disjI1 [OF assms(7)]])
  obtain r pb2 where 2: "PacketBuffers_handle pb1 (done_bytes i) (udp a) w1 = Some (Inr (HandlingDone r), pb2, w1)"
    "pb2 = pb1\<lparr>pbs_receive_buffer := (pbs_receive_buffer pb1)
         \<lparr>rb_packets := BTreeMap_remove i (rb_packets (pbs_receive_buffer pb1))\<rparr>\<rparr>"
    using handle_done by blast
  have inc: "incoming pb2 i = None" using 1(3) 2(2) by (simp add: buffers_wf_def recv_wf_def btree.get_remove)
  have wf: "buffers_wf pb2" using buffers.handle_invar [OF 1(3) 2(1)] .
  have w1: "whole_datagrams w1" "io_never_fails w1"
    using assms(1,2) same_env_whole [OF 1(4)] same_env_never_fails [OF 1(4)] by simp_all
  obtain rs' pb3 w3 where 3: "handle_all pb2 (map (part_frame i bs) idxs) (udp a) w1 = Some (rs', pb3, w3)"
    "delivered rs' = [bs]"
    by (rule transfer [OF w1 wf inc assms(5,6) disjI1 [OF assms(7)]])
  have "delivered [Inr (HandlingDone r)] = []" by (simp add: delivered_def)
  with 1 2(1) 3 show ?thesis by (simp add: handle_all_append) (simp add: delivered_def)
qed

theorem redelivery_after_done_witness:
  "\<exists>rs pb' w'. handle_all (PacketBuffers_new 8)
      [part_frame (PacketId 7) [5] 0, done_bytes (PacketId 7), part_frame (PacketId 7) [5] 0] (udp peer_addr) good_world
      = Some (rs, pb', w') \<and> delivered rs = [[5], [5]]"
proof -
  have c: "chunks [5 :: u8] = [[5]]" by (simp add: chunks_small)
  have "buffers_wf (PacketBuffers_new 8)" by (simp add: PacketBuffers_new_wf)
  from redelivery_after_done [OF good_world_whole good_world_never_fails this, of "PacketId 7" "[5]" "[0]" peer_addr]
  show ?thesis by (simp add: c lessThan_Suc)
qed

text \<open>The window after the first 256 parts of a longer packet.\<close>

lemma first_pending_256:
  assumes "reassembling bs {..<256} st"
  shows "unat (rp_first_pending st) = 256"
proof -
  let ?fp = "unat (rp_first_pending st)" and ?cs = "rp_received_chunks st"
  have w: "window ?fp ?cs = {..<256}" "length (takeWhile id ?cs) < 256" "?fp mod 256 = 0"
    using assms by (simp_all add: reassembling_def Let_def)
  have "{..<?fp} \<subseteq> window ?fp ?cs" unfolding window_def by blast
  then have "{..<?fp} \<subseteq> {..<256}" unfolding w(1) .
  then have "?fp \<le> 256" by simp
  then have fp: "?fp = 0 \<or> ?fp = 256" using w(3) by presburger
  have "?fp \<noteq> 0"
  proof
    assume "?fp = 0"
    with w(1) have all: "j < length ?cs \<and> ?cs ! j" if "j < 256" for j
    proof -
      have "j \<in> window 0 ?cs" using w(1) \<open>?fp = 0\<close> that by simp
      then show ?thesis using mem_window [of j 0 ?cs] by simp
    qed
    then have "256 \<le> length ?cs" using less_irrefl linorder_not_less by blast
    have "id x" if "x \<in> set (take 256 ?cs)" for x using that all by (auto simp: in_set_conv_nth)
    then have "takeWhile id (take 256 ?cs @ drop 256 ?cs) = take 256 ?cs @ takeWhile id (drop 256 ?cs)"
      by (rule takeWhile_append2)
    with \<open>256 \<le> length ?cs\<close> w(2) show False by simp
  qed
  with fp show ?thesis by simp
qed

lemma handle_below_window:
  assumes "incoming pb i = Some e" "pi_packet e = Some st" "unat s < unat (rp_first_pending st)"
  shows "PacketBuffers_handle pb (part_bytes Kind_Part i s p) socket w = None"
proof -
  have "ReceivePacketBuffer_receive (pbs_receive_buffer pb) False i s p socket w = None"
    using assms receive_below_first_pending [OF assms(3)]
    by (simp add: ReceivePacketBuffer_receive_def Instant_now_def)
  then have "ReceivePacketBuffer_handle (pbs_receive_buffer pb) (part_bytes Kind_Part i s p) socket w = None"
    using handle_part_bytes [of "pbs_receive_buffer pb" False Kind_Part i s p socket w]
    by (auto simp: ReceivePacketBuffer_handle_def part_bytes_def header_def)
  moreover have "part_bytes Kind_Part i s p \<noteq> []" by (simp add: part_bytes_def header_def)
  ultimately show ?thesis by (simp add: PacketBuffers_handle_def)
qed

text \<open>C34. A repeated part can crash the receiver: after the first 256 parts of a longer packet have
  arrived, a copy of part 0, which a sender resends whenever its acknowledgement was late or lost,
  makes the index subtraction underflow and \<open>handle\<close> panic.\<close>

theorem repeated_part_panics:
  assumes "whole_datagrams w" "io_never_fails w" "buffers_wf pb" "incoming pb i = None"
    and "256 < length (chunks bs)" "length (chunks bs) < 2 ^ 32"
  shows "\<exists>rs pb' w'. handle_all pb (map (part_frame i bs) [0..<256]) (udp a) w = Some (rs, pb', w') \<and>
    PacketBuffers_handle pb' (part_frame i bs 0) (udp a) w' = None"
proof -
  have r: "receiving bs {} (incoming pb i)" using assms(4) by (simp add: receiving_def)
  have "set [0..<256] \<subseteq> {..<length (chunks bs)}" using assms(5) by auto
  then obtain rs pb' w' where h: "handle_all pb (map (part_frame i bs) [0..<256]) (udp a) w = Some (rs, pb', w')"
    "receiving bs ({} \<union> set [0..<256]) (incoming pb' i)"
    using udp.handle_all_parts [OF assms(1-3) r assms(6), of "[0..<256]"] by force
  have "{} \<union> set [0..<256] = {..<256 :: nat}" by (auto simp: atLeast0LessThan)
  then obtain e st where e: "incoming pb' i = Some e" "pi_packet e = Some st" "reassembling bs {..<256} st"
    using h(2) assms(5) by (auto simp: receiving_def lessThan_empty_iff split: option.split_asm)
  have "part_frame i bs 0 = part_bytes Kind_Part i 0 (chunks bs ! 0)"
    using assms(5) by (simp add: part_frame_def)
  with handle_below_window [OF e(1,2), of 0] first_pending_256 [OF e(3)] h(1) show ?thesis by auto
qed

theorem repeated_part_panics_witness:
  "\<exists>rs pb' w'. handle_all (PacketBuffers_new 8)
      (map (part_frame (PacketId 7) (replicate 126187 1)) [0..<256]) (udp peer_addr) good_world = Some (rs, pb', w') \<and>
    PacketBuffers_handle pb' (part_frame (PacketId 7) (replicate 126187 1) 0) (udp peer_addr) w' = None"
proof (rule repeated_part_panics)
  show "buffers_wf (PacketBuffers_new 8)" by (simp add: PacketBuffers_new_wf)
  show "256 < length (chunks (replicate 126187 (1::u8)))" "length (chunks (replicate 126187 (1::u8))) < 2 ^ 32"
    by (simp_all add: length_chunks part_count_def)
qed simp_all



section \<open>The life of a packet\<close>

text \<open>C24. The whole life of a packet that fits into one datagram, between fresh buffers on a network
  that is up: sending it puts one frame on the wire; the receiver delivers its bytes and answers
  with an acknowledgement; the sender takes it; at the first resend after the delay the sender
  announces \<open>Done\<close> and forgets the packet; and on \<open>Done\<close> the receiver forgets it too.\<close>

theorem single_part_life:
  assumes "network_up w" "network_up w2" "network_up w3" "n \<noteq> 0" "length (concat ws) \<le> 491"
    and "clock w (ticks w) + d \<le> clock w3 (ticks w3)"
  shows "\<exists>i frame s1 w1 r1 w2' s2 s3 w3' r2.
    PacketBuffers_send (PacketBuffers_new n) ws t (udp a) w = Some (Inr i, s1, w1) \<and> sent w1 = sent w @ [(a, frame)] \<and>
    PacketBuffers_handle (PacketBuffers_new m) frame (udp b) w2
      = Some (Inr (HandlingReceived (Reassembled (concat ws))), r1, w2') \<and> sent w2' = sent w2 @ [(b, ack_bytes i 0)] \<and>
    PacketBuffers_handle s1 (ack_bytes i 0) (udp a) w1 = Some (Inr (HandlingAck False), s2, w1) \<and>
    PacketBuffers_send_pending s2 d (udp a) w3 = Some (Inr (), s3, w3') \<and> sent w3' = sent w3 @ [(a, done_bytes i)] \<and>
    sb_packets (pbs_send_buffer s3) = [] \<and>
    PacketBuffers_handle r1 (done_bytes i) (udp b) w2' = Some (Inr (HandlingDone True), r2, w2') \<and> incoming r2 i = None"
proof -
  define i where "i = fst (PacketId_new w)"
  let ?s0 = "PacketBuffers_new n" and ?r0 = "PacketBuffers_new m"
  have n: "sb_batch_size (pbs_send_buffer ?s0) = n" "sb_packets (pbs_send_buffer ?s0) = []"
    by (simp_all add: PacketBuffers_new_def SendPacketBuffer_new_def)
  obtain q where q: "single_queue (part_buffer Kind_LastPart i 0 (concat ws)) q"
    and send: "PacketBuffers_send ?s0 ws t (udp a) w = Some (Inr i, with_outgoing ?s0 i (sent_once q (clock w (ticks w)) n),
       w\<lparr>uuids_drawn := Suc (uuids_drawn w), ticks := Suc (ticks w), sends := Suc (sends w),
         sent := sent w @ [(a, part_frame i (concat ws) 0)]\<rparr>)" (is "_ = Some (_, ?s1, ?w1)")
    by (rule send_single [of w ?s0 ws i t a]) (use assms(1,4,5) i_def n(1) in simp_all)
  have r0: "recv_wf (pbs_receive_buffer ?r0)" "incoming ?r0 i = None"
    by (simp_all add: PacketBuffers_new_def ReceivePacketBuffer_default_def recv_wf_def btree.invar_empty BTreeMap_get_def)
  obtain rb t2 where recv: "PacketBuffers_handle ?r0 (part_frame i (concat ws) 0) (udp b) w2
      = Some (Inr (HandlingReceived (Reassembled (concat ws))), ?r0\<lparr>pbs_receive_buffer := rb\<rparr>,
          w2\<lparr>ticks := t2, sends := Suc (sends w2), sent := sent w2 @ [(b, ack_bytes i 0)]\<rparr>)"
    "recv_wf rb" "BTreeMap_get (rb_packets rb) i \<noteq> None"
    by (rule receive_single_frame [OF assms(2,5) r0])
  let ?r1 = "?r0\<lparr>pbs_receive_buffer := rb\<rparr>"
  have "outgoing ?s1 i = Some (sent_once q (clock w (ticks w)) n)" by (simp add: n BTreeMap_get_def)
  then obtain q' where acked: "pq_packets q' = []" "rx_parts q' = []"
    "PacketBuffers_handle ?s1 (ack_bytes i 0) (udp a) ?w1
       = Some (Inr (HandlingAck False), with_outgoing ?s1 i (acked_once q' (clock w (ticks w)) n), ?w1)"
    using q by (rule handle_single_ack)
  have "sb_packets (pbs_send_buffer (with_outgoing ?s1 i (acked_once q' (clock w (ticks w)) n)))
      = [(i, acked_once q' (clock w (ticks w)) n)]"
    by (simp add: n)
  moreover have "pq_packets (po_packet_queue (acked_once q' (clock w (ticks w)) n)) = []"
    "rx_parts (po_packet_queue (acked_once q' (clock w (ticks w)) n)) = []"
    "po_last_send (acked_once q' (clock w (ticks w)) n) = Some (clock w (ticks w))"
    using acked(1,2) by (simp_all add: acked_once_def sent_once_def)
  ultimately obtain s3 w3' where fin:
    "PacketBuffers_send_pending (with_outgoing ?s1 i (acked_once q' (clock w (ticks w)) n)) d (udp a) w3 = Some (Inr (), s3, w3')"
    "sent w3' = sent w3 @ [(a, done_bytes i)]" "sb_packets (pbs_send_buffer s3) = []"
    using drained_done [OF assms(3) _ _ _ assms(6)] by metis
  obtain r2 where "PacketBuffers_handle ?r1 (done_bytes i) (udp b) (w2\<lparr>ticks := t2, sends := Suc (sends w2),
      sent := sent w2 @ [(b, ack_bytes i 0)]\<rparr>) = Some (Inr (HandlingDone True), r2, w2\<lparr>ticks := t2, sends := Suc (sends w2),
      sent := sent w2 @ [(b, ack_bytes i 0)]\<rparr>)" "incoming r2 i = None"
    using done_forgets [of ?r1 i] recv(2,3) by auto
  moreover have "sent ?w1 = sent w @ [(a, part_frame i (concat ws) 0)]"
    "sent (w2\<lparr>ticks := t2, sends := Suc (sends w2), sent := sent w2 @ [(b, ack_bytes i 0)]\<rparr>) = sent w2 @ [(b, ack_bytes i 0)]"
    by simp_all
  ultimately show ?thesis using send recv(1) acked(3) fin by blast
qed

theorem single_part_life_witness:
  "\<exists>i frame s1 w1 r1 w2.
    PacketBuffers_send (PacketBuffers_new 8) [[1], [2]] 1 (udp peer_addr) good_world = Some (Inr i, s1, w1) \<and>
    sent w1 = [(peer_addr, frame)] \<and>
    PacketBuffers_handle (PacketBuffers_new 8) frame (udp other_addr) good_world
      = Some (Inr (HandlingReceived (Reassembled [1, 2])), r1, w2) \<and> sent w2 = [(other_addr, ack_bytes i 0)]"
proof -
  have up: "network_up good_world" "network_up (good_world\<lparr>ticks := 5\<rparr>)" "sent good_world = []"
    by (simp_all add: network_up_def good_world_def)
  have "clock good_world (ticks good_world) + 3 \<le> clock (good_world\<lparr>ticks := 5\<rparr>) (ticks (good_world\<lparr>ticks := 5\<rparr>))"
    by (simp add: good_world_def)
  from single_part_life [OF up(1,1,2) _ _ this, of 8 "[[1], [2]]" 1 peer_addr 8 other_addr]
  show ?thesis using up(3) by simp blast
qed

section \<open>Giving up\<close>

text \<open>C15. A packet that nobody acknowledges is resent and then given up: on a network that takes every
  datagram, with resends that are all due, each of \<open>n\<close> resends puts parts on the wire, the first of
  the parts that are open, half as many as the time before and at least one, and answers that the
  packet is not finished. Afterwards at least \<open>n\<close> more acknowledgements count as missed, so that
  every limit below that makes the timeout forget the packet. The packet has parts open, its last
  batch was not empty and has not been acknowledged, and the count of misses does not overflow.\<close>

theorem unanswered_packet_times_out:
  assumes "network_up w" "\<forall>k. clock w k + d \<le> clock w (Suc k)"
    and "unanswered p" "po_last_send p = Some t" "t + d \<le> clock w (ticks w)"
    and "po_missed_acks p + n * 65535 < USIZE_LIMIT"
  shows "\<exists>p' w'. resends n i d a p w = Some (replicate n (Inr False), p', w') \<and>
    sent w' = sent w @ concat (map (\<lambda>j. map (\<lambda>x. (a, part_wire x))
      (take (max 1 (unat (po_batch_size p) div 2 ^ Suc j)) (pending_parts (po_packet_queue p)))) [0..<n]) \<and>
    po_missed_acks p + n \<le> po_missed_acks p' \<and>
    (\<forall>sb m. m < po_missed_acks p + n \<longrightarrow> sb_packets sb = [(i, p')] \<longrightarrow>
       SendPacketBuffer_timeout_packets sb m = Some (sb\<lparr>sb_packets := []\<rparr>))"
proof -
  obtain p' w' where p': "resends n i d a p w = Some (replicate n (Inr False), p', w')" "po_missed_acks p + n \<le> po_missed_acks p'"
    "sent w' = sent w @ backoff_wires a (unat (po_batch_size p)) (pending_parts (po_packet_queue p)) n"
    using resends_unanswered [OF assms, of i a] by blast
  have "SendPacketBuffer_timeout_packets sb m = Some (sb\<lparr>sb_packets := []\<rparr>)"
    if "m < po_missed_acks p + n" "sb_packets sb = [(i, p')]" for sb m
    using that p'(2) by (simp add: SendPacketBuffer_timeout_packets_def PacketOut_missed_acks_def)
  with p' show ?thesis unfolding backoff_wires_def by blast
qed

theorem unanswered_packet_times_out_witness:
  "\<exists>p' w'. resends 5 (PacketId 7) 1 peer_addr sample_out (good_world\<lparr>ticks := 1\<rparr>) = Some (replicate 5 (Inr False), p', w') \<and>
     5 \<le> po_missed_acks p' \<and> SendPacketBuffer_timeout_packets \<lparr>sb_batch_size = 8, sb_packets = [(PacketId 7, p')]\<rparr> 4
       = Some \<lparr>sb_batch_size = 8, sb_packets = []\<rparr>"
proof -
  let ?w = "good_world\<lparr>ticks := 1\<rparr>"
  have w: "network_up ?w" "\<forall>k. clock ?w k + 1 \<le> clock ?w (Suc k)" "0 + 1 \<le> clock ?w (ticks ?w)"
    by (simp_all add: network_up_def good_world_def)
  have p: "unanswered sample_out" "po_last_send sample_out = Some 0" "po_missed_acks sample_out + 5 * 65535 < USIZE_LIMIT"
    "po_missed_acks sample_out = 0"
    using sample_out_wf by (simp_all add: unanswered_def) (simp_all add: sample_out_def pending_parts_def unacked_parts_def)
  from unanswered_packet_times_out [OF w(1,2) p(1,2) w(3) p(3), of "PacketId 7" peer_addr] p(4)
  show ?thesis by force
qed

end
