(* ===== verification/Emits.thy ===== *)
theory Emits
  imports Buffers_Wf
begin

text \<open>
  What the operations of the packet buffers put on the wire, whatever the network answers and for
  every run that does not panic: \<open>emits peer F w w'\<close> says that between \<open>w\<close> and \<open>w'\<close> nothing but
  datagrams of \<open>F\<close> was sent, all of them to \<open>peer\<close>. A packet emits its parts, its acknowledgements
  and its \<open>Done\<close> only.
\<close>

definition emits :: "SocketAddr \<Rightarrow> u8 list set \<Rightarrow> world \<Rightarrow> world \<Rightarrow> bool" where
  "emits peer F w w' \<longleftrightarrow> same_env w w' \<and> uuids_drawn w' = uuids_drawn w \<and> set (sent w) \<subseteq> set (sent w') \<and>
     set (sent w') \<subseteq> set (sent w) \<union> {peer} \<times> F"

lemma emits_refl [simp]: "emits peer F w w"
  by (simp add: emits_def)

lemma emits_trans [trans]: "emits peer F w w' \<Longrightarrow> emits peer F w' w'' \<Longrightarrow> emits peer F w w''"
  by (auto simp: emits_def dest: same_env_trans)

lemma emits_mono: "emits peer F w w' \<Longrightarrow> F \<subseteq> G \<Longrightarrow> emits peer G w w'"
  by (auto simp: emits_def)

lemma emits_ticks [simp]:
  "emits peer F w (w'\<lparr>ticks := n\<rparr>) = emits peer F w w'"
  "emits peer F (w\<lparr>ticks := n\<rparr>) w' = emits peer F w w'"
  by (simp_all add: emits_def same_env_def)

text \<open>The datagrams of the parts a queue holds, acked or not, and those of an outgoing packet.\<close>

definition queue_wires :: "PacketQueue \<Rightarrow> u8 list set" where
  "queue_wires q = part_wire ` set (pq_packets q @ rx_parts q)"

abbreviation out_wires :: "PacketOut \<Rightarrow> u8 list set" where
  "out_wires p \<equiv> queue_wires (po_packet_queue p)"

lemma part_wire_acked [simp]: "part_wire (b\<lparr>pb_acked := a\<rparr>) = part_wire b"
  by (simp add: part_wire_def)

lemma queue_wires_new [simp]: "queue_wires (PacketQueue_new p) = part_wire ` set (SerializedPacket_parts p)"
  by (auto simp: queue_wires_def PacketQueue_new_def rx_parts_def SerializedPacket_parts_def
      split: SerializedPacket.splits)

lemma queue_wires_fill [simp]: "queue_wires (PacketQueue_fill q n) = queue_wires q"
proof -
  have "pq_packets (PacketQueue_fill q n) @ rx_parts (PacketQueue_fill q n) = pq_packets q @ rx_parts q"
    by (simp add: PacketQueue_fill_def rx_parts_def Let_def split: option.split)
  then show ?thesis by (simp only: queue_wires_def)
qed

lemma queue_wires_ack: "queue_wires (snd (PacketQueue_ack q s)) \<subseteq> queue_wires q"
proof (cases "unat s < length (pq_packets q) \<and> \<not> pb_acked (pq_packets q ! unat s)")
  case True
  have "part_wire b \<in> part_wire ` set (pq_packets q)"
    if "b \<in> set (dropWhile pb_acked (mark (unat s) (pq_packets q)))" for b
    using set_mark [OF set_dropWhileD [OF that]] by auto
  with True show ?thesis by (auto simp: ack_fresh queue_wires_def rx_parts_def)
next
  case False
  then show ?thesis by (cases "unat s < length (pq_packets q)") (simp_all add: ack_cases)
qed

lemma out_wires_ack: "out_wires (snd (PacketOut_ack p s)) \<subseteq> out_wires p"
  using queue_wires_ack [of "po_packet_queue p" s]
  by (auto simp: PacketOut_ack_def Let_def split: prod.split sum.split)

context nonblocking
begin

lemma send_emits: "send buf w = Some (r, w') \<Longrightarrow> buf \<in> F \<Longrightarrow> emits peer F w w'"
  using send_frame [of buf w r w'] send_log [of buf w r w'] by (auto simp: emits_def split: if_split_asm)

lemma send_items_emits:
  assumes "send_items items c send w = Some (r, w')" "\<And>buf. Some buf \<in> set items \<Longrightarrow> buf \<in> F"
  shows "emits peer F w w'"
  using assms
proof (induction items arbitrary: c w)
  case (Cons item items)
  then show ?case
    by (auto simp: run_simps intro: send_emits split: if_split_asm)
      (metis Cons.IH Cons.prems(2) emits_trans insertCI list.set(2) send_emits)
qed simp

lemma send_unacked_emits:
  assumes "PacketQueue_send_unacked q n send w = Some (r, q', w')"
  shows "emits peer (queue_wires q) w w'" "queue_wires q' = queue_wires q"
proof -
  have q': "q' = PacketQueue_fill q (unat n)" using assms by (rule PacketQueue_send_unacked_queue)
  show "queue_wires q' = queue_wires q" unfolding q' by simp
  have "buf \<in> queue_wires q" if item: "Some buf \<in> set (fst (PacketQueue_unacked q (unat n)))" for buf
  proof -
    obtain b where "b \<in> set (pq_packets q')" "Some buf = PacketBuffer_deref b"
      using in_set_takeD [OF item [unfolded PacketQueue_unacked_def Let_def fst_conv]] by (auto simp: q')
    then have "buf \<in> queue_wires q'" by (metis UnI1 image_eqI option.sel part_wire_def queue_wires_def set_append)
    then show ?thesis unfolding q' by simp
  qed
  moreover have "send_items (fst (PacketQueue_unacked q (unat n))) 0 send w = Some (r, w')"
    using assms by (auto simp: PacketQueue_send_unacked_def run_simps split: prod.split_asm)
  ultimately show "emits peer (queue_wires q) w w'" using send_items_emits by blast
qed

lemma PacketOut_send_emits:
  assumes "PacketOut_send p send n w = Some (r, w')"
  shows "emits peer (part_wire ` set (SerializedPacket_parts p)) w w'"
    "r = Inr out \<Longrightarrow> out_wires out = part_wire ` set (SerializedPacket_parts p)"
  using assms send_unacked_emits [of "PacketQueue_new p" n w]
  by (auto simp: PacketOut_send_def run_simps Instant_now_def split: if_split_asm)

lemma send_pending_emits:
  assumes "PacketOut_send_pending p i d send w = Some (r, p', w')"
  shows "emits peer (insert (done_bytes i) (out_wires p)) w w' \<and> out_wires p' = out_wires p"
proof -
  let ?F = "insert (done_bytes i) (out_wires p)"
  have finish: "emits peer ?F w1 w2" if "done_frame_send i send w1 = Some (r1, w2)" for w1 r1 w2
    using that send_emits by (simp add: done_frame_send_eq)
  have batch: "emits peer ?F w w1 \<and> queue_wires q = out_wires p"
    if "PacketQueue_send_unacked (po_packet_queue p) n send (w\<lparr>ticks := t\<rparr>) = Some (r1, q, w1)" for n t r1 q w1
    using send_unacked_emits [OF that] by (auto intro: emits_mono)
  consider (cancelled) "po_last_send p = None" | (early) t where "po_last_send p = Some t" "clock w (ticks w) - t < d"
    | (due) t where "po_last_send p = Some t" "\<not> clock w (ticks w) - t < d" by (cases "po_last_send p") auto
  then show ?thesis
  proof cases
    case due
    let ?n = "balance_batch_size (po_batch_size p) (po_last_batch_acks p) (po_last_batch_size p)"
    obtain r1 q w1 where q: "PacketQueue_send_unacked (po_packet_queue p) ?n send (w\<lparr>ticks := Suc (ticks w)\<rparr>) = Some (r1, q, w1)"
      using assms due by (auto simp: PacketOut_send_pending_def Instant_elapsed_def Instant_now_def bind_eq_Some_conv)
    have "w' = w1 \<or> w' = w1\<lparr>ticks := Suc (ticks w1)\<rparr> \<or> done_frame_send i send w1 = Some (r, w')"
      "po_packet_queue p' = q"
      using assms unfolding send_pending_due_eq [OF due q] Let_def
      by (auto simp: run_simps split: if_split_asm)
    with batch [OF q] show ?thesis using finish emits_trans [of peer ?F w w1 w'] by auto
  qed (use assms finish in \<open>auto simp: send_pending_cancelled send_pending_early done_frame_send_eq run_simps\<close>)
qed

lemma send_pending_closure_emits:
  assumes "send_pending_closure d send i p (bs, c, r, w) = Some (keep, p', bs', c', r', w')"
  shows "emits peer (insert (done_bytes i) (out_wires p)) w w' \<and> out_wires p' = out_wires p"
  using assms send_pending_emits by (auto simp: run_simps)

lemma retain_emits:
  assumes "BTreeMap_retain (send_pending_closure d send) m (bs, c, r, w) = Some (m', bs', c', r', w')"
    and "\<And>i p. (i, p) \<in> set m \<Longrightarrow> insert (done_bytes i) (out_wires p) \<subseteq> F"
  shows "emits peer F w w' \<and> (\<forall>(i, p') \<in> set m'. \<exists>p. (i, p) \<in> set m \<and> out_wires p' = out_wires p)"
  using assms
proof (induction m arbitrary: bs c r w m')
  case (Cons e m)
  obtain i p where e: "e = (i, p)" by (cases e)
  with Cons.prems(1) obtain keep p' bs1 c1 r1 w1 m1 where
    s: "send_pending_closure d send i p (bs, c, r, w) = Some (keep, p', bs1, c1, r1, w1)"
    and t: "BTreeMap_retain (send_pending_closure d send) m (bs1, c1, r1, w1) = Some (m1, bs', c', r', w')"
      "m' = (if keep then (i, p') # m1 else m1)"
    by (auto simp: bind_eq_Some_conv simp del: send_pending_closure.simps)
  have p: "emits peer F w w1" "out_wires p' = out_wires p"
    using send_pending_closure_emits [OF s] Cons.prems(2) [of i p] by (auto simp: e intro: emits_mono)
  have "emits peer F w1 w' \<and> (\<forall>(i, p') \<in> set m1. \<exists>p. (i, p) \<in> set m \<and> out_wires p' = out_wires p)"
    by (rule Cons.IH [OF t(1)]) (use Cons.prems(2) in auto)
  moreover have "(\<forall>(j, p2) \<in> set m1. \<exists>p1. (j, p1) \<in> set m \<and> out_wires p2 = out_wires p1) \<Longrightarrow>
      (\<forall>(j, p2) \<in> set m'. \<exists>p1. (j, p1) \<in> set (e # m) \<and> out_wires p2 = out_wires p1)"
    using p(2) by (auto simp: e t(2))
  ultimately show ?case using emits_trans [OF p(1)] by blast
qed auto

end

section \<open>The buffers of a connection\<close>

abbreviation packets_of :: "PacketBuffers \<Rightarrow> (PacketId \<times> PacketOut) set" where
  "packets_of pb \<equiv> set (sb_packets (pbs_send_buffer pb))"

abbreviation entries_of :: "PacketBuffers \<Rightarrow> (PacketId \<times> PacketIn) set" where
  "entries_of pb \<equiv> set (rb_packets (pbs_receive_buffer pb))"

text \<open>The datagrams of the parts of the packet with id \<open>i\<close> and payload \<open>bs\<close>.\<close>

definition packet_frames :: "PacketId \<Rightarrow> u8 list \<Rightarrow> u8 list set" where
  "packet_frames i bs = part_frame i bs ` {..<length (chunks bs)}"

lemma part_list_wires: "part_wire ` set (part_list i bs) = packet_frames i bs"
proof -
  have "part_wire ` set (part_list i bs) = (\<lambda>j. part_wire (part_list i bs ! j)) ` {..<length (chunks bs)}"
    by (auto simp: set_conv_nth)
  also have "\<dots> = packet_frames i bs"
    unfolding packet_frames_def by (rule image_cong) (simp_all add: part_wire_frame)
  finally show ?thesis .
qed

lemma entries_get:
  assumes "recv_wf (pbs_receive_buffer pb)"
  shows "(i, e) \<in> entries_of pb \<longleftrightarrow> incoming pb i = Some e"
  using assms by (simp add: recv_wf_def btree_invar_def BTreeMap_get_def strict_sorted_iff)

lemma timeout_packets_subset:
  assumes "PacketBuffers_timeout_packets pb m d w = Some (pb', w')"
  shows "\<exists>t. w' = w\<lparr>ticks := t\<rparr>" "packets_of pb' \<subseteq> packets_of pb" "entries_of pb' \<subseteq> entries_of pb"
proof -
  have recv: "(\<exists>t. w2 = w1\<lparr>ticks := t\<rparr>) \<and> set (rb_packets rb') \<subseteq> set (rb_packets rb)"
    if "ReceivePacketBuffer_timeout_packets rb x w1 = Some (rb', w2)" for rb x w1 rb' w2
    using that ReceivePacketBuffer_timeout_packets_frame [of rb x w1] by auto
  have ticks: "\<exists>t. w = w\<lparr>ticks := t\<rparr>" by (intro exI [of _ "ticks w"]) simp
  show "\<exists>t. w' = w\<lparr>ticks := t\<rparr>" "packets_of pb' \<subseteq> packets_of pb" "entries_of pb' \<subseteq> entries_of pb"
    using assms ticks
    by (auto simp: PacketBuffers_timeout_packets_def SendPacketBuffer_timeout_packets_eq run_simps
        dest!: recv split: option.split_asm)
qed

context nonblocking
begin

lemma PacketBuffers_update_emits:
  assumes "PacketBuffers_update pb d m rt send w = Some (r, pb', w')"
    and "\<And>i p. (i, p) \<in> packets_of pb \<Longrightarrow> insert (done_bytes i) (out_wires p) \<subseteq> F"
  shows "emits peer F w w'" "\<forall>(i, p') \<in> packets_of pb'. \<exists>p. (i, p) \<in> packets_of pb \<and> out_wires p' = out_wires p"
    "entries_of pb' \<subseteq> entries_of pb"
proof -
  from assms(1) obtain pb1 w1 m' bs c r' sb where
    t: "PacketBuffers_timeout_packets pb m rt w = Some (pb1, w1)"
    and s: "BTreeMap_retain (send_pending_closure d send) (sb_packets (pbs_send_buffer pb1)) (0, 0, Inr (), w1)
        = Some (m', bs, c, r', w')" "pb' = pb1\<lparr>pbs_send_buffer := sb\<rparr>" "sb_packets sb = m'"
    by (auto simp: PacketBuffers_update_def PacketBuffers_send_pending_def SendPacketBuffer_send_pending_def
        Let_def bind_eq_Some_conv split: if_split_asm)
  note t = timeout_packets_subset [OF t]
  have "emits peer F w1 w' \<and> (\<forall>(i, p') \<in> set m'. \<exists>p. (i, p) \<in> packets_of pb1 \<and> out_wires p' = out_wires p)"
    by (rule retain_emits [OF s(1)]) (use assms(2) t(2) in blast)
  with t s(2,3) show "emits peer F w w'" "entries_of pb' \<subseteq> entries_of pb"
    "\<forall>(i, p') \<in> packets_of pb'. \<exists>p. (i, p) \<in> packets_of pb \<and> out_wires p' = out_wires p"
    by auto (blast dest: subsetD)
qed

lemma PacketBuffers_send_emits:
  assumes "PacketBuffers_send pb ws t send w = Some (r, pb', w')" "length (concat ws) \<le> 491 * 2 ^ 32"
    and "i = fst (PacketId_new w)"
  shows "emits peer (packet_frames i (concat ws)) (w\<lparr>uuids_drawn := Suc (uuids_drawn w)\<rparr>) w'"
    "\<forall>(j, p) \<in> packets_of pb'. (j, p) \<in> packets_of pb \<or> j = i \<and> out_wires p = packet_frames i (concat ws)"
    "pbs_receive_buffer pb' = pbs_receive_buffer pb"
proof -
  have w1: "PacketId_new w = (i, w\<lparr>uuids_drawn := Suc (uuids_drawn w)\<rparr>)"
    using assms(3) by (simp add: PacketId_new_def Uuid_new_v4_def)
  obtain p where p: "serialize_packet i t ws = Some p" "SerializedPacket_parts p = part_list i (concat ws)"
    using serialize_packet_parts [OF assms(2)] .
  from assms(1) obtain r1 sb where s: "PacketOut_send p send (sb_batch_size (pbs_send_buffer pb))
      (w\<lparr>uuids_drawn := Suc (uuids_drawn w)\<rparr>) = Some (r1, w')" "pb' = pb\<lparr>pbs_send_buffer := sb\<rparr>"
    "sb = pbs_send_buffer pb \<or> (\<exists>out. r1 = Inr out \<and> sb = (pbs_send_buffer pb)\<lparr>sb_packets :=
        BTreeMap_insert i out (sb_packets (pbs_send_buffer pb))\<rparr>)"
    by (auto simp: PacketBuffers_send_def SendPacketBuffer_send_def w1 p(1) run_simps)
  note e = PacketOut_send_emits [OF s(1), unfolded p(2) part_list_wires]
  show "emits peer (packet_frames i (concat ws)) (w\<lparr>uuids_drawn := Suc (uuids_drawn w)\<rparr>) w'" by (rule e(1))
  show "pbs_receive_buffer pb' = pbs_receive_buffer pb" by (simp add: s(2))
  show "\<forall>(j, p) \<in> packets_of pb'. (j, p) \<in> packets_of pb \<or> j = i \<and> out_wires p = packet_frames i (concat ws)"
    using s(2,3) e(2) by (auto dest!: set_BTreeMap_insertD)
qed

lemma ack_emits: "ack i s send w = Some (r, w') \<Longrightarrow> emits peer UNIV w w'"
  by (auto simp: ack_eq run_simps intro: send_emits)

lemma receive_emits:
  assumes "ReceivePacketBuffer_receive rb l i s p send w = Some (r, rb', w')" shows "emits peer UNIV w w'"
  using assms
  by (auto simp: ReceivePacketBuffer_receive_def Instant_now_def after_ack_fold run_simps dest!: ack_emits
      split: if_split_asm)

lemma PacketBuffers_handle_emits:
  assumes "PacketBuffers_handle pb buf send w = Some (r, pb', w')" shows "emits peer UNIV w w'"
proof -
  have part: "emits peer UNIV w w2" if "handle_part rb l buf send w = Some (x, rb', w2)" for rb l buf x rb' w2
    using that by (auto simp: handle_part_def run_simps dest!: receive_emits)
  have "emits peer UNIV w w2" if "ReceivePacketBuffer_handle rb buf send w = Some (x, rb', w2)" for rb x rb' w2
    using that
    by (auto simp: ReceivePacketBuffer_handle_def ReceivePacketBuffer_done_def run_simps dest!: part
        split: list.split_asm if_split_asm)
  with assms show ?thesis
    by (auto simp: PacketBuffers_handle_def run_simps case_handling_eq_Some split: if_split_asm)
qed

end

end
