(* ===== verification/Link.thy ===== *)
theory Link
  imports Emits Transition
begin

text \<open>
  Two packet buffers that talk to each other over a network that may lose, repeat, delay and reorder
  datagrams, but does not make them up. Each side sends packets, updates and handles datagrams in any
  order; what one side has sent may arrive at the other at any later time, any number of times or
  never. \<open>link_ok\<close> is an invariant of every such run.
\<close>

section \<open>The two sides\<close>

text \<open>The buffers of one side and its environment, with the history of the packets it was asked to
  send and of the answers its \<open>handle\<close> gave.\<close>

record endpoint =
  ep_buffers :: PacketBuffers
  ep_world :: world
  ep_packets :: "PacketId \<rightharpoonup> u8 list"
  ep_answers :: "(HandlePacketError + PacketHandling) list"

text \<open>What the network can deliver to the address \<open>a\<close>.\<close>

definition traffic :: "SocketAddr \<Rightarrow> endpoint \<Rightarrow> u8 list set" where
  "traffic a e = {d. (a, d) \<in> set (sent (ep_world e))}"

inductive endpoint_step :: "SocketAddr \<Rightarrow> u8 list set \<Rightarrow> endpoint \<Rightarrow> endpoint \<Rightarrow> bool" for peer arriving where
  step_send: "PacketBuffers_send (ep_buffers e) ws t (udp peer) (ep_world e) = Some (r, b, w) \<Longrightarrow>
    length (concat ws) \<le> 491 * (2 ^ 32 - 1) \<Longrightarrow>
    endpoint_step peer arriving e (e\<lparr>ep_buffers := b, ep_world := w,
      ep_packets := (ep_packets e)(fst (PacketId_new (ep_world e)) \<mapsto> concat ws)\<rparr>)"
| step_update: "PacketBuffers_update (ep_buffers e) d m rt (udp peer) (ep_world e) = Some (r, b, w) \<Longrightarrow>
    endpoint_step peer arriving e (e\<lparr>ep_buffers := b, ep_world := w\<rparr>)"
| step_handle: "buf \<in> arriving \<Longrightarrow>
    PacketBuffers_handle (ep_buffers e) buf (udp peer) (ep_world e) = Some (r, b, w) \<Longrightarrow>
    endpoint_step peer arriving e (e\<lparr>ep_buffers := b, ep_world := w, ep_answers := ep_answers e @ [r]\<rparr>)"

type_synonym link = "endpoint \<times> endpoint"

inductive link_step :: "SocketAddr \<Rightarrow> SocketAddr \<Rightarrow> link \<Rightarrow> link \<Rightarrow> bool" for a b where
  step_left: "endpoint_step b (traffic a f) e e' \<Longrightarrow> link_step a b (e, f) (e', f)"
| step_right: "endpoint_step a (traffic b e) f f' \<Longrightarrow> link_step a b (e, f) (e, f')"

text \<open>A side before anything happened.\<close>

definition endpoint_start :: "endpoint \<Rightarrow> bool" where
  "endpoint_start e \<longleftrightarrow> (\<exists>n. n \<noteq> 0 \<and> ep_buffers e = PacketBuffers_new n) \<and> sent (ep_world e) = [] \<and>
     ep_packets e = Map.empty \<and> ep_answers e = []"

text \<open>The ids drawn so far are distinct, which is what version 4 UUIDs promise.\<close>

definition ids_distinct :: "endpoint \<Rightarrow> bool" where
  "ids_distinct e \<longleftrightarrow> inj_on (uuid_source (ep_world e)) {..<uuids_drawn (ep_world e)}"

section \<open>The invariant\<close>

text \<open>A datagram of a side that was asked to send \<open>own\<close> and gets packets of \<open>other\<close>: a part of a packet
  of its own, the acknowledgement of a part of the other side, or \<open>Done\<close> for a packet of its own.\<close>

definition genuine :: "(PacketId \<rightharpoonup> u8 list) \<Rightarrow> (PacketId \<rightharpoonup> u8 list) \<Rightarrow> u8 list set \<Rightarrow> u8 list \<Rightarrow> bool" where
  "genuine own other arriving d \<longleftrightarrow>
     (\<exists>i bs. own i = Some bs \<and> d \<in> packet_frames i bs) \<or>
     (\<exists>i bs s. other i = Some bs \<and> part_frame i bs (unat s) \<in> arriving \<and> d = ack_bytes i s) \<or>
     (\<exists>i. own i \<noteq> None \<and> d = done_bytes i)"

definition sending_ok :: "SocketAddr \<Rightarrow> (PacketId \<rightharpoonup> u8 list) \<Rightarrow> u8 list set \<Rightarrow> endpoint \<Rightarrow> bool" where
  "sending_ok peer other arriving e \<longleftrightarrow>
     (\<forall>i bs. ep_packets e i = Some bs \<longrightarrow> length bs \<le> 491 * (2 ^ 32 - 1) \<and>
        (\<exists>k < uuids_drawn (ep_world e). i = PacketId (uuid_source (ep_world e) k))) \<and>
     (\<forall>(i, p) \<in> packets_of (ep_buffers e). \<exists>bs. ep_packets e i = Some bs \<and> out_wires p \<subseteq> packet_frames i bs) \<and>
     (\<forall>d \<in> traffic peer e. genuine (ep_packets e) other arriving d)"

definition receiving_ok :: "(PacketId \<rightharpoonup> u8 list) \<Rightarrow> endpoint \<Rightarrow> bool" where
  "receiving_ok other e \<longleftrightarrow> buffers_wf (ep_buffers e) \<and>
     (\<forall>(i, x) \<in> entries_of (ep_buffers e). \<exists>bs S. other i = Some bs \<and> receiving bs S (Some x))"

text \<open>What \<open>handle\<close> may answer: a delivered packet is one the other side was asked to send; the only
  errors are those of the network and late or premature acknowledgements.\<close>

definition answer_ok :: "(PacketId \<rightharpoonup> u8 list) \<Rightarrow> HandlePacketError + PacketHandling \<Rightarrow> bool" where
  "answer_ok other r \<longleftrightarrow>
     (case r of
        Inr (HandlingReceived (Reassembled bs)) \<Rightarrow> bs \<in> ran other
      | Inr _ \<Rightarrow> True
      | Inl (HandleReceive (PacketReceiveError i (ReceiveIo e))) \<Rightarrow> True
      | Inl (HandleAck e) \<Rightarrow> True
      | Inl _ \<Rightarrow> False)"

definition endpoint_ok :: "SocketAddr \<Rightarrow> (PacketId \<rightharpoonup> u8 list) \<Rightarrow> u8 list set \<Rightarrow> endpoint \<Rightarrow> bool" where
  "endpoint_ok peer other arriving e \<longleftrightarrow>
     sending_ok peer other arriving e \<and> receiving_ok other e \<and> (\<forall>r \<in> set (ep_answers e). answer_ok other r)"

definition link_ok :: "SocketAddr \<Rightarrow> SocketAddr \<Rightarrow> link \<Rightarrow> bool" where
  "link_ok a b l \<longleftrightarrow> endpoint_ok b (ep_packets (snd l)) (traffic a (snd l)) (fst l) \<and>
     endpoint_ok a (ep_packets (fst l)) (traffic b (fst l)) (snd l)"

definition link_invar :: "SocketAddr \<Rightarrow> SocketAddr \<Rightarrow> link \<Rightarrow> bool" where
  "link_invar a b l \<longleftrightarrow> (ids_distinct (fst l) \<and> ids_distinct (snd l) \<longrightarrow> link_ok a b l)"

lemma endpoint_start_ok: "endpoint_start e \<Longrightarrow> endpoint_ok peer other arriving e"
  by (auto simp: endpoint_start_def endpoint_ok_def sending_ok_def receiving_ok_def traffic_def
      PacketBuffers_new_wf) (auto simp: PacketBuffers_new_def SendPacketBuffer_new_def ReceivePacketBuffer_default_def)

text \<open>The other side sending more packets changes nothing.\<close>

lemma genuine_mono:
  "own \<subseteq>\<^sub>m own' \<Longrightarrow> other \<subseteq>\<^sub>m other' \<Longrightarrow> arriving \<subseteq> arriving' \<Longrightarrow>
     genuine own other arriving d \<Longrightarrow> genuine own' other' arriving' d"
  unfolding genuine_def map_le_def dom_def by (metis (mono_tags, lifting) mem_Collect_eq option.distinct(1) subsetD)

lemma answer_ok_mono: "other \<subseteq>\<^sub>m other' \<Longrightarrow> answer_ok other r \<Longrightarrow> answer_ok other' r"
proof -
  assume "other \<subseteq>\<^sub>m other'"
  then have "bs \<in> ran other \<Longrightarrow> bs \<in> ran other'" for bs by (fastforce simp: ran_def map_le_def dom_def)
  then show "answer_ok other r \<Longrightarrow> answer_ok other' r"
    by (auto simp: answer_ok_def split: sum.splits PacketHandling.splits ReceivedPacket.splits)
qed

lemma endpoint_ok_mono:
  assumes "other \<subseteq>\<^sub>m other'" "arriving \<subseteq> arriving'" "endpoint_ok peer other arriving e"
  shows "endpoint_ok peer other' arriving' e"
proof -
  have "sending_ok peer other' arriving' e"
    using assms genuine_mono [OF map_le_refl assms(1,2)] by (auto simp: endpoint_ok_def sending_ok_def)
  moreover have "receiving_ok other' e"
    using assms(1,3) by (fastforce simp: endpoint_ok_def receiving_ok_def map_le_def dom_def)
  ultimately show ?thesis using assms answer_ok_mono by (auto simp: endpoint_ok_def)
qed

section \<open>Handling a genuine datagram\<close>

lemma handle_part_effect:
  assumes "PacketBuffers_handle pb (part_frame i bs idx) (udp peer) w = Some (r, pb', w')"
    and "recv_wf (pbs_receive_buffer pb)" "receiving bs S (incoming pb i)" "idx < length (chunks bs)" "length (chunks bs) < 2 ^ 32"
  obtains rb where "pb' = pb\<lparr>pbs_receive_buffer := rb\<rparr>" "receiving bs (insert idx S) (BTreeMap_get (rb_packets rb) i)"
    "\<And>j. j \<noteq> i \<Longrightarrow> BTreeMap_get (rb_packets rb) j = incoming pb j"
    "emits peer {ack_bytes i (of_nat idx)} w w'"
    "r = Inr (HandlingReceived (outcome bs S idx)) \<or> (\<exists>x. r = Inl (HandleReceive (PacketReceiveError i (ReceiveIo x))))"
proof -
  let ?rb = "pbs_receive_buffer pb"
  have "part_frame i bs idx \<noteq> []" by (simp add: part_frame_def part_bytes_def header_def)
  note handle = assms(1) [unfolded PacketBuffers_handle_def if_not_P [OF this]]
  have "in_window ?rb i (of_nat idx)"
    by (rule ccontr) (use handle handle_part_frame_outside [OF assms(3-5), of "udp peer" w] in simp)
  from handle_part_frame_window [OF assms(2,3,5,4) this, of "udp peer" w] obtain rb t where
    h: "ReceivePacketBuffer_handle ?rb (part_frame i bs idx) (udp peer) w
      = do { (r, w') \<leftarrow> ack i (of_nat idx) (udp peer) (w\<lparr>ticks := t\<rparr>);
             Some (case r of Inl e \<Rightarrow> Inl (HandleReceive e)
                   | Inr _ \<Rightarrow> Inr (ReceivedAck (outcome bs S idx)), rb, w') }"
    and rb: "receiving bs (insert idx S) (BTreeMap_get (rb_packets rb) i)"
      "\<forall>j. j \<noteq> i \<longrightarrow> BTreeMap_get (rb_packets rb) j = incoming pb j"
    by blast
  from handle obtain ra where a: "udp peer (ack_bytes i (of_nat idx)) (w\<lparr>ticks := t\<rparr>) = Some (ra, w')"
    "pb' = pb\<lparr>pbs_receive_buffer := rb\<rparr>"
    "r = (case ra of Inl e \<Rightarrow> Inl (HandleReceive (PacketReceiveError i (ReceiveIo e)))
          | Inr _ \<Rightarrow> Inr (HandlingReceived (outcome bs S idx)))"
    unfolding h ack_eq by (auto simp: run_simps split: sum.split_asm)
  have "emits peer {ack_bytes i (of_nat idx)} (w\<lparr>ticks := t\<rparr>) w'" using udp.send_emits [OF a(1)] by blast
  with a(2,3) rb show ?thesis by (intro that [of rb]) (auto split: sum.split)
qed

lemma handle_ack_effect:
  assumes "PacketBuffers_handle pb (ack_bytes i s) socket w = Some (r, pb', w')"
  obtains "w' = w" "pbs_receive_buffer pb' = pbs_receive_buffer pb"
    "\<forall>(j, p') \<in> packets_of pb'. \<exists>p. (j, p) \<in> packets_of pb \<and> out_wires p' \<subseteq> out_wires p"
    "(\<exists>x. r = Inr (HandlingAck x)) \<or> (\<exists>x. r = Inl (HandleAck x))"
proof -
  let ?sb = "pbs_send_buffer pb"
  have r: "w' = w" "pb' = pb\<lparr>pbs_send_buffer := snd (SendPacketBuffer_ack ?sb i s)\<rparr>"
    "(\<exists>x. r = Inr (HandlingAck x)) \<or> (\<exists>x. r = Inl (HandleAck x))"
    using assms unfolding handle_ack_frame by (auto split: prod.split_asm sum.split_asm)
  have "\<exists>p. (j, p) \<in> packets_of pb \<and> out_wires p' \<subseteq> out_wires p"
    if new: "(j, p') \<in> set (sb_packets (snd (SendPacketBuffer_ack ?sb i s)))" for j p'
  proof (cases "BTreeMap_get (sb_packets ?sb) i")
    case None
    with new show ?thesis by (auto simp: SendPacketBuffer_ack_def)
  next
    case (Some p)
    then have old: "(i, p) \<in> packets_of pb" by (auto simp: BTreeMap_get_def dest: map_of_SomeD)
    have "(j, p') \<in> set (BTreeMap_insert i (snd (PacketOut_ack p s)) (sb_packets ?sb))"
      using new Some by (auto simp: SendPacketBuffer_ack_def Let_def split_def split: sum.split_asm)
    then have "j = i \<and> p' = snd (PacketOut_ack p s) \<or> (j, p') \<in> packets_of pb"
      by (auto dest!: set_BTreeMap_insertD)
    with old out_wires_ack [of p s] show ?thesis by blast
  qed
  with r show ?thesis by (intro that) auto
qed

section \<open>Every step keeps the invariant\<close>

lemma sending_okD:
  assumes "sending_ok peer other arriving e"
  shows "ep_packets e i = Some bs \<Longrightarrow> length bs \<le> 491 * (2 ^ 32 - 1)"
    "ep_packets e i = Some bs \<Longrightarrow> \<exists>k < uuids_drawn (ep_world e). i = PacketId (uuid_source (ep_world e) k)"
    "(i, p) \<in> packets_of (ep_buffers e) \<Longrightarrow> \<exists>bs. ep_packets e i = Some bs \<and> out_wires p \<subseteq> packet_frames i bs"
    "d \<in> traffic peer e \<Longrightarrow> genuine (ep_packets e) other arriving d"
  using assms by (auto simp: sending_ok_def)

text \<open>Steps that send nothing but genuine datagrams and only lose parts they had.\<close>

lemma sending_ok_emits:
  assumes "sending_ok peer other arriving e" "emits peer F (ep_world e) w" "\<And>d. d \<in> F \<Longrightarrow> genuine (ep_packets e) other arriving d"
    and "\<forall>(i, p') \<in> packets_of b. \<exists>p. (i, p) \<in> packets_of (ep_buffers e) \<and> out_wires p' \<subseteq> out_wires p"
    and "ep_world e' = w" "ep_buffers e' = b" "ep_packets e' = ep_packets e"
  shows "sending_ok peer other arriving e'"
proof -
  have w: "uuid_source w = uuid_source (ep_world e)" "uuids_drawn w = uuids_drawn (ep_world e)"
    "traffic peer e' \<subseteq> traffic peer e \<union> F"
    using assms(2,5) by (auto simp: emits_def same_env_def traffic_def)
  have "\<forall>(i, p) \<in> packets_of b. \<exists>bs. ep_packets e i = Some bs \<and> out_wires p \<subseteq> packet_frames i bs"
  proof clarify
    fix i p' assume "(i, p') \<in> packets_of b"
    then obtain p where "(i, p) \<in> packets_of (ep_buffers e)" "out_wires p' \<subseteq> out_wires p" using assms(4) by blast
    with sending_okD(3) [OF assms(1)] show "\<exists>bs. ep_packets e i = Some bs \<and> out_wires p' \<subseteq> packet_frames i bs"
      by (meson order_trans)
  qed
  moreover have "\<forall>d \<in> traffic peer e'. genuine (ep_packets e) other arriving d"
    using w(3) assms(1,3) by (auto simp: sending_ok_def)
  ultimately show ?thesis using assms(1,5-7) w(1,2) by (simp add: sending_ok_def)
qed

lemma step_send_ok:
  assumes ok: "endpoint_ok peer other arriving e"
    and send: "PacketBuffers_send (ep_buffers e) ws t (udp peer) (ep_world e) = Some (r, b, w)"
    and bs: "length (concat ws) \<le> 491 * (2 ^ 32 - 1)" and ids: "inj_on (uuid_source w) {..<uuids_drawn w}"
  shows "endpoint_ok peer other arriving (e\<lparr>ep_buffers := b, ep_world := w,
    ep_packets := (ep_packets e)(fst (PacketId_new (ep_world e)) \<mapsto> concat ws)\<rparr>)"
    "ep_packets e \<subseteq>\<^sub>m (ep_packets e)(fst (PacketId_new (ep_world e)) \<mapsto> concat ws)"
proof -
  let ?w = "ep_world e" let ?i = "fst (PacketId_new ?w)" let ?own = "(ep_packets e)(?i \<mapsto> concat ws)"
  let ?e = "e\<lparr>ep_buffers := b, ep_world := w, ep_packets := ?own\<rparr>"
  have s: "sending_ok peer other arriving e" and r: "receiving_ok other e" using ok by (simp_all add: endpoint_ok_def)
  have i: "?i = PacketId (uuid_source ?w (uuids_drawn ?w))" by (simp add: PacketId_new_def Uuid_new_v4_def)
  have big: "length (concat ws) \<le> 491 * 2 ^ 32" using bs by simp
  note out = udp.PacketBuffers_send_emits [OF send big refl]
  have w: "uuid_source w = uuid_source ?w" "uuids_drawn w = Suc (uuids_drawn ?w)"
    "traffic peer ?e \<subseteq> traffic peer e \<union> packet_frames ?i (concat ws)"
    using out(1) by (auto simp: emits_def same_env_def traffic_def)
  have "uuid_source ?w k \<noteq> uuid_source ?w (uuids_drawn ?w)" if "k < uuids_drawn ?w" for k
    using that ids inj_onD [of "uuid_source ?w" "{..<Suc (uuids_drawn ?w)}" k "uuids_drawn ?w"] by (auto simp: w(1,2))
  then have new: "ep_packets e ?i = None" using sending_okD(2) [OF s, of ?i] unfolding i by fastforce
  then show le: "ep_packets e \<subseteq>\<^sub>m ?own" by (auto simp: map_le_def)
  have "genuine ?own other arriving d" if "d \<in> packet_frames ?i (concat ws)" for d
    using that unfolding genuine_def by (intro disjI1 exI [of _ ?i] exI [of _ "concat ws"]) simp
  then have log: "\<forall>d \<in> traffic peer ?e. genuine ?own other arriving d"
    using w(3) sending_okD(4) [OF s] genuine_mono [OF le map_le_refl order_refl] by blast
  have "\<forall>(i, p) \<in> packets_of b. \<exists>bs. ?own i = Some bs \<and> out_wires p \<subseteq> packet_frames i bs"
  proof clarify
    fix j p assume "(j, p) \<in> packets_of b"
    then consider "(j, p) \<in> packets_of (ep_buffers e)" | "j = ?i" "out_wires p = packet_frames ?i (concat ws)"
      using out(2) by blast
    then show "\<exists>bs. ?own j = Some bs \<and> out_wires p \<subseteq> packet_frames j bs"
    proof cases
      case 1
      from sending_okD(3) [OF s this] obtain bs where "ep_packets e j = Some bs" "out_wires p \<subseteq> packet_frames j bs" by blast
      with new show ?thesis by (intro exI [of _ bs]) auto
    qed auto
  qed
  moreover have "\<forall>j x. ?own j = Some x \<longrightarrow> length x \<le> 491 * (2 ^ 32 - 1) \<and>
      (\<exists>k < uuids_drawn w. j = PacketId (uuid_source w k))"
    using sending_okD(1,2) [OF s] bs i w(1,2) by (auto simp: less_Suc_eq) blast
  ultimately have "sending_ok peer other arriving ?e" using s log w(1) by (simp add: sending_ok_def)
  moreover have "receiving_ok other ?e"
    using r PacketBuffers_send_wf [OF send] big out(3) by (simp add: receiving_ok_def)
  ultimately show "endpoint_ok peer other arriving ?e" using ok by (simp add: endpoint_ok_def)
qed

lemma step_update_ok:
  assumes ok: "endpoint_ok peer other arriving e"
    and update: "PacketBuffers_update (ep_buffers e) d m rt (udp peer) (ep_world e) = Some (r, b, w)"
  shows "endpoint_ok peer other arriving (e\<lparr>ep_buffers := b, ep_world := w\<rparr>)"
proof -
  have s: "sending_ok peer other arriving e" and r: "receiving_ok other e" using ok by (simp_all add: endpoint_ok_def)
  define F where "F = (\<Union>(i, p) \<in> packets_of (ep_buffers e). insert (done_bytes i) (out_wires p))"
  have "insert (done_bytes i) (out_wires p) \<subseteq> F" if "(i, p) \<in> packets_of (ep_buffers e)" for i p
    using that by (auto simp: F_def)
  note out = udp.PacketBuffers_update_emits [OF update this]
  have "genuine (ep_packets e) other arriving x" if x: "x \<in> F" for x
  proof -
    obtain i p where p: "(i, p) \<in> packets_of (ep_buffers e)" "x = done_bytes i \<or> x \<in> out_wires p"
      using x by (auto simp: F_def)
    from sending_okD(3) [OF s p(1)] obtain bs where "ep_packets e i = Some bs" "out_wires p \<subseteq> packet_frames i bs" by blast
    with p(2) show ?thesis by (auto simp: genuine_def)
  qed
  with out(1,2) have "sending_ok peer other arriving (e\<lparr>ep_buffers := b, ep_world := w\<rparr>)"
    by (intro sending_ok_emits [OF s, of F w b]) fastforce+
  moreover have "receiving_ok other (e\<lparr>ep_buffers := b, ep_world := w\<rparr>)"
    using r PacketBuffers_update_wf [OF update] out(3) by (auto simp: receiving_ok_def)
  ultimately show ?thesis using ok by (simp add: endpoint_ok_def)
qed

lemma receiving_okD:
  assumes "receiving_ok other e"
  shows "recv_wf (pbs_receive_buffer (ep_buffers e))"
    "incoming (ep_buffers e) j = Some x \<Longrightarrow> \<exists>bs S. other j = Some bs \<and> receiving bs S (Some x)"
    "other i = Some bs \<Longrightarrow> \<exists>S. receiving bs S (incoming (ep_buffers e) i)"
proof -
  show wf: "recv_wf (pbs_receive_buffer (ep_buffers e))" using assms by (simp add: receiving_ok_def buffers_wf_def)
  have known: "\<exists>bs S. other j = Some bs \<and> receiving bs S (Some x)" if "incoming (ep_buffers e) j = Some x" for j x
    using that assms entries_get [OF wf] by (fastforce simp: receiving_ok_def)
  then show "incoming (ep_buffers e) j = Some x \<Longrightarrow> \<exists>bs S. other j = Some bs \<and> receiving bs S (Some x)" .
  show "other i = Some bs \<Longrightarrow> \<exists>S. receiving bs S (incoming (ep_buffers e) i)"
    using known [of i] by (cases "incoming (ep_buffers e) i") (auto simp: receiving_def)
qed

lemma step_handle_part_ok:
  assumes ok: "endpoint_ok peer other arriving e" and part: "other i = Some bs" "idx < length (chunks bs)" "length bs \<le> 491 * (2 ^ 32 - 1)"
      "part_frame i bs idx \<in> arriving"
    and handle: "PacketBuffers_handle (ep_buffers e) (part_frame i bs idx) (udp peer) (ep_world e) = Some (r, b, w)"
  shows "endpoint_ok peer other arriving (e\<lparr>ep_buffers := b, ep_world := w, ep_answers := ep_answers e @ [r]\<rparr>)" (is "endpoint_ok _ _ _ ?e")
proof -
  let ?b = "ep_buffers e"
  have s: "sending_ok peer other arriving e" and r: "receiving_ok other e" using ok by (simp_all add: endpoint_ok_def)
  note wf = receiving_okD(1) [OF r] and known = receiving_okD(2) [OF r]
  obtain S where S: "receiving bs S (incoming ?b i)" using receiving_okD(3) [OF r part(1)] ..
  have n: "length (chunks bs) < 2 ^ 32" using part_count_bound [OF part(3)] by (simp add: length_chunks)
  obtain rb where rb: "b = ?b\<lparr>pbs_receive_buffer := rb\<rparr>" "receiving bs (insert idx S) (BTreeMap_get (rb_packets rb) i)"
    "\<And>j. j \<noteq> i \<Longrightarrow> BTreeMap_get (rb_packets rb) j = incoming ?b j" "emits peer {ack_bytes i (of_nat idx)} (ep_world e) w"
    and answer: "r = Inr (HandlingReceived (outcome bs S idx)) \<or> (\<exists>x. r = Inl (HandleReceive (PacketReceiveError i (ReceiveIo x))))"
    by (rule handle_part_effect [OF handle wf S part(2) n]) blast
  have b: "buffers_wf b" using PacketBuffers_handle_wf [OF _ handle] r by (simp add: receiving_ok_def)
  then have "\<forall>(j, x) \<in> entries_of b. \<exists>bs S. other j = Some bs \<and> receiving bs S (Some x)"
  proof clarify
    fix j x assume "(j, x) \<in> entries_of b"
    then have x: "BTreeMap_get (rb_packets rb) j = Some x" using entries_get [of b j x] b rb(1) by (simp add: buffers_wf_def)
    show "\<exists>bs S. other j = Some bs \<and> receiving bs S (Some x)"
      using rb(2,3) x known [of j x] part(1) by (cases "j = i") auto
  qed
  then have "receiving_ok other ?e" using b by (simp add: receiving_ok_def)
  moreover have "unat (of_nat idx :: u32) = idx" using part(2) n by (simp add: unat_u32_of_nat)
  then have "genuine (ep_packets e) other arriving (ack_bytes i (of_nat idx))"
    unfolding genuine_def
    by (intro disjI2 [OF disjI1] exI [of _ i] exI [of _ bs] exI [of _ "of_nat idx"]) (use part(1,4) in simp)
  then have "sending_ok peer other arriving ?e" by (intro sending_ok_emits [OF s rb(4)]) (auto simp: rb(1))
  moreover have "answer_ok other r"
    using answer part(1) by (auto simp: answer_ok_def outcome_def ranI)
  ultimately show ?thesis using ok by (simp add: endpoint_ok_def)
qed

lemma step_handle_ok:
  assumes ok: "endpoint_ok peer other arriving e" and d: "genuine other (ep_packets e) own d" "d \<in> arriving"
    and size: "\<And>i bs. other i = Some bs \<Longrightarrow> length bs \<le> 491 * (2 ^ 32 - 1)"
    and handle: "PacketBuffers_handle (ep_buffers e) d (udp peer) (ep_world e) = Some (r, b, w)"
  shows "endpoint_ok peer other arriving (e\<lparr>ep_buffers := b, ep_world := w, ep_answers := ep_answers e @ [r]\<rparr>)" (is "endpoint_ok _ _ _ ?e")
proof -
  have s: "sending_ok peer other arriving e" and r: "receiving_ok other e" using ok by (simp_all add: endpoint_ok_def)
  have b: "buffers_wf b" using PacketBuffers_handle_wf [OF _ handle] r by (simp add: receiving_ok_def)
  from d(1) consider (part) i bs idx where "other i = Some bs" "idx < length (chunks bs)" "d = part_frame i bs idx"
    | (ack) i k where "d = ack_bytes i k" | (finished) i where "d = done_bytes i"
    by (auto simp: genuine_def packet_frames_def)
  then show ?thesis
  proof cases
    case part
    with step_handle_part_ok [OF ok part(1,2) size [OF part(1)]] handle d(2) show ?thesis by simp
  next
    case ack
    from handle [unfolded ack] obtain "w = ep_world e" "pbs_receive_buffer b = pbs_receive_buffer (ep_buffers e)"
      and out: "\<forall>(j, p') \<in> packets_of b. \<exists>p. (j, p) \<in> packets_of (ep_buffers e) \<and> out_wires p' \<subseteq> out_wires p"
      and "(\<exists>x. r = Inr (HandlingAck x)) \<or> (\<exists>x. r = Inl (HandleAck x))"
      by (rule handle_ack_effect)
    then have f: "w = ep_world e" "receiving_ok other ?e" "answer_ok other r"
      using r b by (auto simp: receiving_ok_def answer_ok_def)
    have "sending_ok peer other arriving ?e" by (rule sending_ok_emits [OF s, of "{}" w b]) (use out in \<open>simp_all add: f(1)\<close>)
    with ok f(2,3) show ?thesis by (simp add: endpoint_ok_def)
  next
    case finished
    from handle [unfolded finished handle_done] have f: "w = ep_world e" "packets_of b = packets_of (ep_buffers e)"
      "entries_of b \<subseteq> entries_of (ep_buffers e)" "answer_ok other r"
      by (auto simp: answer_ok_def BTreeMap_remove_def)
    have "sending_ok peer other arriving ?e" by (rule sending_ok_emits [OF s, of "{}"]) (auto simp: f)
    moreover have "receiving_ok other ?e" using r b f(3) by (auto simp: receiving_ok_def)
    ultimately show ?thesis using ok f(4) by (simp add: endpoint_ok_def)
  qed
qed

lemma endpoint_step_frame:
  assumes "endpoint_step peer arriving e e'"
  shows "traffic a e \<subseteq> traffic a e'" "ids_distinct e' \<Longrightarrow> ids_distinct e"
proof -
  obtain w where w: "emits peer UNIV w (ep_world e')" "w = ep_world e \<or> w = ep_world e\<lparr>uuids_drawn := Suc (uuids_drawn (ep_world e))\<rparr>"
    using assms
  proof cases
    case (step_send ws t r b w)
    have "length (concat ws) \<le> 491 * 2 ^ 32" using step_send(3) by simp
    from udp.PacketBuffers_send_emits(1) [OF step_send(2) this refl] show ?thesis
      using that step_send(1) emits_mono by fastforce
  next
    case (step_update d m rt r b w)
    have "emits peer UNIV (ep_world e) w" by (rule udp.PacketBuffers_update_emits(1) [OF step_update(2)]) simp
    with step_update(1) show ?thesis using that [of "ep_world e"] by simp
  next
    case (step_handle buf r b w)
    from udp.PacketBuffers_handle_emits [OF step_handle(3)] step_handle(1) show ?thesis
      using that [of "ep_world e"] by simp
  qed
  then show "traffic a e \<subseteq> traffic a e'" by (auto simp: traffic_def emits_def)
  show "ids_distinct e' \<Longrightarrow> ids_distinct e"
    using w by (auto simp: ids_distinct_def emits_def same_env_def lessThan_Suc intro: inj_on_subset)
qed

lemma endpoint_step_ok:
  assumes "endpoint_step peer (traffic me f) e e'" "endpoint_ok peer (ep_packets f) (traffic me f) e"
    and "endpoint_ok me (ep_packets e) (traffic peer e) f" "ids_distinct e'"
  shows "endpoint_ok peer (ep_packets f) (traffic me f) e' \<and> endpoint_ok me (ep_packets e') (traffic peer e') f"
proof -
  have f: "sending_ok me (ep_packets e) (traffic peer e) f" using assms(3) by (simp add: endpoint_ok_def)
  have "endpoint_ok peer (ep_packets f) (traffic me f) e' \<and> ep_packets e \<subseteq>\<^sub>m ep_packets e'"
    using assms(1)
  proof cases
    case (step_send ws t r b w)
    with step_send_ok [OF assms(2) step_send(2,3)] assms(4) show ?thesis by (simp add: ids_distinct_def)
  next
    case (step_update d m rt r b w)
    with step_update_ok [OF assms(2)] show ?thesis by simp
  next
    case (step_handle buf r b w)
    from step_handle_ok [OF assms(2) sending_okD(4) [OF f step_handle(2)] step_handle(2) sending_okD(1) [OF f] step_handle(3)]
    show ?thesis using step_handle(1) by simp
  qed
  with endpoint_ok_mono [OF _ endpoint_step_frame(1) [OF assms(1)] assms(3)] show ?thesis by blast
qed

interpretation link: transition_system "link_step a b" "link_invar a b" for a b
proof unfold_locales
  fix l l' assume "link_step a b l l'" "link_invar a b l"
  then show "link_invar a b l'"
    by (cases rule: link_step.cases)
      (use endpoint_step_ok endpoint_step_frame(2) in \<open>auto simp: link_invar_def link_ok_def\<close>)
qed

section \<open>What the invariant gives\<close>

lemma delivered_sent:
  assumes "\<forall>r \<in> set rs. answer_ok other r" shows "set (delivered rs) \<subseteq> ran other"
  using assms
  by (fastforce simp: delivered_def answer_ok_def split: sum.splits PacketHandling.splits ReceivedPacket.splits)

lemma answer_ok_error:
  "answer_ok other (Inl x) \<Longrightarrow> (\<exists>y. x = HandleAck y) \<or> (\<exists>i y. x = HandleReceive (PacketReceiveError i (ReceiveIo y)))"
  by (auto simp: answer_ok_def split: HandlePacketError.split_asm PacketReceiveError.split_asm
      PacketReceiveErrorKind.split_asm)

lemma genuine_handled:
  assumes "receiving_ok other e" "genuine other own arriving d" "whole_datagrams (ep_world e)"
    and "\<And>i bs. other i = Some bs \<Longrightarrow> length (chunks bs) < 256"
  shows "PacketBuffers_handle (ep_buffers e) d (udp peer) (ep_world e) \<noteq> None"
proof -
  let ?b = "ep_buffers e" let ?w = "ep_world e"
  from assms(2) consider (part) i bs idx where "other i = Some bs" "idx < length (chunks bs)" "d = part_frame i bs idx"
    | (ack) i k where "d = ack_bytes i k" | (finished) i where "d = done_bytes i"
    by (auto simp: genuine_def packet_frames_def)
  then show ?thesis
  proof cases
    case part
    note wf = receiving_okD(1) [OF assms(1)]
    obtain S where S: "receiving bs S (incoming ?b i)" using receiving_okD(3) [OF assms(1) part(1)] ..
    have n: "length (chunks bs) < 256" "length (chunks bs) < 2 ^ 32" using assms(4) [OF part(1)] by simp_all
    obtain rb t where h: "ReceivePacketBuffer_handle (pbs_receive_buffer ?b) d (udp peer) ?w
      = do { (r, w') \<leftarrow> ack i (of_nat idx) (udp peer) (?w\<lparr>ticks := t\<rparr>);
             Some (case r of Inl e \<Rightarrow> Inl (HandleReceive e)
                   | Inr _ \<Rightarrow> Inr (ReceivedAck (outcome bs S idx)), rb, w') }"
      using handle_part_frame [OF wf S n(2) part(2) disjI2 [OF n(1)], of "udp peer" ?w] unfolding part(3) by blast
    have "whole_datagrams (?w\<lparr>ticks := t\<rparr>)" using assms(3) by (simp add: whole_datagrams_def)
    then obtain r w' where "udp peer (ack_bytes i (of_nat idx)) (?w\<lparr>ticks := t\<rparr>) = Some (r, w')"
      by (rule udp.sendE)
    moreover have "d \<noteq> []" by (simp add: part(3) part_frame_def part_bytes_def header_def)
    ultimately show ?thesis by (auto simp: PacketBuffers_handle_def h ack_eq Let_def split: sum.split)
  qed (auto simp: handle_ack_frame handle_done split: prod.split sum.split)
qed

text \<open>An acknowledgement on the wire is for a part that arrived.\<close>

lemma ack_bytes_inject: "ack_bytes i s = ack_bytes j t \<longleftrightarrow> i = j \<and> s = t"
proof
  assume "ack_bytes i s = ack_bytes j t"
  then have "PacketId_as_bytes i = PacketId_as_bytes j" "u32_to_le_bytes s = u32_to_le_bytes t"
    by (simp_all add: ack_bytes_def)
  then show "i = j \<and> s = t" by (metis PacketId_roundtrip option.inject u32_le_roundtrip)
qed simp

lemma ack_bytes_other: "ack_bytes i s \<notin> packet_frames j bs" "ack_bytes i s \<noteq> done_bytes j"
  by (auto simp: packet_frames_def part_frame_def part_bytes_def header_def ack_bytes_def done_bytes_def
      PacketKind_into_def split: if_split_asm)

lemma genuine_ack:
  assumes "genuine own other arriving (ack_bytes i s)"
  obtains bs where "other i = Some bs" "part_frame i bs (unat s) \<in> arriving"
  using assms by (auto simp: genuine_def ack_bytes_inject ack_bytes_other)

lemma link_reachable_ok:
  assumes "endpoint_start e" "endpoint_start f" "(link_step a b)\<^sup>*\<^sup>* (e, f) (e', f')"
    and "ids_distinct e'" "ids_distinct f'"
  shows "endpoint_ok b (ep_packets f') (traffic a f') e'" "endpoint_ok a (ep_packets e') (traffic b e') f'"
proof -
  have "link_invar a b (e', f')"
    by (rule link.steps_invar [OF assms(3)]) (simp add: link_invar_def link_ok_def endpoint_start_ok assms(1,2))
  with assms(4,5) show "endpoint_ok b (ep_packets f') (traffic a f') e'" "endpoint_ok a (ep_packets e') (traffic b e') f'"
    by (simp_all add: link_invar_def link_ok_def)
qed

end
