(* ===== verification/False_Acks.thy ===== *)
theory False_Acks
  imports Single_Part Emits
begin

text \<open>
  Acknowledgements and the front of the queue: \<open>PacketQueue::ack\<close> takes the sequence index as an
  index into the parts that are left, so every acknowledgement of part 0 removes the first of them.
  The lemmas follow a packet of one batch through as many copies of that acknowledgement as it has
  parts.
\<close>

text \<open>A queue that holds all of its parts: the acknowledgement of part 0 always takes the first part
  that is left.\<close>

lemma handle_front_ack:
  assumes "sb_packets (pbs_send_buffer pb) = [(i, p)]" "pq_packets (po_packet_queue p) = x # xs" "\<forall>y \<in> set (x # xs). \<not> pb_acked y"
  obtains p' where "PacketBuffers_handle pb (ack_bytes i 0) s w = Some (Inr (HandlingAck False),
      pb\<lparr>pbs_send_buffer := (pbs_send_buffer pb)\<lparr>sb_packets := [(i, p')]\<rparr>\<rparr>, w)"
    "pq_packets (po_packet_queue p') = xs" "rx_parts (po_packet_queue p') = rx_parts (po_packet_queue p)"
    "po_last_send p' = po_last_send p" "po_missed_acks p' = 0"
proof -
  let ?q = "po_packet_queue p"
  have "unat (0 :: u32) < length (pq_packets ?q)" "\<not> pb_acked (pq_packets ?q ! unat (0 :: u32))"
    using assms(2,3) by simp_all
  from ack_fresh [OF this] have q: "fst (PacketQueue_ack ?q 0) = Inr False" "pq_packets (snd (PacketQueue_ack ?q 0)) = xs"
    "rx_parts (snd (PacketQueue_ack ?q 0)) = rx_parts ?q"
    using assms(2,3) by (simp_all add: mark_def rx_parts_def dropWhile_eq_self_iff hd_conv_nth neq_Nil_conv)
  obtain q' where q': "PacketQueue_ack ?q 0 = (Inr False, q')" using q(1) by (cases "PacketQueue_ack ?q 0") simp
  show ?thesis
    by (rule that [of "snd (PacketOut_ack p 0)"])
      (use assms(1) q in \<open>simp_all add: handle_ack_frame SendPacketBuffer_ack_def BTreeMap_get_def PacketOut_ack_def q'\<close>)
qed

lemma handle_front_acks:
  assumes "sb_packets (pbs_send_buffer pb) = [(i, p)]" "pq_packets (po_packet_queue p) = xs" "\<forall>y \<in> set xs. \<not> pb_acked y"
  shows "\<exists>p'. handle_all pb (replicate (length xs) (ack_bytes i 0)) s w = Some (replicate (length xs) (Inr (HandlingAck False)),
      pb\<lparr>pbs_send_buffer := (pbs_send_buffer pb)\<lparr>sb_packets := [(i, p')]\<rparr>\<rparr>, w) \<and>
    pq_packets (po_packet_queue p') = [] \<and> rx_parts (po_packet_queue p') = rx_parts (po_packet_queue p) \<and>
    po_last_send p' = po_last_send p \<and> (po_missed_acks p = 0 \<longrightarrow> po_missed_acks p' = 0)"
  using assms
proof (induction xs arbitrary: pb p)
  case Nil
  then have "pb\<lparr>pbs_send_buffer := (pbs_send_buffer pb)\<lparr>sb_packets := [(i, p)]\<rparr>\<rparr> = pb" by simp
  with Nil show ?case by (intro exI [of _ p]) simp
next
  case (Cons x xs)
  obtain p1 where p1: "PacketBuffers_handle pb (ack_bytes i 0) s w = Some (Inr (HandlingAck False),
      pb\<lparr>pbs_send_buffer := (pbs_send_buffer pb)\<lparr>sb_packets := [(i, p1)]\<rparr>\<rparr>, w)"
    "pq_packets (po_packet_queue p1) = xs" "rx_parts (po_packet_queue p1) = rx_parts (po_packet_queue p)"
    "po_last_send p1 = po_last_send p" "po_missed_acks p1 = 0"
    by (rule handle_front_ack [OF Cons.prems])
  have "sb_packets (pbs_send_buffer (pb\<lparr>pbs_send_buffer := (pbs_send_buffer pb)\<lparr>sb_packets := [(i, p1)]\<rparr>\<rparr>)) = [(i, p1)]" by simp
  from Cons.IH [OF this p1(2)] Cons.prems(3) p1 show ?case by auto
qed

text \<open>Sending a packet that fits into the first batch, on a network that takes every datagram.\<close>

lemma send_items_all:
  assumes "network_up w" "unat c + length bufs < 2 ^ 16"
  shows "\<exists>c'. send_items (map Some bufs) c (udp a) w
    = Some (Inr (c', True), w\<lparr>sends := sends w + length bufs, sent := sent w @ map (Pair a) bufs\<rparr>)"
  using assms
proof (induction bufs arbitrary: c w)
  case (Cons buf bufs)
  let ?w = "w\<lparr>sends := Suc (sends w), sent := sent w @ [(a, buf)]\<rparr>"
  have c: "u16_add c 1 = Some (c + 1)" "unat (c + 1) = Suc (unat c)"
    using Cons.prems(2) by (auto simp: u16_add_def unat_word_ariths)
  have "network_up ?w" "unat (c + 1) + length bufs < 2 ^ 16" using Cons.prems c(2) by simp_all
  from Cons.IH [OF this] show ?case using Cons.prems(1) by (simp add: udp_up c(1))
qed simp

lemma fill_all:
  assumes "length (SerializedPacket_parts p) \<le> n"
  shows "pq_packets (PacketQueue_fill (PacketQueue_new p) n) = SerializedPacket_parts p"
    "rx_parts (PacketQueue_fill (PacketQueue_new p) n) = []"
  using assms
  by (auto simp: PacketQueue_fill_def PacketQueue_new_def rx_parts_def SerializedPacket_parts_def Let_def split: SerializedPacket.splits)

lemma send_one_batch:
  assumes up: "network_up w" and n: "length (chunks (concat ws)) \<le> unat k" and i: "i = fst (PacketId_new w)"
  obtains p pb w' where "PacketBuffers_send (PacketBuffers_new k) ws t (udp a) w = Some (Inr i, pb, w')"
    "pb = (PacketBuffers_new k)\<lparr>pbs_send_buffer := (SendPacketBuffer_new k)\<lparr>sb_packets := [(i, p)]\<rparr>\<rparr>"
    "pq_packets (po_packet_queue p) = part_list i (concat ws)" "rx_parts (po_packet_queue p) = []"
    "po_last_send p = Some (clock w (ticks w))" "po_missed_acks p = 0"
    "clock w' = clock w" "ticks w' = Suc (ticks w)" "network_up w'"
    "sent w' = sent w @ map (Pair a) (map (part_frame i (concat ws)) [0..<length (chunks (concat ws))])"
proof -
  let ?bs = "concat ws" let ?w = "w\<lparr>uuids_drawn := Suc (uuids_drawn w)\<rparr>" let ?frames = "map (part_frame i ?bs) [0..<length (chunks ?bs)]"
  have new: "PacketId_new w = (i, ?w)" using i by (simp add: PacketId_new_def Uuid_new_v4_def)
  have small: "length (chunks ?bs) < 2 ^ 16" using le_less_trans [OF n unat_u16_less] by simp
  have "length bs \<le> 491 * 2 ^ 32" if "length (chunks bs) < 2 ^ 16" for bs
    using that by (simp add: length_chunks part_count_def split: if_split_asm)
  from this [OF small] obtain p where p: "serialize_packet i t ws = Some p" "SerializedPacket_parts p = part_list i ?bs"
    by (rule serialize_packet_parts)
  let ?q = "PacketQueue_fill (PacketQueue_new p) (unat k)"
  have q: "pq_packets ?q = part_list i ?bs" "rx_parts ?q = []" using fill_all [of p "unat k"] n by (simp_all add: p(2))
  have "filter (\<lambda>b. \<not> pb_acked b) (part_list i ?bs) = part_list i ?bs" using part_list_sendable by (simp add: filter_id_conv)
  moreover have "map PacketBuffer_deref (part_list i ?bs) = map Some ?frames"
    by (rule nth_equalityI) (simp_all add: part_list_deref)
  ultimately have items: "fst (PacketQueue_unacked (PacketQueue_new p) (unat k)) = map Some ?frames"
    using n by (simp add: PacketQueue_unacked_def Let_def q(1))
  obtain c where c: "send_items (map Some ?frames) 0 (udp a) ?w
      = Some (Inr (c, True), ?w\<lparr>sends := sends w + length ?frames, sent := sent w @ map (Pair a) ?frames\<rparr>)"
    using send_items_all [of ?w 0 ?frames a] up small by auto
  then have "PacketQueue_send_unacked (PacketQueue_new p) k (udp a) ?w
      = Some (Inr (c, True), ?q, ?w\<lparr>sends := sends w + length ?frames, sent := sent w @ map (Pair a) ?frames\<rparr>)"
    using items by (simp add: PacketQueue_send_unacked_def PacketQueue_unacked_def Let_def)
  let ?out = "\<lparr>po_packet_queue = ?q, po_last_send = Some (clock w (ticks w)), po_missed_acks = 0,
    po_batch_size = k, po_last_batch_size = c, po_last_batch_acks = 0\<rparr>"
  let ?w2 = "?w\<lparr>sends := sends w + length ?frames, sent := sent w @ map (Pair a) ?frames, ticks := Suc (ticks w)\<rparr>"
  from \<open>PacketQueue_send_unacked _ _ _ _ = _\<close> q up show ?thesis
    by (intro that [where p = ?out and w' = ?w2, OF _ refl])
      (simp_all add: PacketBuffers_send_def SendPacketBuffer_send_def new p(1) PacketOut_send_def PacketBuffers_new_def
        SendPacketBuffer_new_def Instant_now_def Let_def)
qed

lemma timeout_nothing:
  assumes "sb_packets (pbs_send_buffer pb) = [(i, p)]" "po_missed_acks p = 0" "rb_packets (pbs_receive_buffer pb) = []"
  shows "PacketBuffers_timeout_packets pb m rt w = Some (pb, w)"
proof -
  have "pb\<lparr>pbs_send_buffer := (pbs_send_buffer pb)\<lparr>sb_packets := [(i, p)]\<rparr>\<rparr> = pb"
    "pb\<lparr>pbs_receive_buffer := (pbs_receive_buffer pb)\<lparr>rb_packets := []\<rparr>\<rparr> = pb"
    by (simp_all flip: assms(1,3))
  with assms show ?thesis
    by (simp add: PacketBuffers_timeout_packets_def SendPacketBuffer_timeout_packets_eq
        ReceivePacketBuffer_timeout_packets_def split: option.split)
qed

text \<open>The first part of a packet of several reaches fresh buffers; \<open>Done\<close> makes them forget it.\<close>

lemma first_part_then_done:
  assumes "network_up w" "1 < length (chunks bs)" "length (chunks bs) < 2 ^ 32"
  obtains pb w' where "PacketBuffers_handle (PacketBuffers_new n) (part_frame i bs 0) (udp a) w
      = Some (Inr (HandlingReceived Pending), pb, w')" "sent w' = sent w @ [(a, ack_bytes i 0)]"
    "PacketBuffers_handle pb (done_bytes i) (udp a) w' = Some (Inr (HandlingDone True), PacketBuffers_new n, w')"
proof -
  let ?pb = "PacketBuffers_new n"
  have pb: "recv_wf (pbs_receive_buffer ?pb)" "incoming ?pb j = None" for j
    by (simp_all add: PacketBuffers_new_def ReceivePacketBuffer_default_def recv_wf_def btree_invar_def BTreeMap_get_def)
  then have r: "receiving bs {} (incoming ?pb i)" by (simp add: receiving_def)
  have idx: "0 < length (chunks bs)" using assms(2) by simp
  obtain rb t where rb: "ReceivePacketBuffer_handle (pbs_receive_buffer ?pb) (part_frame i bs 0) (udp a) w
      = do { (r, w') \<leftarrow> ack i (of_nat 0) (udp a) (w\<lparr>ticks := t\<rparr>);
             Some (case r of Inl e \<Rightarrow> Inl (HandleReceive e) | Inr _ \<Rightarrow> Inr (ReceivedAck (outcome bs {} 0)), rb, w') }"
    "recv_wf rb" "receiving bs {0} (BTreeMap_get (rb_packets rb) i)" "\<forall>j. j \<noteq> i \<longrightarrow> BTreeMap_get (rb_packets rb) j = None"
    using handle_part_frame [OF pb(1) r assms(3) idx disjI1, of "udp a" w] pb(2) by auto
  let ?w = "w\<lparr>ticks := t, sends := Suc (sends w), sent := sent w @ [(a, ack_bytes i 0)]\<rparr>"
  have "{0 :: nat} \<noteq> {..<length (chunks bs)}" using assms(2) by (metis lessThan_iff singletonD zero_neq_one)
  then have o: "outcome bs {} 0 = Pending" by (simp add: outcome_def)
  have "part_frame i bs 0 \<noteq> []" by (simp add: part_frame_def part_bytes_def header_def)
  then have h: "PacketBuffers_handle ?pb (part_frame i bs 0) (udp a) w
      = Some (Inr (HandlingReceived Pending), ?pb\<lparr>pbs_receive_buffer := rb\<rparr>, ?w)"
    using rb(1) assms(1) by (simp add: PacketBuffers_handle_def ack_eq udp_up o)
  have "\<And>j e. (j, e) \<in> set (rb_packets rb) \<Longrightarrow> j = i"
    using rb(2,4) entries_get [of "?pb\<lparr>pbs_receive_buffer := rb\<rparr>"] by fastforce
  then have "BTreeMap_remove i (rb_packets rb) = []" by (auto simp: BTreeMap_remove_def filter_empty_conv)
  moreover have "BTreeMap_get (rb_packets rb) i \<noteq> None" using rb(3) by (auto simp: receiving_def split: option.split_asm)
  ultimately have "PacketBuffers_handle (?pb\<lparr>pbs_receive_buffer := rb\<rparr>) (done_bytes i) (udp a) ?w
      = Some (Inr (HandlingDone True), ?pb, ?w)"
    by (simp add: handle_done PacketBuffers_new_def ReceivePacketBuffer_default_def)
  with h show ?thesis using that by simp
qed

end
