(* ===== verification/Link_Theorems.thy ===== *)
theory Link_Theorems
  imports Link False_Acks Example_World
begin

text \<open>Properties of two packet buffers that talk to each other, and a run in which a packet is lost.\<close>

text \<open>C12. Integrity of a connection: two packet buffers send packets, update and handle what the other
  side sent in any order, over a network that may lose, repeat, delay and reorder datagrams but
  does not make them up. In every state they can reach, each side has delivered only packets the
  other side was asked to send, byte for byte, from any mix of parts of several packets; the only
  errors were those of the network and those of acknowledgements; every acknowledgement on the wire
  is for a part that went out; and as long as packets have fewer than 256 parts, no datagram on the
  wire makes the receiver panic. The ids drawn must be distinct.\<close>

theorem link_integrity:
  assumes "endpoint_start e" "endpoint_start f" "(link_step a b)\<^sup>*\<^sup>* (e, f) (e', f')"
    and "ids_distinct e'" "ids_distinct f'"
  shows "set (delivered (ep_answers e')) \<subseteq> ran (ep_packets f') \<and> set (delivered (ep_answers f')) \<subseteq> ran (ep_packets e') \<and>
    (\<forall>x. Inl x \<in> set (ep_answers e' @ ep_answers f') \<longrightarrow>
       (\<exists>y. x = HandleAck y) \<or> (\<exists>i y. x = HandleReceive (PacketReceiveError i (ReceiveIo y)))) \<and>
    (\<forall>i s. ack_bytes i s \<in> traffic a f' \<longrightarrow>
       (\<exists>bs. ep_packets e' i = Some bs \<and> part_frame i bs (unat s) \<in> traffic b e')) \<and>
    ((\<forall>bs \<in> ran (ep_packets f'). length (chunks bs) < 256) \<longrightarrow> whole_datagrams (ep_world e') \<longrightarrow>
       (\<forall>d \<in> traffic a f'. PacketBuffers_handle (ep_buffers e') d (udp b) (ep_world e') \<noteq> None))"
proof (intro conjI allI impI ballI)
  note ok = link_reachable_ok [OF assms]
  have answers: "\<forall>r \<in> set (ep_answers e'). answer_ok (ep_packets f') r" "\<forall>r \<in> set (ep_answers f'). answer_ok (ep_packets e') r"
    and recv: "receiving_ok (ep_packets f') e'" and send: "sending_ok a (ep_packets e') (traffic b e') f'"
    using ok by (simp_all add: endpoint_ok_def)
  show "set (delivered (ep_answers e')) \<subseteq> ran (ep_packets f')" "set (delivered (ep_answers f')) \<subseteq> ran (ep_packets e')"
    using delivered_sent answers by blast+
  show "(\<exists>y. x = HandleAck y) \<or> (\<exists>i y. x = HandleReceive (PacketReceiveError i (ReceiveIo y)))"
    if "Inl x \<in> set (ep_answers e' @ ep_answers f')" for x
    using that answers answer_ok_error by (metis Un_iff set_append)
  show "\<exists>bs. ep_packets e' i = Some bs \<and> part_frame i bs (unat s) \<in> traffic b e'"
    if "ack_bytes i s \<in> traffic a f'" for i s
    using genuine_ack [OF sending_okD(4) [OF send that]] by blast
  show "PacketBuffers_handle (ep_buffers e') d (udp b) (ep_world e') \<noteq> None"
    if "\<forall>bs \<in> ran (ep_packets f'). length (chunks bs) < 256" "whole_datagrams (ep_world e')" "d \<in> traffic a f'" for d
    by (rule genuine_handled [OF recv sending_okD(4) [OF send that(3)] that(2)]) (use that(1) in \<open>auto simp: ran_def\<close>)
qed

text \<open>A side on the example network, and a run of two steps: the left side sends two bytes and the
  right side handles the datagram.\<close>

definition fresh_endpoint :: endpoint where
  "fresh_endpoint = \<lparr>ep_buffers = PacketBuffers_new 8, ep_world = good_world, ep_packets = Map.empty, ep_answers = []\<rparr>"

lemma fresh_endpoint:
  "endpoint_start fresh_endpoint" "network_up (ep_world fresh_endpoint)"
  by (auto simp: endpoint_start_def fresh_endpoint_def good_world_def network_up_def intro: exI [of _ 8])

lemma fresh_endpoint_run:
  obtains e' f' where "(link_step peer_addr other_addr)\<^sup>*\<^sup>* (fresh_endpoint, fresh_endpoint) (e', f')"
    "ids_distinct e'" "ids_distinct f'" "delivered (ep_answers f') = [[1, 2]]"
proof -
  let ?e = fresh_endpoint let ?i = "fst (PacketId_new good_world)"
  have w: "network_up good_world" using fresh_endpoint(2) by (simp add: fresh_endpoint_def)
  have n: "sb_batch_size (pbs_send_buffer (PacketBuffers_new 8)) \<noteq> 0" by (simp add: PacketBuffers_new_def SendPacketBuffer_new_def)
  obtain q where send: "PacketBuffers_send (PacketBuffers_new 8) [[1], [2]] 1 (udp other_addr) good_world = Some (Inr ?i,
       with_outgoing (PacketBuffers_new 8) ?i (sent_once q (clock good_world (ticks good_world)) (sb_batch_size (pbs_send_buffer (PacketBuffers_new 8)))),
       good_world\<lparr>uuids_drawn := Suc (uuids_drawn good_world), ticks := Suc (ticks good_world), sends := Suc (sends good_world),
         sent := sent good_world @ [(other_addr, part_frame ?i [1, 2] 0)]\<rparr>)" (is "_ = Some (_, ?b, ?w)")
    using send_single [OF w n, of "[[1], [2]]" ?i 1 other_addr] by auto
  let ?e2 = "?e\<lparr>ep_buffers := ?b, ep_world := ?w, ep_packets := [?i \<mapsto> [1, 2]]\<rparr>"
  have s1: "link_step peer_addr other_addr (?e, ?e) (?e2, ?e)"
    using step_left [OF step_send [of ?e "[[1], [2]]" 1 other_addr]] send by (simp add: fresh_endpoint_def)
  have r0: "recv_wf (pbs_receive_buffer (PacketBuffers_new 8))" "incoming (PacketBuffers_new 8) ?i = None"
    by (simp_all add: PacketBuffers_new_def ReceivePacketBuffer_default_def recv_wf_def btree.invar_empty BTreeMap_get_def)
  have "length [1, 2 :: u8] \<le> 491" by simp
  from receive_single_frame [OF w this r0, of peer_addr] obtain rb t where
    recv: "PacketBuffers_handle (PacketBuffers_new 8) (part_frame ?i [1, 2] 0) (udp peer_addr) good_world
      = Some (Inr (HandlingReceived (Reassembled [1, 2])), (PacketBuffers_new 8)\<lparr>pbs_receive_buffer := rb\<rparr>,
          good_world\<lparr>ticks := t, sends := Suc (sends good_world), sent := sent good_world @ [(peer_addr, ack_bytes ?i 0)]\<rparr>)"
      (is "_ = Some (_, ?b2, ?w2)") by metis
  let ?f2 = "?e\<lparr>ep_buffers := ?b2, ep_world := ?w2, ep_answers := [Inr (HandlingReceived (Reassembled [1, 2]))]\<rparr>"
  have "part_frame ?i [1, 2] 0 \<in> traffic other_addr ?e2" by (simp add: traffic_def)
  from step_right [OF step_handle [OF this, of ?e peer_addr]] recv
  have s2: "link_step peer_addr other_addr (?e2, ?e) (?e2, ?f2)" by (simp add: fresh_endpoint_def)
  have ids: "ids_distinct ?e2" "ids_distinct ?f2" by (simp_all add: ids_distinct_def fresh_endpoint_def good_world_def lessThan_Suc)
  have "(link_step peer_addr other_addr)\<^sup>*\<^sup>* (?e, ?e) (?e2, ?f2)" using s1 s2 by (rule steps2)
  then show ?thesis by (rule that [OF _ ids]) (simp add: delivered_def)
qed

theorem link_integrity_witness:
  "\<exists>e' f'. (link_step peer_addr other_addr)\<^sup>*\<^sup>* (fresh_endpoint, fresh_endpoint) (e', f') \<and>
     delivered (ep_answers f') = [[1, 2]] \<and> [1, 2] \<in> ran (ep_packets e')"
proof -
  obtain e' f' where r: "(link_step peer_addr other_addr)\<^sup>*\<^sup>* (fresh_endpoint, fresh_endpoint) (e', f')"
    "ids_distinct e'" "ids_distinct f'" "delivered (ep_answers f') = [[1, 2]]"
    by (rule fresh_endpoint_run)
  from link_integrity [OF fresh_endpoint(1,1) r(1-3)] r(1,4) show ?thesis by auto
qed



end
