(* ===== verification/Config.thy ===== *)
theory Config
  imports Wire
begin

text \<open>
  \<^verbatim>\<open>config.rs\<close>: the configuration records and their default values. A \<open>Duration\<close> counts
  nanoseconds.
\<close>

definition Duration_from_secs :: "nat \<Rightarrow> Duration" where
  "Duration_from_secs n = n * 1000000000"

definition Duration_from_millis :: "nat \<Rightarrow> Duration" where
  "Duration_from_millis n = n * 1000000"

record ConnectionConfig =
  cf_resend_delay :: Duration
  cf_max_missed_acks :: "usize option"
  cf_receive_timeout :: "Duration option"
  cf_initial_send_batch_size :: NonZeroBatchSize
  cf_background_serialization_threshold :: usize

definition ConnectionConfig_default :: ConnectionConfig where
  "ConnectionConfig_default =
     \<lparr>cf_resend_delay = Duration_from_secs 1,
      cf_max_missed_acks = Some 3,
      cf_receive_timeout = Some (Duration_from_secs 10),
      cf_initial_send_batch_size = 8,
      cf_background_serialization_threshold = 8\<rparr>"

record ServerConfig =
  sc_connection :: ConnectionConfig
  sc_ping_delay :: Duration
  sc_max_missed_pongs :: "usize option"
  sc_listener_timeout :: "Duration option"

definition ServerConfig_default :: ServerConfig where
  "ServerConfig_default =
     \<lparr>sc_connection = ConnectionConfig_default,
      sc_ping_delay = Duration_from_millis 2500,
      sc_max_missed_pongs = Some 3,
      sc_listener_timeout = Some (Duration_from_secs (60 * 60 * 24))\<rparr>"

record ClientConfig =
  cc_connection :: ConnectionConfig
  cc_timeout :: "Duration option"

definition ClientConfig_default :: ClientConfig where
  "ClientConfig_default =
     \<lparr>cc_connection = ConnectionConfig_default, cc_timeout = Some (Duration_from_secs 10)\<rparr>"

text \<open>What the type \<open>NonZeroU16\<close> guarantees of a configuration.\<close>

definition config_wf :: "ConnectionConfig \<Rightarrow> bool" where
  "config_wf c \<longleftrightarrow> cf_initial_send_batch_size c \<noteq> 0"

lemma config_wf_default [simp]: "config_wf ConnectionConfig_default"
  by (simp add: config_wf_def ConnectionConfig_default_def)

end
