(* ===== verification/Net.thy ===== *)
theory Net
  imports Packet_Buffers Config "HOL-Library.Product_Lexorder"
begin

text \<open>
  \<^verbatim>\<open>net.rs\<close> and the packet traits of \<^verbatim>\<open>packet.rs\<close> that server and client share: the connection
  packets, the handler interface and \<open>recv\<close>.

  What the crate takes from its user or from \<open>rkyv\<close> is a parameter: a handler is a record of
  functions on a handler state \<open>'h\<close>, and \<open>Protocol\<close> holds the writes \<open>rkyv\<close> makes when it
  serializes a packet, the outcome of \<open>check_archived_root\<close>, and the user's version packet.
  What arrives at the socket during one \<open>update\<close> is the list of the results of \<open>recv_from\<close>, up to
  the first error; an exhausted list answers \<open>WouldBlock\<close>.
\<close>

section \<open>Connection packets\<close>

datatype ('status, 'accept, 'reject, 'kick, 'user) ServerConnectionPacket =
    SC_Status 'status
  | SC_Accept 'accept
  | SC_Reject 'reject
  | SC_Kick 'kick
  | SC_User 'user

datatype ('query, 'connect, 'disconnect, 'user) ClientConnectionPacket =
    CC_Query 'query
  | CC_Connect 'connect
  | CC_Disconnect 'disconnect
  | CC_User 'user

datatype MalformedVersion = MalformedVersion

text \<open>\<open>impl VersionPacket for ()\<close>.\<close>

definition unit_version_write :: "unit \<Rightarrow> u8 list \<Rightarrow> usize \<times> u8 list" where
  "unit_version_write _ buf = (0, buf)"

definition unit_version_read :: "u8 list \<Rightarrow> MalformedVersion + unit" where
  "unit_version_read buf = (if buf = [] then Inr () else Inl MalformedVersion)"

text \<open>\<open>impl UpdatePacket for NoPacket\<close>: there is no value to write, and reading always fails.\<close>

datatype NoUpdateError = NoUpdateError

definition NoPacket_read :: "u8 list \<Rightarrow> NoUpdateError + 'packet" where
  "NoPacket_read buf = Inl NoUpdateError"

datatype validation_error = ValidationError nat

record ('version, 'out, 'in) Protocol =
  pr_version_write :: "'version \<Rightarrow> u8 list \<Rightarrow> usize \<times> u8 list"
  pr_version_read :: "u8 list \<Rightarrow> MalformedVersion + 'version"
  pr_serialize :: "'out \<Rightarrow> u8 list list"
  pr_check_archived_root :: "u8 list \<Rightarrow> validation_error + 'in"

text \<open>The documented contract of \<open>VersionPacket::write\<close>: at most \<open>PACKET_DATA_SIZE\<close> bytes, into a
  slice whose length stays; and values small enough to be numbered by a \<open>SeqIndex\<close>.\<close>

definition protocol_ok :: "('version, 'out, 'in) Protocol \<Rightarrow> bool" where
  "protocol_ok pr \<longleftrightarrow>
     (\<forall>v buf. length buf = PACKET_DATA_SIZE \<longrightarrow>
        fst (pr_version_write pr v buf) \<le> PACKET_DATA_SIZE \<and>
        length (snd (pr_version_write pr v buf)) = length buf) \<and>
     (\<forall>x. length (concat (pr_serialize pr x)) \<le> 491 * 2 ^ 32)"

section \<open>Handlers\<close>

datatype PartInfo = PartPending | PartReassembled | PartDuplicate

datatype RawPacket =
    RawPart SocketAddr PartInfo
  | RawDone SocketAddr bool
  | RawAck SocketAddr bool

datatype HandlerError =
    ErrorRecv io_error
  | ErrorSend SocketAddr io_error
  | ErrorPacketValidation SocketAddr validation_error
  | ErrorHandle SocketAddr HandlePacketError
  | ErrorTimeout SocketAddr

record 'h ConnectionHandler =
  ch_raw_packet :: "RawPacket \<Rightarrow> 'h \<Rightarrow> 'h"
  ch_error :: "HandlerError \<Rightarrow> 'h \<Rightarrow> 'h"

text \<open>\<open>DefaultConnectionHandler\<close> has no state and ignores everything.\<close>

definition DefaultConnectionHandler :: "unit ConnectionHandler" where
  "DefaultConnectionHandler = \<lparr>ch_raw_packet = (\<lambda>_ h. h), ch_error = (\<lambda>_ h. h)\<rparr>"

section \<open>Receiving datagrams\<close>

type_synonym inbox = "(SocketAddr \<times> u8 list) io_result list"

text \<open>\<open>recv\<close>: a datagram longer than the buffer is cut off, a shorter one overwrites the start of
  the buffer. The rest of the inbox is what later calls receive.\<close>

definition recv ::
    "('h, 'more) ConnectionHandler_scheme \<Rightarrow> inbox \<Rightarrow> u8 list \<Rightarrow> 'h
      \<Rightarrow> (SocketAddr \<times> u8 list) option \<times> inbox \<times> u8 list \<times> 'h" where
  "recv handler inbox packet_buf h =
     (case inbox of
        [] \<Rightarrow> (None, [], packet_buf, h)
      | Inr (addr, datagram) # rest \<Rightarrow>
          let received = take (length packet_buf) datagram
          in (Some (addr, received), rest, received @ drop (length received) packet_buf, h)
      | Inl error # rest \<Rightarrow>
          (None, rest, packet_buf,
           if error \<noteq> WouldBlock then ch_error handler (ErrorRecv error) h else h))"

lemma recv_shorter: "recv handler inbox pb h = (Some x, rest, pb', h') \<Longrightarrow> length rest < length inbox"
  by (auto simp: recv_def Let_def split: list.split_asm sum.split_asm prod.split_asm)

lemma recv_buffer [simp]: "length (fst (snd (snd (recv handler inbox pb h)))) = length pb"
  by (auto simp: recv_def Let_def min_def split: list.split sum.split)

lemma recv_fits: "recv handler inbox pb h = (Some (addr, buf), rest, pb', h') \<Longrightarrow> length buf \<le> length pb"
  by (auto simp: recv_def Let_def split: list.split_asm sum.split_asm prod.split_asm)

section \<open>The order of addresses\<close>

text \<open>The derived \<open>Ord\<close> of \<open>SocketAddr\<close>, the order of \<open>BTreeMap<SocketAddr, _>\<close>.\<close>

definition addr_key :: "SocketAddr \<Rightarrow> nat \<times> nat \<times> nat \<times> nat \<times> nat" where
  "addr_key a = (case a of V4 ip port \<Rightarrow> (0, unat ip, unat port, 0, 0)
     | V6 ip port flow scope \<Rightarrow> (1, unat ip, unat port, unat flow, unat scope))"

lemma addr_key_inject: "addr_key a = addr_key b \<longleftrightarrow> a = b"
  by (cases a; cases b) (auto simp: addr_key_def unsigned_word_eqI)

instantiation SocketAddr :: linorder
begin

definition less_eq_SocketAddr :: "SocketAddr \<Rightarrow> SocketAddr \<Rightarrow> bool" where
  "less_eq_SocketAddr a b \<longleftrightarrow> addr_key a \<le> addr_key b"

definition less_SocketAddr :: "SocketAddr \<Rightarrow> SocketAddr \<Rightarrow> bool" where
  "less_SocketAddr a b \<longleftrightarrow> addr_key a < addr_key b"

instance
proof
  fix a b c :: SocketAddr
  show "a < b \<longleftrightarrow> a \<le> b \<and> \<not> b \<le> a"
    unfolding less_eq_SocketAddr_def less_SocketAddr_def by (rule less_le_not_le)
  show "a \<le> a" by (simp add: less_eq_SocketAddr_def)
  show "a \<le> b \<Longrightarrow> b \<le> c \<Longrightarrow> a \<le> c" unfolding less_eq_SocketAddr_def by (rule order_trans)
  show "a \<le> b \<Longrightarrow> b \<le> a \<Longrightarrow> a = b"
    unfolding less_eq_SocketAddr_def using addr_key_inject antisym by blast
  show "a \<le> b \<or> b \<le> a" unfolding less_eq_SocketAddr_def by (rule linear)
qed

end

end
