(* ===== verification/Server.thy ===== *)
theory Server
  imports Net
begin

text \<open>
  \<open>Server\<close> of \<^verbatim>\<open>net/server.rs\<close>: listeners (addresses that asked for the version) by address, and
  connected clients in slots that keep their position. One \<open>update\<close> updates the buffers of the
  clients, handles every datagram in the inbox and sends the pings that are due.

  The operations take the server, the handler state and the environment and return them
  changed; \<open>None\<close> is a panic.
\<close>

section \<open>State\<close>

record ActivePing =
  ap_ping_id :: Uuid
  ap_ping :: Instant

record ClientConnection =
  cl_client_addr :: SocketAddr
  cl_buffers :: PacketBuffers
  cl_active_ping :: "ActivePing option"
  cl_last_pong :: "Instant option"
  cl_missed_pongs :: usize

record Server =
  sv_config :: ServerConfig
  sv_listeners :: "(SocketAddr, PacketBuffers) btree"
  sv_clients :: "ClientConnection option list"

datatype ('accept, 'reject) Connect = Connect_Accept 'accept | Connect_Reject 'reject

text \<open>The implementations of \<open>Clone\<close> and \<open>PartialEq\<close>, given those of the two packets.\<close>

definition Connect_clone ::
    "('accept \<Rightarrow> 'accept) \<Rightarrow> ('reject \<Rightarrow> 'reject) \<Rightarrow> ('accept, 'reject) Connect \<Rightarrow> ('accept, 'reject) Connect" where
  "Connect_clone clone_accept clone_reject self =
     (case self of
        Connect_Accept arg0 \<Rightarrow> Connect_Accept (clone_accept arg0)
      | Connect_Reject arg0 \<Rightarrow> Connect_Reject (clone_reject arg0))"

definition Connect_eq ::
    "('accept \<Rightarrow> 'accept \<Rightarrow> bool) \<Rightarrow> ('reject \<Rightarrow> 'reject \<Rightarrow> bool)
      \<Rightarrow> ('accept, 'reject) Connect \<Rightarrow> ('accept, 'reject) Connect \<Rightarrow> bool" where
  "Connect_eq eq_accept eq_reject self other =
     (case (self, other) of
        (Connect_Accept l0, Connect_Accept r0) \<Rightarrow> eq_accept l0 r0
      | (Connect_Reject l0, Connect_Reject r0) \<Rightarrow> eq_reject l0 r0
      | _ \<Rightarrow> False)"

datatype UnexpectedClientPacket =
    Client_UnknownCompatibility
  | Client_NotConnected
  | Client_AlreadyConnected

datatype UnlistenError = UnlistenError

record ('h, 'version, 'query, 'status, 'connect, 'accept, 'reject, 'disconnect, 'user) ServerHandler =
  "'h ConnectionHandler" +
  sh_version :: "'h \<Rightarrow> 'version \<times> 'h"
  sh_listen :: "SocketAddr \<Rightarrow> 'h \<Rightarrow> 'h"
  sh_query :: "SocketAddr \<Rightarrow> 'query \<Rightarrow> 'h \<Rightarrow> 'status \<times> 'h"
  sh_connect :: "SocketAddr \<Rightarrow> 'connect \<Rightarrow> 'h \<Rightarrow> ('accept, 'reject) Connect \<times> 'h"
  sh_disconnect :: "SocketAddr \<Rightarrow> 'disconnect \<Rightarrow> 'h \<Rightarrow> 'h"
  sh_ping :: "SocketAddr \<Rightarrow> 'h \<Rightarrow> 'h"
  sh_pong :: "SocketAddr \<Rightarrow> bool \<Rightarrow> 'h \<Rightarrow> 'h"
  sh_packet :: "SocketAddr \<Rightarrow> 'user \<Rightarrow> 'h \<Rightarrow> 'h"
  sh_unexpected :: "SocketAddr \<Rightarrow> UnexpectedClientPacket \<Rightarrow> 'h \<Rightarrow> 'h"

type_synonym ('version, 'query, 'status, 'connect, 'accept, 'reject, 'kick, 'disconnect, 'server, 'user)
  ServerProtocol =
  "('version, ('status, 'accept, 'reject, 'kick, 'server) ServerConnectionPacket,
    ('query, 'connect, 'disconnect, 'user) ClientConnectionPacket) Protocol"

text \<open>\<open>DefaultPackets\<close>: units for the packets of the connection. \<open>NoPacket\<close> has no values, so it stays a
  type parameter.\<close>

type_synonym 'no_packet DefaultPackets =
  "(unit, unit, unit, unit, unit, unit, unit, unit, 'no_packet, 'no_packet) ServerProtocol"

text \<open>\<open>DefaultConnectionHandler\<close> as a server handler: default values, every client accepted.\<close>

definition DefaultServerHandler ::
    "'version \<Rightarrow> 'status \<Rightarrow> 'accept
      \<Rightarrow> (unit, 'version, 'query, 'status, 'connect, 'accept, 'reject, 'disconnect, 'user) ServerHandler"
  where
  "DefaultServerHandler version status accept =
     \<lparr>ch_raw_packet = (\<lambda>_ h. h), ch_error = (\<lambda>_ h. h), sh_version = (\<lambda>h. (version, h)),
      sh_listen = (\<lambda>_ h. h), sh_query = (\<lambda>_ _ h. (status, h)),
      sh_connect = (\<lambda>_ _ h. (Connect_Accept accept, h)), sh_disconnect = (\<lambda>_ _ h. h),
      sh_ping = (\<lambda>_ h. h), sh_pong = (\<lambda>_ _ h. h), sh_packet = (\<lambda>_ _ h. h),
      sh_unexpected = (\<lambda>_ _ h. h)\<rparr>"

section \<open>Construction, listeners and client handles\<close>

text \<open>Binding the socket and making it non-blocking are answered by the environment.\<close>

definition Server_host_with_config ::
    "unit io_result \<Rightarrow> unit io_result \<Rightarrow> ServerConfig \<Rightarrow> Server io_result" where
  "Server_host_with_config bound set_nonblocking config =
     (case bound of
        Inl error \<Rightarrow> Inl error
      | Inr _ \<Rightarrow>
          (case set_nonblocking of
             Inl error \<Rightarrow> Inl error
           | Inr _ \<Rightarrow> Inr \<lparr>sv_config = config, sv_listeners = [], sv_clients = []\<rparr>))"

definition Server_host :: "unit io_result \<Rightarrow> unit io_result \<Rightarrow> Server io_result" where
  "Server_host bound set_nonblocking = Server_host_with_config bound set_nonblocking ServerConfig_default"

definition is_client :: "SocketAddr \<Rightarrow> ClientConnection option \<Rightarrow> bool" where
  "is_client addr entry = (case entry of None \<Rightarrow> False | Some client \<Rightarrow> cl_client_addr client = addr)"

definition Server_unlisten :: "Server \<Rightarrow> SocketAddr \<Rightarrow> (UnlistenError + bool) \<times> Server" where
  "Server_unlisten self client_addr =
     (if BTreeMap_get (sv_listeners self) client_addr \<noteq> None
      then (Inr True, self\<lparr>sv_listeners := BTreeMap_remove client_addr (sv_listeners self)\<rparr>)
      else if list_ex (is_client client_addr) (sv_clients self)
      then (Inl UnlistenError, self)
      else (Inr False, self))"

definition Server_unlisten_all :: "Server \<Rightarrow> Server" where
  "Server_unlisten_all self = self\<lparr>sv_listeners := []\<rparr>"

text \<open>The handle \<open>Client<'a, P>\<close> borrows the buffers of one client: it is modelled by the slot it
  borrows from.\<close>

record ServerClient =
  sk_slot :: nat
  sk_client_addr :: SocketAddr
  sk_background_serialization_threshold :: usize

definition Server_client :: "Server \<Rightarrow> SocketAddr \<Rightarrow> ServerClient option" where
  "Server_client self client_addr =
     map_option (\<lambda>slot. \<lparr>sk_slot = slot, sk_client_addr = client_addr,
         sk_background_serialization_threshold =
           cf_background_serialization_threshold (sc_connection (sv_config self))\<rparr>)
       (position (is_client client_addr) (sv_clients self))"

definition ServerClient_send_raw ::
    "('version, 'out, 'in) Protocol \<Rightarrow> ServerClient \<Rightarrow> 'out \<Rightarrow> Server \<Rightarrow> world
      \<Rightarrow> (PacketId io_result \<times> Server \<times> world) option" where
  "ServerClient_send_raw pr client packet self w =
     (case sv_clients self ! sk_slot client of
        None \<Rightarrow> None
      | Some c \<Rightarrow> do {
          (r, buffers, w) \<leftarrow> PacketBuffers_send (cl_buffers c) (pr_serialize pr packet)
            (sk_background_serialization_threshold client) (udp (sk_client_addr client)) w;
          Some (r, self\<lparr>sv_clients :=
            (sv_clients self)[sk_slot client := Some (c\<lparr>cl_buffers := buffers\<rparr>)]\<rparr>, w)
        })"

definition ServerClient_send ::
    "('version, 'query, 'status, 'connect, 'accept, 'reject, 'kick, 'disconnect, 'server, 'user)
        ServerProtocol \<Rightarrow> ServerClient \<Rightarrow> 'server \<Rightarrow> Server \<Rightarrow> world
      \<Rightarrow> (PacketId io_result \<times> Server \<times> world) option" where
  "ServerClient_send pr client packet self w = ServerClient_send_raw pr client (SC_User packet) self w"

definition ClientConnection_new :: "SocketAddr \<Rightarrow> PacketBuffers \<Rightarrow> ClientConnection" where
  "ClientConnection_new client_addr buffers =
     \<lparr>cl_client_addr = client_addr, cl_buffers = buffers, cl_active_ping = None,
      cl_last_pong = None, cl_missed_pongs = 0\<rparr>"

section \<open>Updating the buffers of the clients\<close>

fun update_client_buffers ::
    "ConnectionConfig \<Rightarrow> ('h, 'more) ConnectionHandler_scheme \<Rightarrow> nat \<Rightarrow> nat
      \<Rightarrow> ClientConnection option list \<Rightarrow> 'h \<Rightarrow> world
      \<Rightarrow> (ClientConnection option list \<times> nat \<times> 'h \<times> world) option" where
  "update_client_buffers cf handler index first_empty_slot [] h w =
     Some ([], first_empty_slot, h, w)"
| "update_client_buffers cf handler index first_empty_slot (None # entries) h w = do {
     (entries, first_empty_slot, h, w) \<leftarrow>
       update_client_buffers cf handler (index + 1) first_empty_slot entries h w;
     Some (None # entries, first_empty_slot, h, w)
   }"
| "update_client_buffers cf handler index first_empty_slot (Some client # entries) h w = do {
     (r, buffers, w) \<leftarrow> PacketBuffers_update (cl_buffers client) (cf_resend_delay cf)
       (cf_max_missed_acks cf) (cf_receive_timeout cf) (udp (cl_client_addr client)) w;
     let (entry, h) =
       (case r of
          Inl error \<Rightarrow> (None, ch_error handler (ErrorSend (cl_client_addr client) error) h)
        | Inr _ \<Rightarrow> (Some (client\<lparr>cl_buffers := buffers\<rparr>), h));
     (entries, first_empty_slot, h, w) \<leftarrow>
       update_client_buffers cf handler (index + 1) (index + 1) entries h w;
     Some (entry # entries, first_empty_slot, h, w)
   }"

definition Server_update_buffers ::
    "('h, 'more) ConnectionHandler_scheme \<Rightarrow> Server \<Rightarrow> 'h \<Rightarrow> world
      \<Rightarrow> (Server \<times> 'h \<times> world) option" where
  "Server_update_buffers handler self h w = do {
     (entries, first_empty_slot, h, w) \<leftarrow>
       update_client_buffers (sc_connection (sv_config self)) handler 0 0 (sv_clients self) h w;
     Some (self\<lparr>sv_clients := take first_empty_slot entries\<rparr>, h, w)
   }"

section \<open>Handling datagrams\<close>

definition Server_send_version ::
    "('version, 'out, 'in) Protocol
      \<Rightarrow> ('h, 'version, 'query, 'status, 'connect, 'accept, 'reject, 'disconnect, 'user) ServerHandler
      \<Rightarrow> u8 list \<Rightarrow> SocketAddr \<Rightarrow> 'h \<Rightarrow> world
      \<Rightarrow> (bool io_result \<times> u8 list \<times> 'h \<times> world) option" where
  "Server_send_version pr handler packet_buf client_addr h w = do {
     packet_buf \<leftarrow> index_set packet_buf 0 (PacketKind_into Kind_Version);
     let (version, h) = sh_version handler h;
     let (version_len, written) = pr_version_write pr version (drop 1 packet_buf);
     let packet_buf = take 1 packet_buf @ written;
     buf \<leftarrow> slice_get packet_buf 0 (version_len + 1);
     (r, w) \<leftarrow> udp client_addr buf w;
     Some (r, packet_buf, h, w)
   }"

definition Server_handle_version_request ::
    "('version, 'out, 'in) Protocol
      \<Rightarrow> ('h, 'version, 'query, 'status, 'connect, 'accept, 'reject, 'disconnect, 'user) ServerHandler
      \<Rightarrow> Server \<Rightarrow> u8 list \<Rightarrow> SocketAddr \<Rightarrow> bool \<Rightarrow> 'h \<Rightarrow> world
      \<Rightarrow> (Server \<times> u8 list \<times> 'h \<times> world) option" where
  "Server_handle_version_request pr handler self packet_buf client_addr listening h w = do {
     (r, packet_buf, h, w) \<leftarrow> Server_send_version pr handler packet_buf client_addr h w;
     (case r of
        Inr is_sent \<Rightarrow>
          if is_sent \<and> \<not> listening \<and> \<not> list_ex (is_client client_addr) (sv_clients self)
          then Some (self\<lparr>sv_listeners := BTreeMap_insert client_addr
                 (PacketBuffers_new (cf_initial_send_batch_size (sc_connection (sv_config self))))
                 (sv_listeners self)\<rparr>, packet_buf, h, w)
          else Some (self, packet_buf, h, w)
      | Inl error \<Rightarrow> Some (self, packet_buf, ch_error handler (ErrorSend client_addr error) h, w))
   }"

definition Server_handle_buffers ::
    "('version, 'out, 'in) Protocol \<Rightarrow> ('h, 'more) ConnectionHandler_scheme
      \<Rightarrow> PacketBuffers \<Rightarrow> u8 list \<Rightarrow> SocketAddr \<Rightarrow> 'h \<Rightarrow> world
      \<Rightarrow> ('in option \<times> PacketBuffers \<times> 'h \<times> world) option" where
  "Server_handle_buffers pr handler buffers buf client_addr h w = do {
     (r, buffers, w) \<leftarrow> PacketBuffers_handle buffers buf (udp client_addr) w;
     (case r of
        Inl error \<Rightarrow> Some (None, buffers, ch_error handler (ErrorHandle client_addr error) h, w)
      | Inr (HandlingReceived Pending) \<Rightarrow>
          Some (None, buffers, ch_raw_packet handler (RawPart client_addr PartPending) h, w)
      | Inr (HandlingReceived Duplicate) \<Rightarrow>
          Some (None, buffers, ch_raw_packet handler (RawPart client_addr PartDuplicate) h, w)
      | Inr (HandlingReceived (Reassembled bytes)) \<Rightarrow>
          let h = ch_raw_packet handler (RawPart client_addr PartReassembled) h
          in (case pr_check_archived_root pr bytes of
                Inr packet \<Rightarrow> Some (Some packet, buffers, h, w)
              | Inl error \<Rightarrow>
                  Some (None, buffers, ch_error handler (ErrorPacketValidation client_addr error) h, w))
      | Inr (HandlingDone known_packet) \<Rightarrow>
          Some (None, buffers, ch_raw_packet handler (RawDone client_addr known_packet) h, w)
      | Inr (HandlingAck duplicate) \<Rightarrow>
          Some (None, buffers, ch_raw_packet handler (RawAck client_addr duplicate) h, w))
   }"

text \<open>\<open>get_or_add_free_slot\<close>: the index of an empty slot, and the slots with it.\<close>

definition Server_get_or_add_free_slot ::
    "ClientConnection option list \<Rightarrow> nat \<times> ClientConnection option list" where
  "Server_get_or_add_free_slot clients =
     (case position (\<lambda>entry. entry = None) clients of
        Some index \<Rightarrow> (index, clients)
      | None \<Rightarrow> (length clients, clients @ [None]))"

text \<open>A send whose failure is only reported to the handler; the answer tells whether it failed.\<close>

definition send_or_report ::
    "('version, 'out, 'in) Protocol \<Rightarrow> ('h, 'more) ConnectionHandler_scheme \<Rightarrow> ServerConfig
      \<Rightarrow> PacketBuffers \<Rightarrow> 'out \<Rightarrow> SocketAddr \<Rightarrow> 'h \<Rightarrow> world
      \<Rightarrow> (bool \<times> PacketBuffers \<times> 'h \<times> world) option" where
  "send_or_report pr handler cf buffers packet client_addr h w = do {
     (r, buffers, w) \<leftarrow> PacketBuffers_send buffers (pr_serialize pr packet)
       (cf_background_serialization_threshold (sc_connection cf)) (udp client_addr) w;
     (case r of
        Inl error \<Rightarrow> Some (True, buffers, ch_error handler (ErrorSend client_addr error) h, w)
      | Inr _ \<Rightarrow> Some (False, buffers, h, w))
   }"

text \<open>A datagram of a connected client that is a ping: the answer to the server's own ping.\<close>

definition Server_handle_pong ::
    "('h, 'version, 'query, 'status, 'connect, 'accept, 'reject, 'disconnect, 'user) ServerHandler
      \<Rightarrow> ClientConnection \<Rightarrow> u8 list \<Rightarrow> 'h \<Rightarrow> world \<Rightarrow> ClientConnection \<times> 'h \<times> world" where
  "Server_handle_pong handler client buf h w =
     (case cl_active_ping client of
        None \<Rightarrow> (client, sh_pong handler (cl_client_addr client) False h, w)
      | Some active_ping \<Rightarrow>
          (case Uuid_from_slice (drop 1 buf) of
             None \<Rightarrow>
               (client, ch_error handler (ErrorHandle (cl_client_addr client) HandleMalformed) h, w)
           | Some ping_id \<Rightarrow>
               if ping_id = ap_ping_id active_ping
               then let (now, w) = Instant_now w
                    in (client\<lparr>cl_last_pong := Some now, cl_missed_pongs := 0\<rparr>,
                        sh_pong handler (cl_client_addr client) True h, w)
               else (client, sh_pong handler (cl_client_addr client) False h, w)))"

definition Server_handle_client ::
    "('version, 'query, 'status, 'connect, 'accept, 'reject, 'kick, 'disconnect, 'server, 'user)
        ServerProtocol
      \<Rightarrow> ('h, 'version, 'query, 'status, 'connect, 'accept, 'reject, 'disconnect, 'user) ServerHandler
      \<Rightarrow> Server \<Rightarrow> nat \<Rightarrow> ClientConnection \<Rightarrow> SocketAddr \<Rightarrow> u8 list \<Rightarrow> 'h \<Rightarrow> world
      \<Rightarrow> (Server \<times> 'h \<times> world) option" where
  "Server_handle_client pr handler self slot client client_addr buf h w =
     (if PacketKind_try_from (hd buf) = Some Kind_Ping
      then let (client, h, w) = Server_handle_pong handler client buf h w
           in Some (self\<lparr>sv_clients := (sv_clients self)[slot := Some client]\<rparr>, h, w)
      else do {
        (packet, buffers, h, w) \<leftarrow>
          Server_handle_buffers pr handler (cl_buffers client) buf client_addr h w;
        (disconnect, buffers, h, w) \<leftarrow>
          (case packet of
             None \<Rightarrow> Some (False, buffers, h, w)
           | Some (CC_Query query) \<Rightarrow>
               let (status, h) = sh_query handler client_addr query h
               in send_or_report pr handler (sv_config self) buffers (SC_Status status)
                    client_addr h w
           | Some (CC_Connect _) \<Rightarrow>
               Some (True, buffers, sh_unexpected handler client_addr Client_AlreadyConnected h, w)
           | Some (CC_Disconnect disconnect) \<Rightarrow>
               Some (True, buffers, sh_disconnect handler client_addr disconnect h, w)
           | Some (CC_User user) \<Rightarrow>
               Some (False, buffers, sh_packet handler client_addr user h, w));
        if disconnect
        then Some (self\<lparr>sv_clients := (sv_clients self)[slot := None],
               sv_listeners := BTreeMap_insert (cl_client_addr client) buffers (sv_listeners self)\<rparr>,
               h, w)
        else Some (self\<lparr>sv_clients :=
               (sv_clients self)[slot := Some (client\<lparr>cl_buffers := buffers\<rparr>)]\<rparr>, h, w)
      })"

definition Server_handle_listener ::
    "('version, 'query, 'status, 'connect, 'accept, 'reject, 'kick, 'disconnect, 'server, 'user)
        ServerProtocol
      \<Rightarrow> ('h, 'version, 'query, 'status, 'connect, 'accept, 'reject, 'disconnect, 'user) ServerHandler
      \<Rightarrow> Server \<Rightarrow> PacketBuffers \<Rightarrow> SocketAddr \<Rightarrow> u8 list \<Rightarrow> 'h \<Rightarrow> world
      \<Rightarrow> (Server \<times> 'h \<times> world) option" where
  "Server_handle_listener pr handler self buffers client_addr buf h w = do {
     (packet, buffers, h, w) \<leftarrow> Server_handle_buffers pr handler buffers buf client_addr h w;
     let keep = (\<lambda>buffers. self\<lparr>sv_listeners :=
       BTreeMap_insert client_addr buffers (sv_listeners self)\<rparr>);
     (case packet of
        None \<Rightarrow> Some (keep buffers, h, w)
      | Some (CC_Query query) \<Rightarrow> do {
          let (status, h) = sh_query handler client_addr query h;
          (_, buffers, h, w) \<leftarrow>
            send_or_report pr handler (sv_config self) buffers (SC_Status status) client_addr h w;
          Some (keep buffers, h, w)
        }
      | Some (CC_Connect connect) \<Rightarrow> do {
          let (answer, h) = sh_connect handler client_addr connect h;
          (case answer of
             Connect_Accept accept \<Rightarrow> do {
               (failed, buffers, h, w) \<leftarrow>
                 send_or_report pr handler (sv_config self) buffers (SC_Accept accept) client_addr h w;
               if failed then Some (keep buffers, h, w)
               else do {
                 let self = self\<lparr>sv_listeners := BTreeMap_remove client_addr (sv_listeners self)\<rparr>;
                 let (index, clients) = Server_get_or_add_free_slot (sv_clients self);
                 Some (self\<lparr>sv_clients :=
                   clients[index := Some (ClientConnection_new client_addr buffers)]\<rparr>, h, w)
               }
             }
           | Connect_Reject reject \<Rightarrow> do {
               (_, buffers, h, w) \<leftarrow>
                 send_or_report pr handler (sv_config self) buffers (SC_Reject reject) client_addr h w;
               Some (keep buffers, h, w)
             })
        }
      | Some (CC_Disconnect _) \<Rightarrow>
          Some (keep buffers, sh_unexpected handler client_addr Client_NotConnected h, w)
      | Some (CC_User _) \<Rightarrow>
          Some (keep buffers, sh_unexpected handler client_addr Client_NotConnected h, w))
   }"

text \<open>One round of the loop in \<open>handle_packets\<close>: a datagram and where it came from.\<close>

definition Server_handle_packet ::
    "('version, 'query, 'status, 'connect, 'accept, 'reject, 'kick, 'disconnect, 'server, 'user)
        ServerProtocol
      \<Rightarrow> ('h, 'version, 'query, 'status, 'connect, 'accept, 'reject, 'disconnect, 'user) ServerHandler
      \<Rightarrow> Server \<Rightarrow> SocketAddr \<Rightarrow> u8 list \<Rightarrow> u8 list \<Rightarrow> 'h \<Rightarrow> world
      \<Rightarrow> (Server \<times> u8 list \<times> 'h \<times> world) option" where
  "Server_handle_packet pr handler self client_addr buf packet_buf h w =
     (if buf = []
      then Server_handle_version_request pr handler self packet_buf client_addr
        (BTreeMap_get (sv_listeners self) client_addr \<noteq> None) h w
      else (case position (is_client client_addr) (sv_clients self) of
              Some slot \<Rightarrow> do {
                client \<leftarrow> sv_clients self ! slot;
                (self, h, w) \<leftarrow> Server_handle_client pr handler self slot client client_addr buf h w;
                Some (self, packet_buf, h, w)
              }
            | None \<Rightarrow>
                (case BTreeMap_get (sv_listeners self) client_addr of
                   Some buffers \<Rightarrow> do {
                     (self, h, w) \<leftarrow>
                       Server_handle_listener pr handler self buffers client_addr buf h w;
                     Some (self, packet_buf, h, w)
                   }
                 | None \<Rightarrow>
                     Some (self, packet_buf,
                       sh_unexpected handler client_addr Client_UnknownCompatibility h, w))))"

function handle_packets_loop ::
    "('version, 'query, 'status, 'connect, 'accept, 'reject, 'kick, 'disconnect, 'server, 'user)
        ServerProtocol
      \<Rightarrow> ('h, 'version, 'query, 'status, 'connect, 'accept, 'reject, 'disconnect, 'user) ServerHandler
      \<Rightarrow> Server \<Rightarrow> inbox \<Rightarrow> u8 list \<Rightarrow> 'h \<Rightarrow> world \<Rightarrow> (Server \<times> 'h \<times> world) option" where
  "handle_packets_loop pr handler self inbox packet_buf h w =
     (case recv handler inbox packet_buf h of
        (None, _, _, h) \<Rightarrow> Some (self, h, w)
      | (Some (client_addr, buf), inbox', packet_buf, h) \<Rightarrow> do {
          (self, packet_buf, h, w) \<leftarrow>
            Server_handle_packet pr handler self client_addr buf packet_buf h w;
          handle_packets_loop pr handler self inbox' packet_buf h w
        })"
  by pat_completeness auto
termination
  by (relation "measure (\<lambda>(_, _, _, inbox, _, _, _). length inbox)")
    (auto dest: recv_shorter [OF sym])

declare handle_packets_loop.simps [simp del]

definition Server_handle_packets ::
    "('version, 'query, 'status, 'connect, 'accept, 'reject, 'kick, 'disconnect, 'server, 'user)
        ServerProtocol
      \<Rightarrow> ('h, 'version, 'query, 'status, 'connect, 'accept, 'reject, 'disconnect, 'user) ServerHandler
      \<Rightarrow> Server \<Rightarrow> inbox \<Rightarrow> 'h \<Rightarrow> world \<Rightarrow> (Server \<times> 'h \<times> world) option" where
  "Server_handle_packets pr handler self inbox h w =
     handle_packets_loop pr handler self inbox (replicate PACKET_BUFFER_SIZE 0) h w"

section \<open>Pings\<close>

definition ping_bytes :: "Uuid \<Rightarrow> u8 list option" where
  "ping_bytes ping_id = do {
     let buf = replicate 17 0;
     buf \<leftarrow> index_set buf 0 (PacketKind_into Kind_Ping);
     copy_into buf 1 17 (Uuid_as_bytes ping_id)
   }"

definition send_ping ::
    "ServerConfig
      \<Rightarrow> ('h, 'version, 'query, 'status, 'connect, 'accept, 'reject, 'disconnect, 'user) ServerHandler
      \<Rightarrow> ClientConnection \<Rightarrow> 'h \<Rightarrow> world \<Rightarrow> (ClientConnection option \<times> 'h \<times> world) option" where
  "send_ping cf handler client h w = do {
     let (ping_due, w) =
       (case cl_active_ping client of
          None \<Rightarrow> (True, w)
        | Some active_ping \<Rightarrow>
            let (elapsed, w) = Instant_elapsed (ap_ping active_ping) w
            in (elapsed \<ge> sc_ping_delay cf, w));
     if \<not> ping_due then Some (Some client, h, w)
     else do {
       let sent_ping = (cl_active_ping client \<noteq> None);
       let received_pong = (cl_last_pong client \<noteq> None);
       let client = client\<lparr>cl_active_ping := None, cl_last_pong := None\<rparr>;
       let client =
         (if sent_ping \<and> \<not> received_pong
          then client\<lparr>cl_missed_pongs := usize_saturating_add (cl_missed_pongs client) 1\<rparr>
          else client);
       if sent_ping \<and> \<not> received_pong \<and>
          (case sc_max_missed_pongs cf of
             None \<Rightarrow> False | Some max_missed_pongs \<Rightarrow> cl_missed_pongs client > max_missed_pongs)
       then Some (None, ch_error handler (ErrorTimeout (cl_client_addr client)) h, w)
       else do {
         let (ping_id, w) = Uuid_new_v4 w;
         buf \<leftarrow> ping_bytes ping_id;
         (r, w) \<leftarrow> udp (cl_client_addr client) buf w;
         (case r of
            Inr is_sent \<Rightarrow>
              if is_sent
              then let (now, w) = Instant_now w
                   in Some (Some (client\<lparr>cl_active_ping :=
                          Some \<lparr>ap_ping_id = ping_id, ap_ping = now\<rparr>\<rparr>),
                        sh_ping handler (cl_client_addr client) h, w)
              else Some (Some client, h, w)
          | Inl error \<Rightarrow>
              Some (None, ch_error handler (ErrorSend (cl_client_addr client) error) h, w))
       }
     }
   }"

fun send_pings_loop ::
    "ServerConfig
      \<Rightarrow> ('h, 'version, 'query, 'status, 'connect, 'accept, 'reject, 'disconnect, 'user) ServerHandler
      \<Rightarrow> ClientConnection option list \<Rightarrow> 'h \<Rightarrow> world
      \<Rightarrow> (ClientConnection option list \<times> 'h \<times> world) option" where
  "send_pings_loop cf handler [] h w = Some ([], h, w)"
| "send_pings_loop cf handler (entry # entries) h w = do {
     (entry, h, w) \<leftarrow>
       (case entry of
          None \<Rightarrow> Some (None, h, w)
        | Some client \<Rightarrow> send_ping cf handler client h w);
     (entries, h, w) \<leftarrow> send_pings_loop cf handler entries h w;
     Some (entry # entries, h, w)
   }"

definition Server_send_pings ::
    "('h, 'version, 'query, 'status, 'connect, 'accept, 'reject, 'disconnect, 'user) ServerHandler
      \<Rightarrow> Server \<Rightarrow> 'h \<Rightarrow> world \<Rightarrow> (Server \<times> 'h \<times> world) option" where
  "Server_send_pings handler self h w = do {
     (clients, h, w) \<leftarrow> send_pings_loop (sv_config self) handler (sv_clients self) h w;
     Some (self\<lparr>sv_clients := clients\<rparr>, h, w)
   }"

definition Server_update ::
    "('version, 'query, 'status, 'connect, 'accept, 'reject, 'kick, 'disconnect, 'server, 'user)
        ServerProtocol
      \<Rightarrow> ('h, 'version, 'query, 'status, 'connect, 'accept, 'reject, 'disconnect, 'user) ServerHandler
      \<Rightarrow> Server \<Rightarrow> inbox \<Rightarrow> 'h \<Rightarrow> world \<Rightarrow> (Server \<times> 'h \<times> world) option" where
  "Server_update pr handler self inbox h w = do {
     (self, h, w) \<leftarrow> Server_update_buffers handler self h w;
     (self, h, w) \<leftarrow> Server_handle_packets pr handler self inbox h w;
     Server_send_pings handler self h w
   }"

end
