(* ===== verification/Server_Spec.thy ===== *)
theory Server_Spec
  imports Server Buffers_Wf Transition
begin

text \<open>
  The server as a state machine. \<open>server_step\<close> lists the ways its listeners and slots change;
  every operation of the server is one of them, or a sequence of them. \<open>server_wf\<close> is the
  invariant the source states in comments: an address is a listener or a connected client but
  never both, no two slots hold the same address, and all buffers are well-formed.
\<close>

section \<open>Slots\<close>

definition slots :: "ClientConnection option list \<Rightarrow> SocketAddr option list" where
  "slots cs = map (map_option cl_client_addr) cs"

definition slots_distinct :: "SocketAddr option list \<Rightarrow> bool" where
  "slots_distinct ss \<longleftrightarrow>
     (\<forall>i j a. i < length ss \<longrightarrow> j < length ss \<longrightarrow> ss ! i = Some a \<longrightarrow> ss ! j = Some a \<longrightarrow> i = j)"

lemma length_slots [simp]: "length (slots cs) = length cs"
  by (simp add: slots_def)

lemma nth_slots [simp]: "i < length cs \<Longrightarrow> slots cs ! i = map_option cl_client_addr (cs ! i)"
  by (simp add: slots_def)

lemma slots_update: "slots (cs[i := e]) = (slots cs)[i := map_option cl_client_addr e]"
  by (simp add: slots_def map_update)

lemma is_client_iff: "is_client a e \<longleftrightarrow> map_option cl_client_addr e = Some a"
  by (auto simp: is_client_def split: option.split)

lemma list_ex_is_client: "list_ex (is_client a) cs \<longleftrightarrow> Some a \<in> set (slots cs)"
proof -
  have "Some a \<in> set (slots cs) \<longleftrightarrow> (\<exists>e \<in> set cs. map_option cl_client_addr e = Some a)"
    unfolding slots_def set_map image_iff by metis
  then show ?thesis unfolding list_ex_iff Bex_def is_client_iff by (rule sym)
qed

lemma position_is_client:
  assumes "position (is_client a) cs = Some slot"
  shows "slot < length cs" "\<exists>c. cs ! slot = Some c \<and> cl_client_addr c = a"
  using assms by (auto simp: position_Some_iff is_client_def split: option.split_asm)

lemma position_is_client_None:
  "position (is_client a) cs = None \<longleftrightarrow> Some a \<notin> set (slots cs)"
  by (auto simp: position_None_iff list_ex_is_client [symmetric] list_ex_iff)

lemma slots_update_same:
  assumes "i < length cs" "cs ! i = Some c" "cl_client_addr c' = cl_client_addr c"
  shows "slots (cs[i := Some c']) = slots cs"
proof -
  have "slots cs ! i = Some (cl_client_addr c')" using assms by simp
  then show ?thesis using assms(1) by (metis list_update_id option.simps(9) slots_update)
qed

lemma slots_distinct_update:
  assumes "slots_distinct ss" "\<And>a. v = Some a \<Longrightarrow> Some a \<notin> set ss"
  shows "slots_distinct (ss[i := v])"
  unfolding slots_distinct_def
proof (intro allI impI)
  fix p q a
  assume pq: "p < length (ss[i := v])" "q < length (ss[i := v])"
    and a: "ss[i := v] ! p = Some a" "ss[i := v] ! q = Some a"
  have old: "ss ! r = Some a" if "r < length ss" "r \<noteq> i" "ss[i := v] ! r = Some a" for r
    using that by simp
  have new: "v = Some a" if "r < length ss" "r = i" "ss[i := v] ! r = Some a" for r
    using that by simp
  show "p = q"
  proof (cases "v = Some a")
    case True
    then have "ss ! r \<noteq> Some a" if "r < length ss" for r
      using that assms(2) [OF True] nth_mem [OF that] by metis
    then show ?thesis using old [of p] old [of q] pq a by (metis length_list_update)
  next
    case False
    then have "ss ! p = Some a" "ss ! q = Some a"
      using old new pq a by (metis length_list_update)+
    then show ?thesis using assms(1) pq by (simp add: slots_distinct_def)
  qed
qed

lemma slots_distinct_update_None: "slots_distinct ss \<Longrightarrow> slots_distinct (ss[i := None])"
  by (rule slots_distinct_update) simp_all

lemma slots_distinct_insert:
  "slots_distinct ss \<Longrightarrow> Some a \<notin> set ss \<Longrightarrow> slots_distinct (ss[i := Some a])"
  by (rule slots_distinct_update) auto

lemma slots_distinct_append_None: "slots_distinct (ss @ [None]) = slots_distinct ss"
  by (auto simp: slots_distinct_def nth_append less_Suc_eq)

lemma set_update_None:
  assumes "slots_distinct ss" "i < length ss" "ss ! i = Some a"
  shows "Some b \<in> set (ss[i := None]) \<longleftrightarrow> Some b \<in> set ss \<and> b \<noteq> a"
proof
  assume "Some b \<in> set (ss[i := None])"
  then obtain j where j: "j < length ss" "ss[i := None] ! j = Some b"
    by (auto simp: in_set_conv_nth)
  then have "j \<noteq> i" "ss ! j = Some b" using assms(2) by (auto simp: nth_list_update split: if_split_asm)
  with j(1) assms show "Some b \<in> set ss \<and> b \<noteq> a"
    by (metis nth_mem slots_distinct_def)
next
  assume b: "Some b \<in> set ss \<and> b \<noteq> a"
  then obtain j where "j < length ss" "ss ! j = Some b" by (auto simp: in_set_conv_nth)
  moreover have "j \<noteq> i" using b assms(3) calculation by auto
  ultimately show "Some b \<in> set (ss[i := None])" by (metis length_list_update nth_list_update_neq nth_mem)
qed

text \<open>A free slot: the first empty one, or a new one at the end; no other slot is touched.\<close>

lemma get_or_add_free_slot:
  assumes "Server_get_or_add_free_slot cs = (i, cs')"
  shows "i < length cs'" "cs' ! i = None" "cs' = cs \<or> cs' = cs @ [None]" "i \<le> length cs"
    "\<And>j. j < i \<Longrightarrow> cs ! j \<noteq> None"
proof -
  consider (found) "position (\<lambda>e. e = None) cs = Some i" "cs' = cs"
    | (new) "position (\<lambda>e. e = None) cs = None" "cs' = cs @ [None]" "i = length cs"
    using assms by (auto simp: Server_get_or_add_free_slot_def split: option.split_asm)
  then have "i < length cs' \<and> cs' ! i = None \<and> (cs' = cs \<or> cs' = cs @ [None]) \<and> i \<le> length cs \<and>
      (\<forall>j < i. cs ! j \<noteq> None)"
  proof cases
    case found
    then show ?thesis by (auto simp: position_Some_iff)
  next
    case new
    then show ?thesis by (auto simp: position_None_iff)
  qed
  then show "i < length cs'" "cs' ! i = None" "cs' = cs \<or> cs' = cs @ [None]" "i \<le> length cs"
    "\<And>j. j < i \<Longrightarrow> cs ! j \<noteq> None" by auto
qed

section \<open>The invariant\<close>

definition clients_wf :: "ClientConnection option list \<Rightarrow> bool" where
  "clients_wf cs \<longleftrightarrow> (\<forall>c. Some c \<in> set cs \<longrightarrow> buffers_wf (cl_buffers c))"

definition server_wf :: "Server \<Rightarrow> bool" where
  "server_wf sv \<longleftrightarrow>
     config_wf (sc_connection (sv_config sv)) \<and> btree_invar (sv_listeners sv) \<and>
     btree_all buffers_wf (sv_listeners sv) \<and> clients_wf (sv_clients sv) \<and>
     slots_distinct (slots (sv_clients sv)) \<and>
     (\<forall>a. Some a \<in> set (slots (sv_clients sv)) \<longrightarrow> BTreeMap_get (sv_listeners sv) a = None)"

lemma clients_wf_update: "clients_wf cs \<Longrightarrow> (\<And>c. e = Some c \<Longrightarrow> buffers_wf (cl_buffers c)) \<Longrightarrow>
    clients_wf (cs[i := e])"
  by (auto simp: clients_wf_def dest!: subsetD [OF set_update_subset_insert])

lemma clients_wf_nth: "clients_wf cs \<Longrightarrow> i < length cs \<Longrightarrow> cs ! i = Some c \<Longrightarrow> buffers_wf (cl_buffers c)"
  by (metis clients_wf_def nth_mem)

section \<open>Steps\<close>

text \<open>A slot after its client was updated or dropped.\<close>

definition slot_kept :: "ClientConnection option \<Rightarrow> ClientConnection option \<Rightarrow> bool" where
  "slot_kept e e' \<longleftrightarrow> e' = None \<or>
     (\<exists>c c'. e = Some c \<and> e' = Some c' \<and> cl_client_addr c' = cl_client_addr c \<and>
        (buffers_wf (cl_buffers c) \<longrightarrow> buffers_wf (cl_buffers c')))"

lemma slot_kept_None [simp]: "slot_kept e None"
  by (simp add: slot_kept_def)

lemma slot_kept_refl [simp]: "slot_kept e e"
  by (cases e) (simp_all add: slot_kept_def)

text \<open>What a datagram from address \<open>a\<close>, or a packet sent to it, does to the server.\<close>

inductive peer_step :: "SocketAddr \<Rightarrow> Server \<Rightarrow> Server \<Rightarrow> bool" where
  stay: "peer_step a sv sv"
| listen: "Some a \<notin> set (slots (sv_clients sv)) \<Longrightarrow> BTreeMap_get (sv_listeners sv) a = None \<Longrightarrow>
    buffers_wf b \<Longrightarrow>
    peer_step a sv (sv\<lparr>sv_listeners := BTreeMap_insert a b (sv_listeners sv)\<rparr>)"
| listener: "BTreeMap_get (sv_listeners sv) a \<noteq> None \<Longrightarrow> buffers_wf b \<Longrightarrow>
    peer_step a sv (sv\<lparr>sv_listeners := BTreeMap_insert a b (sv_listeners sv)\<rparr>)"
| accept: "BTreeMap_get (sv_listeners sv) a \<noteq> None \<Longrightarrow> buffers_wf b \<Longrightarrow>
    Server_get_or_add_free_slot (sv_clients sv) = (i, cs) \<Longrightarrow>
    peer_step a sv (sv\<lparr>sv_listeners := BTreeMap_remove a (sv_listeners sv),
      sv_clients := cs[i := Some (ClientConnection_new a b)]\<rparr>)"
| client: "i < length (sv_clients sv) \<Longrightarrow> sv_clients sv ! i = Some c \<Longrightarrow> cl_client_addr c = a \<Longrightarrow>
    cl_client_addr c' = a \<Longrightarrow> buffers_wf (cl_buffers c') \<Longrightarrow>
    peer_step a sv (sv\<lparr>sv_clients := (sv_clients sv)[i := Some c']\<rparr>)"
| leave: "i < length (sv_clients sv) \<Longrightarrow> sv_clients sv ! i = Some c \<Longrightarrow> cl_client_addr c = a \<Longrightarrow>
    buffers_wf b \<Longrightarrow>
    peer_step a sv (sv\<lparr>sv_clients := (sv_clients sv)[i := None],
      sv_listeners := BTreeMap_insert a b (sv_listeners sv)\<rparr>)"

inductive server_step :: "Server \<Rightarrow> Server \<Rightarrow> bool" where
  peer: "peer_step a sv sv' \<Longrightarrow> server_step sv sv'"
| unlisten: "server_step sv (sv\<lparr>sv_listeners := BTreeMap_remove a (sv_listeners sv)\<rparr>)"
| unlisten_all: "server_step sv (sv\<lparr>sv_listeners := []\<rparr>)"
| refresh: "list_all2 slot_kept (sv_clients sv) cs \<Longrightarrow> server_step sv (sv\<lparr>sv_clients := cs\<rparr>)"
| truncate: "(\<And>e. e \<in> set (drop n (sv_clients sv)) \<Longrightarrow> e = None) \<Longrightarrow>
    server_step sv (sv\<lparr>sv_clients := take n (sv_clients sv)\<rparr>)"

lemma slot_kept_slots:
  assumes "list_all2 slot_kept cs cs'"
  shows "length cs' = length cs"
    "i < length cs \<Longrightarrow> slots cs' ! i = None \<or> slots cs' ! i = slots cs ! i"
proof -
  show l: "length cs' = length cs" using assms by (simp add: list_all2_lengthD)
  assume i: "i < length cs"
  then have "slot_kept (cs ! i) (cs' ! i)" using assms by (simp add: list_all2_nthD)
  then show "slots cs' ! i = None \<or> slots cs' ! i = slots cs ! i"
    using i l by (auto simp: slot_kept_def)
qed

lemma refresh_slots:
  assumes "list_all2 slot_kept cs cs'"
  shows "Some a \<in> set (slots cs') \<Longrightarrow> Some a \<in> set (slots cs)"
    "slots_distinct (slots cs) \<Longrightarrow> slots_distinct (slots cs')"
    "clients_wf cs \<Longrightarrow> clients_wf cs'"
proof -
  note k = slot_kept_slots [OF assms]
  show "Some a \<in> set (slots cs') \<Longrightarrow> Some a \<in> set (slots cs)"
    using k by (metis in_set_conv_nth length_slots option.distinct(1))
  show "slots_distinct (slots cs) \<Longrightarrow> slots_distinct (slots cs')"
    using k unfolding slots_distinct_def by (metis length_slots option.distinct(1))
  assume wf: "clients_wf cs"
  show "clients_wf cs'"
    unfolding clients_wf_def
  proof (intro allI impI)
    fix c assume "Some c \<in> set cs'"
    then obtain i where i: "i < length cs" "cs' ! i = Some c" using k(1) by (auto simp: in_set_conv_nth)
    then have "slot_kept (cs ! i) (Some c)" using assms by (metis list_all2_nthD)
    then show "buffers_wf (cl_buffers c)"
      using clients_wf_nth [OF wf i(1)] by (auto simp: slot_kept_def)
  qed
qed

lemma take_slots:
  assumes "\<And>e. e \<in> set (drop n cs) \<Longrightarrow> e = None"
  shows "Some a \<in> set (slots (take n cs)) \<longleftrightarrow> Some a \<in> set (slots cs)"
    "slots_distinct (slots cs) \<Longrightarrow> slots_distinct (slots (take n cs))"
    "clients_wf cs \<Longrightarrow> clients_wf (take n cs)"
proof -
  have "Some a \<notin> set (slots (drop n cs))" using assms by (force simp: slots_def)
  then show "Some a \<in> set (slots (take n cs)) \<longleftrightarrow> Some a \<in> set (slots cs)"
    by (metis (no_types, lifting) Un_iff append_take_drop_id map_append set_append slots_def)
  show "slots_distinct (slots cs) \<Longrightarrow> slots_distinct (slots (take n cs))"
    by (simp add: slots_distinct_def slots_def)
  show "clients_wf cs \<Longrightarrow> clients_wf (take n cs)"
    by (auto simp: clients_wf_def dest: in_set_takeD)
qed

lemma peer_step_wf: "peer_step a sv sv' \<Longrightarrow> server_wf sv \<Longrightarrow> server_wf sv'"
proof (induction rule: peer_step.induct)
  case (accept sv a b i cs)
  note f = get_or_add_free_slot [OF accept.hyps(3)]
  have "Some a \<notin> set (slots (sv_clients sv))" using accept by (auto simp: server_wf_def)
  moreover have s: "set (slots cs) \<subseteq> insert None (set (slots (sv_clients sv)))"
    "slots_distinct (slots cs)" "clients_wf cs"
    using f(3) accept.prems
    by (auto simp: server_wf_def slots_def clients_wf_def slots_distinct_append_None)
  ultimately have "slots_distinct (slots (cs[i := Some (ClientConnection_new a b)]))"
    by (auto simp: slots_update ClientConnection_new_def intro!: slots_distinct_insert)
  moreover have "clients_wf (cs[i := Some (ClientConnection_new a b)])"
    using s(3) accept.hyps(2) by (auto simp: ClientConnection_new_def intro: clients_wf_update)
  moreover have "BTreeMap_get (BTreeMap_remove a (sv_listeners sv)) x = None"
    if "Some x \<in> set (slots (cs[i := Some (ClientConnection_new a b)]))" for x
  proof -
    have "x = a \<or> Some x \<in> set (slots (sv_clients sv))"
      using that s(1) set_update_subset_insert
      by (fastforce simp: slots_update ClientConnection_new_def)
    then show ?thesis using accept.prems by (auto simp: server_wf_def btree.get_remove)
  qed
  ultimately show ?case
    using accept.prems by (simp add: server_wf_def btree.invar_remove btree_all_remove)
next
  case (leave i sv c a b)
  have i: "i < length (slots (sv_clients sv))" "slots (sv_clients sv) ! i = Some (cl_client_addr c)"
    "slots_distinct (slots (sv_clients sv))"
    using leave by (simp_all add: server_wf_def)
  have "slots_distinct (slots ((sv_clients sv)[i := None]))"
    using i(3) by (simp add: slots_update slots_distinct_update_None)
  moreover have "clients_wf ((sv_clients sv)[i := None])"
    using leave.prems by (auto simp: server_wf_def intro: clients_wf_update)
  ultimately show ?case
    using leave set_update_None [OF i(3,1,2)]
    by (auto simp: server_wf_def slots_update btree.invar_insert btree_all_insert btree.get_insert)
next
  case (client i sv c a c')
  then show ?case
    by (auto simp: server_wf_def slots_update_same intro: clients_wf_update)
qed (auto simp: server_wf_def btree.invar_insert btree.invar_remove btree_all_insert btree_all_remove
    btree.get_insert btree.get_remove btree.get_empty btree.invar_empty)

lemma server_step_wf: "server_step sv sv' \<Longrightarrow> server_wf sv \<Longrightarrow> server_wf sv'"
proof (induction rule: server_step.induct)
  case (peer a sv sv')
  then show ?case by (rule peer_step_wf)
next
  case (refresh sv cs)
  then show ?case using refresh_slots [OF refresh.hyps] by (auto simp: server_wf_def)
next
  case (truncate n sv)
  then show ?case using take_slots [of n "sv_clients sv"] by (auto simp: server_wf_def)
qed (auto simp: server_wf_def btree.invar_remove btree_all_remove btree.get_remove btree.get_empty
    btree.invar_empty)

interpretation server: transition_system server_step server_wf
  by unfold_locales (rule server_step_wf)

section \<open>Every operation is a sequence of steps\<close>

lemma Server_unlisten_step: "server_step sv (snd (Server_unlisten sv a))"
  by (auto simp: Server_unlisten_def intro: server_step.unlisten server_step.peer [OF peer_step.stay])

lemma Server_unlisten_all_step: "server_step sv (Server_unlisten_all sv)"
  by (simp add: Server_unlisten_all_def unlisten_all)

text \<open>Sending through a client handle, which borrows a slot that is in use.\<close>

lemma ServerClient_send_raw_step:
  assumes "server_wf sv" "protocol_ok pr" "Server_client sv a = Some k"
    and "ServerClient_send_raw pr k packet sv w = Some (r, sv', w')"
  shows "peer_step a sv sv'"
proof -
  from assms(3) obtain i where i: "position (is_client a) (sv_clients sv) = Some i" "sk_slot k = i"
    by (auto simp: Server_client_def)
  from position_is_client [OF i(1)] obtain c where
    c: "i < length (sv_clients sv)" "sv_clients sv ! i = Some c" "cl_client_addr c = a" by blast
  with assms(4) i(2) obtain b where b:
    "PacketBuffers_send (cl_buffers c) (pr_serialize pr packet)
        (sk_background_serialization_threshold k) (udp (sk_client_addr k)) w = Some (r, b, w')"
    "sv' = sv\<lparr>sv_clients := (sv_clients sv)[i := Some (c\<lparr>cl_buffers := b\<rparr>)]\<rparr>"
    by (auto simp: ServerClient_send_raw_def run_simps)
  have "buffers_wf (cl_buffers c)" using assms(1) c by (auto simp: server_wf_def intro: clients_wf_nth)
  then have "buffers_wf b" using buffers.send_invar [OF _ _ b(1)] assms(2) by (simp add: protocol_ok_def)
  with c b(2) show ?thesis by (auto intro: peer_step.client)
qed

lemma update_client_buffers_slots:
  assumes "update_client_buffers cf handler i f cs h w = Some (cs', f', h', w')" "f \<le> i"
  shows "list_all2 slot_kept cs cs' \<and> (\<forall>e \<in> set (drop (f' - i) cs'). e = None) \<and>
    (f' = f \<or> i < f') \<and> (f' = f \<longrightarrow> (\<forall>e \<in> set cs'. e = None))"
  using assms
proof (induction cf handler i f cs h w arbitrary: cs' f' h' w' rule: update_client_buffers.induct)
  case (1 cf handler i f h w)
  then show ?case by simp
next
  case (2 cf handler i f es h w)
  from "2.prems"(1) obtain es' where r:
    "update_client_buffers cf handler (i + 1) f es h w = Some (es', f', h', w')" "cs' = None # es'"
    by (auto simp: run_simps)
  have IH: "list_all2 slot_kept es es' \<and> (\<forall>e \<in> set (drop (f' - (i + 1)) es'). e = None) \<and>
      (f' = f \<or> i + 1 < f') \<and> (f' = f \<longrightarrow> (\<forall>e \<in> set es'. e = None))"
    using "2.IH" [OF r(1)] "2.prems"(2) by simp
  show ?case
  proof (cases "f' = f")
    case True
    with IH r "2.prems"(2) show ?thesis by auto
  next
    case False
    then obtain n where "f' - i = Suc n" "f' - (i + 1) = n" using IH by (cases "f' - i") auto
    with False IH r show ?thesis by simp
  qed
next
  case (3 cf handler i f c es h w)
  let ?entry = "\<lambda>ru b. (case ru of
          Inl error \<Rightarrow> (None, ch_error handler (ErrorSend (cl_client_addr c) error) h)
        | Inr _ \<Rightarrow> (Some (c\<lparr>cl_buffers := b\<rparr>), h))"
  from "3.prems"(1) obtain ru b w1 where u:
    "PacketBuffers_update (cl_buffers c) (cf_resend_delay cf) (cf_max_missed_acks cf)
       (cf_receive_timeout cf) (udp (cl_client_addr c)) w = Some (ru, b, w1)"
    by (auto simp: bind_eq_Some_conv)
  obtain e h1 where e: "(e, h1) = ?entry ru b" by (cases "?entry ru b") simp
  from "3.prems"(1) u e [symmetric] obtain es' where r:
    "update_client_buffers cf handler (i + 1) (i + 1) es h1 w1 = Some (es', f', h', w')" "cs' = e # es'"
    by (auto simp: bind_eq_Some_conv)
  have IH: "list_all2 slot_kept es es' \<and> (\<forall>e \<in> set (drop (f' - (i + 1)) es'). e = None) \<and>
      (f' = i + 1 \<or> i + 1 < f') \<and> (f' = i + 1 \<longrightarrow> (\<forall>e \<in> set es'. e = None))"
    using "3.IH" [OF u refl refl refl e r(1)] by simp
  have "slot_kept (Some c) e"
    using e buffers.update_invar [OF _ u] by (auto simp: slot_kept_def split: sum.split_asm)
  moreover obtain n where "f' - i = Suc n" "f' - (i + 1) = n" using IH by (cases "f' - i") auto
  ultimately show ?case using IH r(2) "3.prems"(2) by auto
qed

lemma Server_update_buffers_steps:
  assumes "Server_update_buffers handler sv h w = Some (sv', h', w')"
  shows "server_step\<^sup>*\<^sup>* sv sv'"
proof -
  from assms obtain cs f where u:
    "update_client_buffers (sc_connection (sv_config sv)) handler 0 0 (sv_clients sv) h w
      = Some (cs, f, h', w')" "sv' = sv\<lparr>sv_clients := take f cs\<rparr>"
    by (auto simp: Server_update_buffers_def run_simps)
  have k: "list_all2 slot_kept (sv_clients sv) cs" "\<forall>e \<in> set (drop f cs). e = None"
    using update_client_buffers_slots [OF u(1)] by simp_all
  have "server_step sv (sv\<lparr>sv_clients := cs\<rparr>)" using k(1) by (rule server_step.refresh)
  moreover have "server_step (sv\<lparr>sv_clients := cs\<rparr>) sv'"
    using server_step.truncate [of f "sv\<lparr>sv_clients := cs\<rparr>"] k(2) u(2) by simp
  ultimately show ?thesis by (meson converse_rtranclp_into_rtranclp rtranclp.rtrancl_refl)
qed

text \<open>The buffers after handling a datagram or sending a packet are those the connection returns.\<close>

lemma Server_handle_buffers_run:
  assumes "Server_handle_buffers pr handler b buf a h w = Some (packet, b', h', w')"
  obtains r w1 where "PacketBuffers_handle b buf (udp a) w = Some (r, b', w1)"
proof -
  obtain r b1 w1 where h: "PacketBuffers_handle b buf (udp a) w = Some (r, b1, w1)"
    using assms(1) by (auto simp: Server_handle_buffers_def bind_eq_Some_conv)
  with assms(1) have "b' = b1"
    by (auto simp: Server_handle_buffers_def Let_def
        split: sum.split_asm PacketHandling.split_asm ReceivedPacket.split_asm)
  with h show ?thesis using that by simp
qed

lemma Server_handle_buffers_wf [wf_intros]:
  assumes "Server_handle_buffers pr handler b buf a h w = Some (packet, b', h', w')" "buffers_wf b"
  shows "buffers_wf b'"
  using Server_handle_buffers_run [OF assms(1)] buffers.handle_invar [OF assms(2)] by metis

lemma send_or_report_run:
  assumes "send_or_report pr handler cf b packet a h w = Some (failed, b', h', w')"
  obtains r w1 where "PacketBuffers_send b (pr_serialize pr packet)
    (cf_background_serialization_threshold (sc_connection cf)) (udp a) w = Some (r, b', w1)"
  using assms by (auto simp: send_or_report_def run_simps)

lemma send_or_report_wf [wf_intros]:
  assumes "send_or_report pr handler cf b packet a h w = Some (failed, b', h', w')" "buffers_wf b"
    and "protocol_ok pr"
  shows "buffers_wf b'"
proof -
  have "length (concat (pr_serialize pr packet)) \<le> 491 * 2 ^ 32"
    using assms(3) by (simp add: protocol_ok_def)
  with send_or_report_run [OF assms(1)] buffers.send_invar [OF assms(2)] show ?thesis by metis
qed

lemma handle_pong_addr:
  "Server_handle_pong handler c buf h w = (c', h', w') \<Longrightarrow>
     cl_client_addr c' = cl_client_addr c \<and> cl_buffers c' = cl_buffers c"
  by (auto simp: Server_handle_pong_def Instant_now_def split: option.split_asm if_split_asm)

lemma handle_client_step:
  assumes wf: "server_wf sv" and pr: "protocol_ok pr"
    and i: "i < length (sv_clients sv)" "sv_clients sv ! i = Some c" "cl_client_addr c = a"
    and run: "Server_handle_client pr handler sv i c a buf h w = Some (sv', h', w')"
  shows "peer_step a sv sv'"
proof (cases "PacketKind_try_from (hd buf) = Some Kind_Ping")
  case True
  obtain c' h1 w1 where p: "Server_handle_pong handler c buf h w = (c', h1, w1)"
    by (metis prod_cases3)
  have "buffers_wf (cl_buffers c)" using wf i by (auto simp: server_wf_def intro: clients_wf_nth)
  with True p run handle_pong_addr [OF p] i show ?thesis
    by (auto simp: Server_handle_client_def intro: peer_step.client)
next
  case False
  have b: "buffers_wf (cl_buffers c)" using wf i by (auto simp: server_wf_def intro: clients_wf_nth)
  from run False obtain packet b1 h1 w1 where hb:
    "Server_handle_buffers pr handler (cl_buffers c) buf a h w = Some (packet, b1, h1, w1)"
    by (auto simp: Server_handle_client_def bind_eq_Some_conv)
  have b1: "buffers_wf b1" using Server_handle_buffers_wf [OF hb b] .
  let ?answer = "case packet of
       None \<Rightarrow> Some (False, b1, h1, w1)
     | Some (CC_Query query) \<Rightarrow>
         let (status, h) = sh_query handler a query h1
         in send_or_report pr handler (sv_config sv) b1 (SC_Status status) a h w1
     | Some (CC_Connect _) \<Rightarrow> Some (True, b1, sh_unexpected handler a Client_AlreadyConnected h1, w1)
     | Some (CC_Disconnect x) \<Rightarrow> Some (True, b1, sh_disconnect handler a x h1, w1)
     | Some (CC_User user) \<Rightarrow> Some (False, b1, sh_packet handler a user h1, w1)"
  from run False hb obtain gone b2 where answer: "?answer = Some (gone, b2, h', w')"
    and sv': "sv' = (if gone
       then sv\<lparr>sv_clients := (sv_clients sv)[i := None],
         sv_listeners := BTreeMap_insert (cl_client_addr c) b2 (sv_listeners sv)\<rparr>
       else sv\<lparr>sv_clients := (sv_clients sv)[i := Some (c\<lparr>cl_buffers := b2\<rparr>)]\<rparr>)"
    by (auto simp: Server_handle_client_def bind_eq_Some_conv split: if_split_asm)
  have "buffers_wf b2"
    using answer b1 send_or_report_wf [OF _ b1 pr]
    by (auto split: option.split_asm ClientConnectionPacket.split_asm prod.split_asm)
  with sv' i show ?thesis by (auto intro: peer_step.client peer_step.leave)
qed

lemma handle_listener_step:
  assumes wf: "server_wf sv" and pr: "protocol_ok pr" and b: "BTreeMap_get (sv_listeners sv) a = Some b"
    and run: "Server_handle_listener pr handler sv b a buf h w = Some (sv', h', w')"
  shows "peer_step a sv sv'"
proof -
  have "buffers_wf b" using wf b by (auto simp: server_wf_def dest: btree_all_get)
  moreover from run obtain packet b1 h1 w1 where hb:
    "Server_handle_buffers pr handler b buf a h w = Some (packet, b1, h1, w1)"
    by (auto simp: Server_handle_listener_def bind_eq_Some_conv)
  ultimately have b1: "buffers_wf b1" by (intro Server_handle_buffers_wf [OF hb])
  let ?keep = "\<lambda>b. sv\<lparr>sv_listeners := BTreeMap_insert a b (sv_listeners sv)\<rparr>"
  have keep: "peer_step a sv (?keep b2)" if "buffers_wf b2" for b2
    using b that by (intro peer_step.listener) simp_all
  have rep: "buffers_wf b2"
    if "send_or_report pr handler (sv_config sv) b1 x a h2 w1 = Some (f, b2, h3, w3)" for f b2 x h2 h3 w3
    using send_or_report_wf [OF that b1 pr] .
  have accept: "peer_step a sv (sv\<lparr>sv_listeners := BTreeMap_remove a (sv_listeners sv),
      sv_clients := cs[i := Some (ClientConnection_new a b2)]\<rparr>)"
    if "buffers_wf b2" "Server_get_or_add_free_slot (sv_clients sv) = (i, cs)" for b2 i cs
    using b that by (intro peer_step.accept) simp_all
  show ?thesis
  proof (cases packet)
    case None
    with run hb keep [OF b1] show ?thesis by (simp add: Server_handle_listener_def)
  next
    case (Some p)
    note run' = run [unfolded Server_handle_listener_def, simplified hb Some]
    show ?thesis
    proof (cases p)
      case (CC_Query q)
      with run' keep rep show ?thesis by (auto simp: bind_eq_Some_conv split: prod.split_asm)
    next
      case (CC_Connect con)
      obtain ans h2 where q: "sh_connect handler a con h1 = (ans, h2)" by (cases "sh_connect handler a con h1")
      obtain i cs where free: "Server_get_or_add_free_slot (sv_clients sv) = (i, cs)"
        by (cases "Server_get_or_add_free_slot (sv_clients sv)")
      show ?thesis
      proof (cases ans)
        case (Connect_Accept acc)
        with run' q free CC_Connect keep rep accept [OF _ free] show ?thesis
          by (auto simp: bind_eq_Some_conv split: if_split_asm)
      next
        case (Connect_Reject rej)
        with run' q CC_Connect keep rep show ?thesis by (auto simp: bind_eq_Some_conv)
      qed
    qed (use run' keep [OF b1] in auto)
  qed
qed

text \<open>The branches of the receive loop that change the server.\<close>

lemma Server_handle_packet_cases:
  assumes run: "Server_handle_packet pr handler sv a buf pb h w = Some (sv', pb', h', w')"
  obtains (stay) "sv' = sv"
    | (listen) "Some a \<notin> set (slots (sv_clients sv))" "BTreeMap_get (sv_listeners sv) a = None"
        "sv' = sv\<lparr>sv_listeners := BTreeMap_insert a
           (PacketBuffers_new (cf_initial_send_batch_size (sc_connection (sv_config sv)))) (sv_listeners sv)\<rparr>"
    | (client) i c where "i < length (sv_clients sv)" "sv_clients sv ! i = Some c" "cl_client_addr c = a"
        "Server_handle_client pr handler sv i c a buf h w = Some (sv', h', w')"
    | (listener) b where "position (is_client a) (sv_clients sv) = None" "BTreeMap_get (sv_listeners sv) a = Some b"
        "Server_handle_listener pr handler sv b a buf h w = Some (sv', h', w')"
proof (cases "buf = []")
  case True
  with run have "sv' = sv \<or> (Some a \<notin> set (slots (sv_clients sv)) \<and> BTreeMap_get (sv_listeners sv) a = None \<and>
      sv' = sv\<lparr>sv_listeners := BTreeMap_insert a
        (PacketBuffers_new (cf_initial_send_batch_size (sc_connection (sv_config sv)))) (sv_listeners sv)\<rparr>)"
    by (auto simp: Server_handle_packet_def Server_handle_version_request_def run_simps list_ex_is_client
        split: if_split_asm)
  then show ?thesis by (elim disjE conjE) (erule stay, erule (2) listen)
next
  case False
  show ?thesis
  proof (cases "position (is_client a) (sv_clients sv)")
    case (Some i)
    from position_is_client [OF Some] obtain c where
      c: "i < length (sv_clients sv)" "sv_clients sv ! i = Some c" "cl_client_addr c = a" by blast
    with run False Some have "Server_handle_client pr handler sv i c a buf h w = Some (sv', h', w')"
      by (auto simp: Server_handle_packet_def bind_eq_Some_conv)
    with c show ?thesis by (rule client)
  next
    case None
    show ?thesis
    proof (cases "BTreeMap_get (sv_listeners sv) a")
      case (Some b)
      with run False None have "Server_handle_listener pr handler sv b a buf h w = Some (sv', h', w')"
        by (auto simp: Server_handle_packet_def bind_eq_Some_conv)
      with None Some show ?thesis by (rule listener)
    qed (use run False None stay in \<open>simp add: Server_handle_packet_def\<close>)
  qed
qed

lemma handle_packet_step:
  assumes wf: "server_wf sv" and pr: "protocol_ok pr"
    and run: "Server_handle_packet pr handler sv a buf pb h w = Some (sv', pb', h', w')"
  shows "peer_step a sv sv'"
  using run
proof (cases rule: Server_handle_packet_cases)
  case stay
  then show ?thesis by (simp add: peer_step.stay)
next
  case listen
  have "buffers_wf (PacketBuffers_new (cf_initial_send_batch_size (sc_connection (sv_config sv))))"
    using wf by (simp add: server_wf_def config_wf_def PacketBuffers_new_wf)
  with listen show ?thesis by (auto intro: peer_step.listen)
next
  case (client i c)
  show ?thesis by (rule handle_client_step [OF wf pr client])
next
  case (listener b)
  then show ?thesis by (auto intro: handle_listener_step [OF wf pr])
qed

lemma handle_packets_loop_steps:
  assumes "handle_packets_loop pr handler sv inbox pb h w = Some (sv', h', w')"
    and "server_wf sv" "protocol_ok pr"
  shows "server_step\<^sup>*\<^sup>* sv sv'"
  using assms
proof (induction pr handler sv inbox pb h w rule: handle_packets_loop.induct)
  case (1 pr handler sv inbox pb h w)
  obtain d inbox' pb1 h1 where r: "recv handler inbox pb h = (d, inbox', pb1, h1)" by (metis prod_cases4)
  show ?case
  proof (cases d)
    case None
    with "1.prems"(1) r show ?thesis by (simp add: handle_packets_loop.simps)
  next
    case (Some x)
    obtain a buf where x: "x = (a, buf)" by (cases x)
    from "1.prems"(1) Some x r obtain sv1 pb2 h2 w2 where s:
      "Server_handle_packet pr handler sv a buf pb1 h1 w = Some (sv1, pb2, h2, w2)"
      "handle_packets_loop pr handler sv1 inbox' pb2 h2 w2 = Some (sv', h', w')"
      by (auto simp: handle_packets_loop.simps [of pr handler sv] bind_eq_Some_conv)
    have st: "server_step sv sv1"
      using handle_packet_step [OF "1.prems"(2,3) s(1)] by (rule server_step.peer)
    then have "server_wf sv1" using server_step_wf "1.prems"(2) by blast
    then have "server_step\<^sup>*\<^sup>* sv1 sv'"
      using "1.IH" [OF r [symmetric] Some x [symmetric] refl refl s(1) refl refl refl s(2)] "1.prems"(3) by blast
    with st show ?thesis by (rule converse_rtranclp_into_rtranclp)
  qed
qed

section \<open>Pings\<close>

lemma ping_bytes_eq: "ping_bytes u = Some (PacketKind_into Kind_Ping # Uuid_as_bytes u)"
proof -
  have "replicate 17 (0::u8) = 0 # replicate 16 0" by (simp add: numeral_eq_Suc)
  then show ?thesis by (simp add: ping_bytes_def index_set_def copy_into_def Let_def)
qed

lemma send_ping_slot:
  assumes "send_ping cf handler c h w = Some (e, h', w')" shows "slot_kept (Some c) e"
  using assms
  by (auto simp: send_ping_def slot_kept_def run_simps Instant_now_def Instant_elapsed_def
      split: if_split_asm option.split_asm prod.split_asm)

lemma send_pings_loop_slots:
  "send_pings_loop cf handler cs h w = Some (cs', h', w') \<Longrightarrow> list_all2 slot_kept cs cs'"
proof (induction cs arbitrary: cs' h w)
  case Nil
  then show ?case by simp
next
  case (Cons e cs)
  then show ?case
    by (cases e) (auto simp: bind_eq_Some_conv intro: send_ping_slot)
qed

lemma Server_send_pings_step:
  "Server_send_pings handler sv h w = Some (sv', h', w') \<Longrightarrow> server_step sv sv'"
  by (auto simp: Server_send_pings_def bind_eq_Some_conv
      intro: server_step.refresh send_pings_loop_slots)

theorem Server_update_steps:
  assumes "Server_update pr handler sv inbox h w = Some (sv', h', w')" "server_wf sv" "protocol_ok pr"
  shows "server_step\<^sup>*\<^sup>* sv sv'"
proof -
  from assms(1) obtain sv1 h1 w1 sv2 h2 w2 where
    u: "Server_update_buffers handler sv h w = Some (sv1, h1, w1)"
      "Server_handle_packets pr handler sv1 inbox h1 w1 = Some (sv2, h2, w2)"
      "Server_send_pings handler sv2 h2 w2 = Some (sv', h', w')"
    by (auto simp: Server_update_def bind_eq_Some_conv)
  have "server_step\<^sup>*\<^sup>* sv sv2"
  proof (rule server.steps_extend(1) [OF assms(2)])
    show "server_step\<^sup>*\<^sup>* sv sv1" using u(1) by (rule Server_update_buffers_steps)
    show "server_step\<^sup>*\<^sup>* sv1 sv2" if "server_wf sv1"
      using u(2) that assms(3) unfolding Server_handle_packets_def by (intro handle_packets_loop_steps)
  qed
  with Server_send_pings_step [OF u(3)] show ?thesis by auto
qed

lemma Server_host_wf:
  "config_wf (sc_connection config) \<Longrightarrow> Server_host_with_config b n config = Inr sv \<Longrightarrow> server_wf sv"
  by (auto simp: Server_host_with_config_def server_wf_def slots_def slots_distinct_def clients_wf_def
      btree.invar_empty split: sum.split_asm)

text \<open>The pong handler accepts exactly the id of the ping that is out.\<close>

lemma pong_valid:
  assumes "cl_active_ping c = Some ap"
  shows "Server_handle_pong handler c (PacketKind_into Kind_Ping # Uuid_as_bytes u) h w =
    (if u = ap_ping_id ap
     then (c\<lparr>cl_last_pong := Some (clock w (ticks w)), cl_missed_pongs := 0\<rparr>,
           sh_pong handler (cl_client_addr c) True h, w\<lparr>ticks := Suc (ticks w)\<rparr>)
     else (c, sh_pong handler (cl_client_addr c) False h, w))"
  using assms by (simp add: Server_handle_pong_def Instant_now_def)

text \<open>A round for a client that did not answer: it is dropped when this is one miss too many, and
  otherwise counted and pinged again.\<close>

definition ping_accepted :: "world \<Rightarrow> SocketAddr \<Rightarrow> bool" where
  "ping_accepted w a \<longleftrightarrow> (\<forall>k buf. send_to w k a buf = Inr (length buf))"

lemma udp_accepted:
  "ping_accepted w a \<Longrightarrow> udp a buf w
     = Some (Inr True, w\<lparr>sends := Suc (sends w), sent := sent w @ [(a, buf)]\<rparr>)"
  by (simp add: ping_accepted_def NonBlockingUdpSocket_send_def NonBlockingUdpSocket_new_def
      UdpSocket_send_to_def Let_def)

lemma send_ping_silent:
  assumes "cl_active_ping c = Some ap" "cl_last_pong c = None"
    and "sc_ping_delay cf \<le> clock w (ticks w) - ap_ping ap"
    and "sc_max_missed_pongs cf = Some m" "cl_missed_pongs c + 1 < USIZE_LIMIT"
    and "ping_accepted w (cl_client_addr c)"
  shows "\<exists>h' w'. send_ping cf handler c h w =
      Some (if m < cl_missed_pongs c + 1 then None
            else Some (c\<lparr>cl_missed_pongs := cl_missed_pongs c + 1, cl_active_ping :=
              Some \<lparr>ap_ping_id = uuid_source w (uuids_drawn w), ap_ping = clock w (Suc (ticks w))\<rparr>\<rparr>),
            h', w') \<and>
    same_env w w' \<and> (m < cl_missed_pongs c + 1 \<or> ticks w' = ticks w + 2)"
proof -
  have sat: "usize_saturating_add (cl_missed_pongs c) 1 = cl_missed_pongs c + 1"
    using assms(5) by (simp add: usize_saturating_add_def)
  let ?w = "w\<lparr>ticks := Suc (ticks w), uuids_drawn := Suc (uuids_drawn w)\<rparr>"
  have "ping_accepted ?w (cl_client_addr c)" using assms(6) by (simp add: ping_accepted_def)
  note send = udp_accepted [OF this]
  have "c\<lparr>cl_active_ping := None, cl_last_pong := None, cl_missed_pongs := k, cl_active_ping := p\<rparr>
      = c\<lparr>cl_missed_pongs := k, cl_active_ping := p\<rparr>" for k p
    using assms(2) by (cases c) simp
  with assms(1-4) sat send show ?thesis
    by (auto simp: send_ping_def Instant_elapsed_def Instant_now_def Uuid_new_v4_def ping_bytes_eq Let_def)
qed

fun ping_rounds ::
    "ServerConfig
      \<Rightarrow> ('h, 'version, 'query, 'status, 'connect, 'accept, 'reject, 'disconnect, 'user) ServerHandler
      \<Rightarrow> nat \<Rightarrow> ClientConnection \<Rightarrow> 'h \<Rightarrow> world \<Rightarrow> (ClientConnection option \<times> 'h \<times> world) option" where
  "ping_rounds cf handler 0 c h w = Some (Some c, h, w)"
| "ping_rounds cf handler (Suc n) c h w = do {
     (e, h, w) \<leftarrow> send_ping cf handler c h w;
     (case e of None \<Rightarrow> Some (None, h, w) | Some c \<Rightarrow> ping_rounds cf handler n c h w)
   }"

lemma silent_rounds:
  assumes "cl_active_ping c = Some ap" "cl_last_pong c = None"
    and "ap_ping ap + sc_ping_delay cf \<le> clock w (ticks w)"
    and "\<And>k. clock w k + sc_ping_delay cf \<le> clock w (Suc k)"
    and "sc_max_missed_pongs cf = Some m" "m + 1 < USIZE_LIMIT" "cl_missed_pongs c \<le> m"
    and "ping_accepted w (cl_client_addr c)"
  shows "\<exists>e h' w'. ping_rounds cf handler n c h w = Some (e, h', w') \<and>
    (e = None \<longleftrightarrow> m < cl_missed_pongs c + n)"
  using assms
proof (induction n arbitrary: c ap h w)
  case 0
  then show ?case by simp
next
  case (Suc n)
  have "sc_ping_delay cf \<le> clock w (ticks w) - ap_ping ap" "cl_missed_pongs c + 1 < USIZE_LIMIT"
    using Suc.prems(3,6,7) by linarith+
  note s = send_ping_silent [OF Suc.prems(1,2) this(1) Suc.prems(5) this(2) Suc.prems(8), of handler h]
  show ?case
  proof (cases "m < cl_missed_pongs c + 1")
    case True
    with s show ?thesis by auto
  next
    case False
    let ?c = "c\<lparr>cl_missed_pongs := cl_missed_pongs c + 1, cl_active_ping :=
              Some \<lparr>ap_ping_id = uuid_source w (uuids_drawn w), ap_ping = clock w (Suc (ticks w))\<rparr>\<rparr>"
    obtain h' w' where s': "send_ping cf handler c h w = Some (Some ?c, h', w')" "same_env w w'"
      "ticks w' = ticks w + 2"
      using s False by auto
    have env: "clock w' = clock w" "ping_accepted w' (cl_client_addr ?c)"
      using s'(2) Suc.prems(8) by (simp_all add: same_env_def ping_accepted_def)
    have "clock w (Suc (ticks w)) + sc_ping_delay cf \<le> clock w' (ticks w')"
      using Suc.prems(4) [of "Suc (ticks w)"] s'(3) env(1) by simp
    then have "\<exists>e h2 w2. ping_rounds cf handler n ?c h' w' = Some (e, h2, w2) \<and>
        (e = None \<longleftrightarrow> m < cl_missed_pongs ?c + n)"
      using Suc.prems False env
      by (intro Suc.IH [where ap = "\<lparr>ap_ping_id = uuid_source w (uuids_drawn w),
            ap_ping = clock w (Suc (ticks w))\<rparr>"]) simp_all
    with s'(1) show ?thesis by simp
  qed
qed

text \<open>No connected client has more missed pongs than the configuration allows.\<close>

definition pongs_bounded :: "ServerConfig \<Rightarrow> ClientConnection option \<Rightarrow> bool" where
  "pongs_bounded cf e \<longleftrightarrow> (\<forall>c m. e = Some c \<longrightarrow> sc_max_missed_pongs cf = Some m \<longrightarrow> cl_missed_pongs c \<le> m)"

lemma send_ping_bounded:
  assumes "send_ping cf handler c h w = Some (e, h', w')" "pongs_bounded cf (Some c)"
  shows "pongs_bounded cf e"
  using assms
  by (auto simp: send_ping_def pongs_bounded_def run_simps Instant_now_def Instant_elapsed_def
      split: if_split_asm option.split_asm prod.split_asm)

lemma send_pings_bounded:
  assumes "send_pings_loop cf handler cs h w = Some (cs', h', w')"
    "\<forall>e \<in> set cs. pongs_bounded cf e"
  shows "\<forall>e \<in> set cs'. pongs_bounded cf e"
  using assms
proof (induction cs arbitrary: cs' h w)
  case Nil
  then show ?case by simp
next
  case (Cons e cs)
  then show ?case
    by (cases e) (auto simp: bind_eq_Some_conv intro: send_ping_bounded)
qed

section \<open>Roles\<close>

text \<open>The abstract view of the server: what an address is to it. A datagram moves only the role of
  its sender, and only along \<open>role_step\<close>.\<close>

datatype role = Unknown | Listening | Slot nat

definition role :: "Server \<Rightarrow> SocketAddr \<Rightarrow> role" where
  "role sv a =
     (case position (is_client a) (sv_clients sv) of
        Some i \<Rightarrow> Slot i
      | None \<Rightarrow> if BTreeMap_get (sv_listeners sv) a = None then Unknown else Listening)"

inductive role_step :: "role \<Rightarrow> role \<Rightarrow> bool" where
  keep: "role_step r r"
| version: "role_step Unknown Listening"
| connect: "role_step Listening (Slot i)"
| disconnect: "role_step (Slot i) Listening"

lemma role_slots:
  assumes "slots_distinct (slots (sv_clients sv))"
  shows "role sv a = Slot i \<longleftrightarrow> i < length (sv_clients sv) \<and> slots (sv_clients sv) ! i = Some a"
    "role sv a = Listening \<longleftrightarrow> Some a \<notin> set (slots (sv_clients sv)) \<and> BTreeMap_get (sv_listeners sv) a \<noteq> None"
    "role sv a = Unknown \<longleftrightarrow> Some a \<notin> set (slots (sv_clients sv)) \<and> BTreeMap_get (sv_listeners sv) a = None"
proof -
  show "role sv a = Slot i \<longleftrightarrow> i < length (sv_clients sv) \<and> slots (sv_clients sv) ! i = Some a"
  proof
    assume "role sv a = Slot i"
    then have "position (is_client a) (sv_clients sv) = Some i"
      by (auto simp: role_def split: option.split_asm if_split_asm)
    then show "i < length (sv_clients sv) \<and> slots (sv_clients sv) ! i = Some a"
      using position_is_client by fastforce
  next
    assume i: "i < length (sv_clients sv) \<and> slots (sv_clients sv) ! i = Some a"
    then obtain j where j: "position (is_client a) (sv_clients sv) = Some j"
      using position_is_client_None [of a "sv_clients sv"] nth_mem by (metis length_slots not_None_eq)
    then have "j < length (sv_clients sv)" "slots (sv_clients sv) ! j = Some a"
      using position_is_client by fastforce+
    with i assms have "j = i" unfolding slots_distinct_def by (metis length_slots)
    with j show "role sv a = Slot i" by (simp add: role_def)
  qed
qed (auto simp: role_def position_is_client_None [symmetric] split: option.split)

definition at_slot :: "Server \<Rightarrow> nat \<Rightarrow> SocketAddr \<Rightarrow> bool" where
  "at_slot sv i a \<longleftrightarrow> i < length (sv_clients sv) \<and> slots (sv_clients sv) ! i = Some a"

lemma at_slot_mem: "(\<exists>i. at_slot sv i a) \<longleftrightarrow> Some a \<in> set (slots (sv_clients sv))"
  by (auto simp: at_slot_def in_set_conv_nth)

lemma role_eqI:
  assumes "server_wf sv" "server_wf sv'" "\<And>i. at_slot sv' i b \<longleftrightarrow> at_slot sv i b"
    and "BTreeMap_get (sv_listeners sv') b = None \<longleftrightarrow> BTreeMap_get (sv_listeners sv) b = None"
  shows "role sv' b = role sv b"
proof -
  have d: "slots_distinct (slots (sv_clients sv))" "slots_distinct (slots (sv_clients sv'))"
    using assms(1,2) by (simp_all add: server_wf_def)
  have m: "Some b \<in> set (slots (sv_clients sv')) \<longleftrightarrow> Some b \<in> set (slots (sv_clients sv))"
    using assms(3) at_slot_mem by metis
  show ?thesis
    using role_slots [OF d(1), of b] role_slots [OF d(2), of b] assms(3,4) m
    unfolding at_slot_def by (cases "role sv b") metis+
qed

lemma accept_at_slot:
  assumes "Server_get_or_add_free_slot (sv_clients sv) = (i, cs)" "sv_clients sv' = cs[i := Some c]"
  shows "at_slot sv' j b \<longleftrightarrow> (j = i \<and> b = cl_client_addr c) \<or> at_slot sv j b"
proof -
  note f = get_or_add_free_slot [OF assms(1)]
  show ?thesis
  proof (cases "j = i")
    case True
    have "\<not> at_slot sv i b"
      using f(1-3) by (auto simp: at_slot_def nth_append split: if_split_asm)
    with True f(1) assms(2) show ?thesis by (auto simp: at_slot_def)
  next
    case False
    with f(1,3) assms(2) show ?thesis
      by (auto simp: at_slot_def nth_append split: if_split_asm)
  qed
qed

text \<open>A client that leaves its slot listens again; every other address keeps its role.\<close>

lemma leave_roles:
  assumes wf: "server_wf sv" "server_wf sv'" and i: "i < length (sv_clients sv)" "sv_clients sv ! i = Some c" "cl_client_addr c = a"
    and sv': "sv' = sv\<lparr>sv_clients := (sv_clients sv)[i := None], sv_listeners := BTreeMap_insert a b (sv_listeners sv)\<rparr>"
  shows "role sv a = Slot i \<and> role sv' a = Listening \<and> (\<forall>x. x \<noteq> a \<longrightarrow> role sv' x = role sv x)"
proof -
  have d: "slots_distinct (slots (sv_clients sv))" "slots_distinct (slots (sv_clients sv'))"
    and li: "btree_invar (sv_listeners sv)"
    using wf by (simp_all add: server_wf_def)
  have s: "i < length (slots (sv_clients sv))" "slots (sv_clients sv) ! i = Some a" using i by simp_all
  have "role sv a = Slot i" using role_slots(1) [OF d(1), of a i] s by simp
  moreover have "role sv' a = Listening"
    using role_slots(2) [OF d(2), of a] set_update_None [OF d(1) s] li by (simp add: sv' slots_update btree.get_insert)
  moreover have "at_slot sv' j x \<longleftrightarrow> at_slot sv j x" if "x \<noteq> a" for j x
    using s that by (auto simp: sv' at_slot_def slots_update nth_list_update)
  then have "role sv' x = role sv x" if "x \<noteq> a" for x
    using that li by (intro role_eqI [OF wf]) (simp_all add: sv' btree.get_insert)
  ultimately show ?thesis by blast
qed

lemma peer_step_roles:
  assumes "peer_step a sv sv'" "server_wf sv"
  shows "role_step (role sv a) (role sv' a) \<and> (\<forall>b. b \<noteq> a \<longrightarrow> role sv' b = role sv b)"
proof -
  have wf': "server_wf sv'" using peer_step_wf assms .
  have d: "slots_distinct (slots (sv_clients sv))" "slots_distinct (slots (sv_clients sv'))"
    using assms(2) wf' by (simp_all add: server_wf_def)
  have li: "btree_invar (sv_listeners sv)" using assms(2) by (simp add: server_wf_def)
  have excl: "Some a \<notin> set (slots (sv_clients sv))" if "BTreeMap_get (sv_listeners sv) a \<noteq> None"
    using that assms(2) by (auto simp: server_wf_def)
  note r = role_slots [OF d(1), of a] and r' = role_slots [OF d(2), of a]
  note eq = role_eqI [OF assms(2) wf']
  from assms(1) show ?thesis
  proof cases
    case stay
    then show ?thesis by (simp add: role_step.keep)
  next
    case (listen b)
    then have "role sv a = Unknown" "role sv' a = Listening" using r r' li by (auto simp: btree.get_insert)
    with listen eq li show ?thesis by (auto simp: role_step.version at_slot_def btree.get_insert)
  next
    case (listener b)
    then have "role sv a = Listening" "role sv' a = Listening"
      using r r' li excl by (auto simp: btree.get_insert)
    with listener eq li show ?thesis by (auto simp: role_step.keep at_slot_def btree.get_insert)
  next
    case (accept b i cs)
    have "sv_clients sv' = cs[i := Some (ClientConnection_new a b)]" using accept by simp
    note at = accept_at_slot [OF accept(4) this]
    have "role sv a = Listening" using r accept excl by auto
    moreover have "role sv' a = Slot i"
      using r'(1) [of i] at [of i a] by (simp add: at_slot_def ClientConnection_new_def)
    ultimately show ?thesis
      using accept eq at li
      by (auto simp: role_step.connect ClientConnection_new_def btree.get_remove)
  next
    case (client i c c')
    then have "slots (sv_clients sv') = slots (sv_clients sv)" by (simp add: slots_update_same)
    then have "at_slot sv' j b \<longleftrightarrow> at_slot sv j b" for j b
      unfolding at_slot_def by (metis length_slots)
    moreover have "sv_listeners sv' = sv_listeners sv" using client by simp
    ultimately have "role sv' b = role sv b" for b by (intro eq) simp_all
    then show ?thesis by (simp add: role_step.keep)
  next
    case (leave i c b)
    from leave_roles [OF assms(2) wf' leave(2-4,1)] show ?thesis
      using role_step.disconnect by metis
  qed
qed

section \<open>Handling a datagram does not panic\<close>

lemma Server_send_version_total:
  assumes "whole_datagrams w" "protocol_ok pr" "length pb = PACKET_BUFFER_SIZE"
  shows "\<exists>r pb' h' w'. Server_send_version pr handler pb a h w = Some (r, pb', h', w') \<and>
    same_env w w' \<and> length pb' = PACKET_BUFFER_SIZE"
proof -
  obtain v h1 where v: "sh_version handler h = (v, h1)" by (cases "sh_version handler h")
  obtain x xs where pb: "pb = x # xs" "length xs = PACKET_DATA_SIZE"
    using assms(3) by (cases pb) (auto simp: PACKET_DATA_SIZE_def PACKET_BUFFER_SIZE_def)
  obtain n ys where wr: "pr_version_write pr v xs = (n, ys)" by (cases "pr_version_write pr v xs")
  have n: "n \<le> PACKET_DATA_SIZE" "length ys = PACKET_DATA_SIZE"
    using assms(2) pb(2) wr unfolding protocol_ok_def by (metis fst_conv snd_conv)+
  let ?pb = "PacketKind_into Kind_Version # ys"
  have len: "length ?pb = PACKET_BUFFER_SIZE"
    using n(2) by (simp add: PACKET_DATA_SIZE_def PACKET_BUFFER_SIZE_def)
  then have "slice_get ?pb 0 (n + 1) = Some (take (n + 1) ?pb)"
    using n(1) by (simp add: slice_get_def PACKET_DATA_SIZE_def PACKET_BUFFER_SIZE_def)
  moreover obtain r w' where "udp a (take (n + 1) ?pb) w = Some (r, w')" "same_env w w'"
    using udp.sendE [OF assms(1)] by metis
  ultimately show ?thesis
    using len by (simp add: Server_send_version_def pb(1) index_set_def v wr)
qed

lemma Server_handle_buffers_total:
  assumes "whole_datagrams w" "buffers_safe b buf"
  shows "\<exists>packet b' h' w'. Server_handle_buffers pr handler b buf a h w = Some (packet, b', h', w') \<and>
    same_env w w'"
proof -
  obtain r b' w' where "PacketBuffers_handle b buf (udp a) w = Some (r, b', w')" "same_env w w'"
    using udp.PacketBuffers_handle_total [OF assms] by blast
  then show ?thesis
    by (auto simp: Server_handle_buffers_def Let_def
        split: sum.split PacketHandling.split ReceivedPacket.split)
qed

lemma send_or_report_total:
  assumes "whole_datagrams w" "buffers_wf b" "protocol_ok pr"
  shows "\<exists>failed b' h' w'. send_or_report pr handler cf b packet a h w = Some (failed, b', h', w') \<and>
    same_env w w'"
proof -
  have "length (concat (pr_serialize pr packet)) \<le> 491 * 2 ^ 32"
    using assms(3) by (simp add: protocol_ok_def)
  then obtain r b' w' k where "PacketBuffers_send b (pr_serialize pr packet)
      (cf_background_serialization_threshold (sc_connection cf)) (udp a) w = Some (r, b', w')" "same_env w w'"
    using udp.PacketBuffers_send_total [OF assms(1,2), of "pr_serialize pr packet"
        "cf_background_serialization_threshold (sc_connection cf)" a] by metis
  then show ?thesis by (auto simp: send_or_report_def split: sum.split)
qed

lemma handle_client_total:
  assumes w: "whole_datagrams w" and pr: "protocol_ok pr"
    and c: "buffers_wf (cl_buffers c)" "buffers_safe (cl_buffers c) buf"
  shows "\<exists>sv' h' w'. Server_handle_client pr handler sv i c a buf h w = Some (sv', h', w') \<and> same_env w w'"
proof (cases "PacketKind_try_from (hd buf) = Some Kind_Ping")
  case True
  obtain c' h' w' where p: "Server_handle_pong handler c buf h w = (c', h', w')" by (metis prod_cases3)
  then have "same_env w w'"
    by (auto simp: Server_handle_pong_def Instant_now_def split: option.split_asm if_split_asm)
  with True p show ?thesis by (simp add: Server_handle_client_def)
next
  case False
  obtain packet b1 h1 w1 where hb:
    "Server_handle_buffers pr handler (cl_buffers c) buf a h w = Some (packet, b1, h1, w1)" "same_env w w1"
    using Server_handle_buffers_total [OF w c(2), of pr handler a h] by blast
  have b1: "buffers_wf b1" using Server_handle_buffers_wf [OF hb(1) c(1)] .
  have w1: "whole_datagrams w1" using same_env_whole [OF hb(2)] w by simp
  have rep: "\<exists>f b2 h3 w3. send_or_report pr handler (sv_config sv) b1 x a h2 w1 = Some (f, b2, h3, w3) \<and>
      same_env w w3" for x h2
    using send_or_report_total [OF w1 b1 pr, of handler "sv_config sv" x a h2] same_env_trans [OF hb(2)]
    by blast
  show ?thesis
  proof (cases packet)
    case None
    with False hb show ?thesis by (simp add: Server_handle_client_def)
  next
    case (Some p)
    show ?thesis
    proof (cases p)
      case (CC_Query q)
      obtain st h2 where q: "sh_query handler a q h1 = (st, h2)" by (cases "sh_query handler a q h1")
      obtain f b2 h3 w3 where
        "send_or_report pr handler (sv_config sv) b1 (SC_Status st) a h2 w1 = Some (f, b2, h3, w3)" "same_env w w3"
        using rep by blast
      with False hb Some CC_Query q show ?thesis by (simp add: Server_handle_client_def)
    qed (use False hb Some in \<open>simp_all add: Server_handle_client_def\<close>)
  qed
qed

lemma handle_listener_total:
  assumes w: "whole_datagrams w" and pr: "protocol_ok pr" and b: "buffers_wf b" "buffers_safe b buf"
  shows "\<exists>sv' h' w'. Server_handle_listener pr handler sv b a buf h w = Some (sv', h', w') \<and> same_env w w'"
proof -
  obtain packet b1 h1 w1 where hb:
    "Server_handle_buffers pr handler b buf a h w = Some (packet, b1, h1, w1)" "same_env w w1"
    using Server_handle_buffers_total [OF w b(2), of pr handler a h] by blast
  have b1: "buffers_wf b1" using Server_handle_buffers_wf [OF hb(1) b(1)] .
  have w1: "whole_datagrams w1" using same_env_whole [OF hb(2)] w by simp
  have rep: "\<exists>f b2 h3 w3. send_or_report pr handler (sv_config sv) b1 x a h2 w1 = Some (f, b2, h3, w3) \<and>
      same_env w w3" for x h2
    using send_or_report_total [OF w1 b1 pr, of handler "sv_config sv" x a h2] same_env_trans [OF hb(2)]
    by blast
  show ?thesis
  proof (cases packet)
    case None
    with hb show ?thesis by (simp add: Server_handle_listener_def)
  next
    case (Some p)
    show ?thesis
    proof (cases p)
      case (CC_Query q)
      obtain st h2 where q: "sh_query handler a q h1 = (st, h2)" by (cases "sh_query handler a q h1")
      obtain f b2 h3 w3 where
        "send_or_report pr handler (sv_config sv) b1 (SC_Status st) a h2 w1 = Some (f, b2, h3, w3)" "same_env w w3"
        using rep by blast
      with hb Some CC_Query q show ?thesis by (simp add: Server_handle_listener_def)
    next
      case (CC_Connect con)
      obtain ans h2 where q: "sh_connect handler a con h1 = (ans, h2)" by (cases "sh_connect handler a con h1")
      let ?x = "case ans of Connect_Accept x \<Rightarrow> SC_Accept x | Connect_Reject x \<Rightarrow> SC_Reject x"
      obtain f b2 h3 w3 where
        "send_or_report pr handler (sv_config sv) b1 ?x a h2 w1 = Some (f, b2, h3, w3)" "same_env w w3"
        using rep by blast
      with hb Some CC_Connect q show ?thesis
        by (cases ans) (auto simp: Server_handle_listener_def split: prod.split)
    qed (use hb Some in \<open>simp_all add: Server_handle_listener_def\<close>)
  qed
qed

text \<open>A server in a well-formed state handles any datagram without a panic, if the buffers of the
  sender can take it.\<close>

definition sender_safe :: "Server \<Rightarrow> SocketAddr \<Rightarrow> u8 list \<Rightarrow> bool" where
  "sender_safe sv a buf \<longleftrightarrow>
     (\<forall>b. BTreeMap_get (sv_listeners sv) a = Some b \<longrightarrow> buffers_safe b buf) \<and>
     (\<forall>c. Some c \<in> set (sv_clients sv) \<longrightarrow> cl_client_addr c = a \<longrightarrow> buffers_safe (cl_buffers c) buf)"

lemma handle_packet_total:
  assumes w: "whole_datagrams w" and pr: "protocol_ok pr" and sv: "server_wf sv" "sender_safe sv a buf"
    and pb: "length pb = PACKET_BUFFER_SIZE"
  shows "\<exists>sv' pb' h' w'. Server_handle_packet pr handler sv a buf pb h w = Some (sv', pb', h', w') \<and>
    same_env w w'"
proof (cases "buf = []")
  case True
  obtain r pb' h' w' where "Server_send_version pr handler pb a h w = Some (r, pb', h', w')" "same_env w w'"
    using Server_send_version_total [OF w pr pb, of handler a h] by blast
  with True show ?thesis
    by (cases r) (auto simp: Server_handle_packet_def Server_handle_version_request_def)
next
  case False
  show ?thesis
  proof (cases "position (is_client a) (sv_clients sv)")
    case (Some i)
    from position_is_client [OF Some] obtain c where
      c: "i < length (sv_clients sv)" "sv_clients sv ! i = Some c" "cl_client_addr c = a" by blast
    then have mem: "Some c \<in> set (sv_clients sv)" by (metis nth_mem)
    with sv c(3) have "buffers_wf (cl_buffers c)" "buffers_safe (cl_buffers c) buf"
      by (auto simp: server_wf_def clients_wf_def sender_safe_def)
    from handle_client_total [OF w pr this, of handler sv i a h] False Some c show ?thesis
      by (auto simp: Server_handle_packet_def)
  next
    case None
    show ?thesis
    proof (cases "BTreeMap_get (sv_listeners sv) a")
      case (Some b)
      with sv have "buffers_wf b" "buffers_safe b buf"
        by (auto simp: server_wf_def sender_safe_def dest: btree_all_get)
      from handle_listener_total [OF w pr this, of handler sv a h] False None Some show ?thesis
        by (auto simp: Server_handle_packet_def)
    qed (use None False in \<open>simp add: Server_handle_packet_def\<close>)
  qed
qed

text \<open>The two passes over the clients that open and close an update do not panic either.\<close>

lemma update_client_buffers_total:
  assumes "whole_datagrams w" "\<forall>c. Some c \<in> set cs \<longrightarrow> buffers_ok (cl_buffers c)"
  shows "\<exists>cs' f' h' w'. update_client_buffers cf handler i f cs h w = Some (cs', f', h', w') \<and> same_env w w'"
  using assms
proof (induction cs arbitrary: i f h w)
  case Nil
  then show ?case by simp
next
  case (Cons e cs)
  show ?case
  proof (cases e)
    case None
    with Cons.IH [OF Cons.prems(1), of "i + 1" f h] Cons.prems(2) show ?thesis by auto
  next
    case (Some c)
    then have "buffers_ok (cl_buffers c)" using Cons.prems(2) by simp
    then obtain r b w1 where u: "PacketBuffers_update (cl_buffers c) (cf_resend_delay cf) (cf_max_missed_acks cf)
       (cf_receive_timeout cf) (udp (cl_client_addr c)) w = Some (r, b, w1)" "same_env w w1"
      by (rule udp.PacketBuffers_update_total [OF Cons.prems(1)])
    have w1: "whole_datagrams w1" using same_env_whole [OF u(2)] Cons.prems(1) by simp
    let ?h = "case r of Inl e \<Rightarrow> ch_error handler (ErrorSend (cl_client_addr c) e) h | Inr _ \<Rightarrow> h"
    obtain cs' f' h' w' where "update_client_buffers cf handler (i + 1) (i + 1) cs ?h w1 = Some (cs', f', h', w')"
      "same_env w1 w'"
      using Cons.IH [OF w1, of "i + 1" "i + 1" ?h] Cons.prems(2) by auto
    with u Some same_env_trans [OF u(2)] show ?thesis by (cases r) auto
  qed
qed

lemma send_ping_total:
  assumes "whole_datagrams w"
  shows "\<exists>e h' w'. send_ping cf handler c h w = Some (e, h', w') \<and> same_env w w'"
proof -
  have send: "\<exists>r w'. udp a buf w1 = Some (r, w') \<and> same_env w w'" if "same_env w w1" for a buf w1
    using udp.sendE [of w1 a buf] that assms same_env_whole [OF that] same_env_trans [OF that] by metis
  obtain due w1 where due: "(case cl_active_ping c of None \<Rightarrow> (True, w)
        | Some active_ping \<Rightarrow>
            let (elapsed, w) = Instant_elapsed (ap_ping active_ping) w
            in (elapsed \<ge> sc_ping_delay cf, w)) = (due, w1)" "same_env w w1"
    by (cases "cl_active_ping c") (auto simp: Instant_elapsed_def Instant_now_def)
  obtain u w2 where u: "Uuid_new_v4 w1 = (u, w2)" "same_env w w2"
    using due(2) by (simp add: Uuid_new_v4_def)
  obtain r w3 where s: "udp (cl_client_addr c) (PacketKind_into Kind_Ping # Uuid_as_bytes u) w2 = Some (r, w3)"
    "same_env w w3" using send [OF u(2)] by blast
  show ?thesis
    unfolding send_ping_def due(1) using due(2) u s
    by (auto simp: ping_bytes_eq Let_def Instant_now_def split: sum.split)
qed

lemma send_pings_loop_total:
  assumes "whole_datagrams w"
  shows "\<exists>cs' h' w'. send_pings_loop cf handler cs h w = Some (cs', h', w') \<and> same_env w w'"
  using assms
proof (induction cs arbitrary: h w)
  case Nil
  then show ?case by simp
next
  case (Cons e cs)
  obtain e' h1 w1 where p: "(case e of None \<Rightarrow> Some (None, h, w) | Some c \<Rightarrow> send_ping cf handler c h w) = Some (e', h1, w1)"
    "same_env w w1"
    using send_ping_total [OF Cons.prems, of cf handler "the e" h] by (cases e) auto
  then have "whole_datagrams w1" using same_env_whole [OF p(2)] Cons.prems by simp
  from Cons.IH [OF this, of h1] p same_env_trans [OF p(2)] show ?case by auto
qed

text \<open>So an update that receives nothing returns.\<close>

lemma Server_update_total:
  assumes w: "whole_datagrams w" and pr: "protocol_ok pr" and sv: "server_wf sv"
    and ok: "\<forall>c. Some c \<in> set (sv_clients sv) \<longrightarrow> buffers_ok (cl_buffers c)"
  shows "\<exists>sv' h' w'. Server_update pr handler sv [] h w = Some (sv', h', w') \<and> server_wf sv' \<and> same_env w w'"
proof -
  obtain sv1 h1 w1 where u: "Server_update_buffers handler sv h w = Some (sv1, h1, w1)" "same_env w w1"
    using update_client_buffers_total [OF w ok, of "sc_connection (sv_config sv)" handler 0 0 h]
    by (auto simp: Server_update_buffers_def)
  have w1: "whole_datagrams w1" using same_env_whole [OF u(2)] w by simp
  obtain sv2 h2 w2 where p: "Server_send_pings handler sv1 h1 w1 = Some (sv2, h2, w2)" "same_env w1 w2"
    using send_pings_loop_total [OF w1, of "sv_config sv1" handler "sv_clients sv1" h1]
    by (auto simp: Server_send_pings_def)
  have "Server_update pr handler sv [] h w = Some (sv2, h2, w2)"
    using u p by (simp add: Server_update_def Server_handle_packets_def handle_packets_loop.simps recv_def)
  moreover from Server_update_steps [OF this sv pr] have "server_wf sv2"
    using sv by (rule server.steps_invar)
  ultimately show ?thesis using same_env_trans [OF u(2) p(2)] by blast
qed

section \<open>The answer to a connect packet\<close>

text \<open>\<open>Clone\<close> copies and \<open>PartialEq\<close> is an equivalence, as \<open>Eq\<close> promises, whenever the fields do so.\<close>

lemma Connect_clone_id: "(\<And>x. ca x = x) \<Longrightarrow> (\<And>x. cr x = x) \<Longrightarrow> Connect_clone ca cr c = c"
  by (cases c) (simp_all add: Connect_clone_def)

lemma Connect_eq_equivp:
  assumes "equivp ea" "equivp er"
  shows "equivp (Connect_eq ea er)"
proof (rule equivpI)
  show "reflp (Connect_eq ea er)"
    using assms by (auto simp: Connect_eq_def equivp_reflp intro!: reflpI split: Connect.split)
  show "symp (Connect_eq ea er)"
    using assms by (auto simp: Connect_eq_def dest: equivp_symp intro!: sympI split: Connect.split_asm Connect.split)
  show "transp (Connect_eq ea er)"
    using assms by (auto simp: Connect_eq_def dest: equivp_transp intro!: transpI split: Connect.split_asm Connect.split)
qed

lemma Connect_eq_eq: "Connect_eq (=) (=) c d \<longleftrightarrow> c = d"
  by (cases c; cases d) (simp_all add: Connect_eq_def)

end
