(* ===== verification/Buffers_Small.thy ===== *)
theory Buffers_Small
  imports Buffers_Wf Net
begin

text \<open>
  Connections whose peer only sends packets of at most 255 parts. The window of a packet in
  reassembly then never moves, so no datagram can lie below it: buffers in such a state take any
  datagram, and every operation keeps them in it.
\<close>

section \<open>Reassembly\<close>

definition small_packet :: "ReassembledPacket \<Rightarrow> bool" where
  "small_packet st \<longleftrightarrow> rp_first_pending st = 0 \<and> count_ok st \<and> chunks_seen st \<subseteq> {..<255}"

lemma small_packet_new [simp]: "small_packet ReassembledPacket_new"
  by (simp add: small_packet_def entry_ok_new)
    (simp add: ReassembledPacket_new_def)

text \<open>The window moves by whole blocks of 256 parts.\<close>

lemma receive_window_blocks:
  assumes "ReassembledPacket_receive st l s p = Some (r, st')"
  shows "unat (rp_first_pending st') = unat (rp_first_pending st) \<or>
    (\<exists>n. unat (rp_first_pending st') = unat (rp_first_pending st) + n div 256 * 256)"
proof -
  have add: "unat c = unat a + n" if "u32_try_from n = Some b" "u32_add a b = Some c" for n and a b c :: u32
    using that by (auto simp: u32_add_Some_iff u32_try_from_def split: if_split_asm)
  show ?thesis
    using assms
    by (fastforce simp: ReassembledPacket_receive_def run_simps dest: add split: if_split_asm)
qed

lemma small_packet_receive:
  assumes "ReassembledPacket_receive st l s p = Some (r, st')" "small_packet st" "unat s < 255"
  shows "small_packet st'"
proof -
  have st: "count_ok st" "unat (rp_first_pending st) = 0" "chunks_seen st \<subseteq> {..<255}"
    using assms(2) by (simp_all add: small_packet_def)
  have "card (chunks_seen st) \<le> 255" using card_mono [OF _ st(3)] by simp
  then have few: "card (chunks_seen st) + 1 < 2 ^ 32" by simp
  have "unat (rp_first_pending st) \<le> unat s" unfolding st(2) by (rule le0)
  from st(1) this few obtain r2 st2 where "ReassembledPacket_receive st l s p = Some (r2, st2)"
    "count_ok st2" "chunks_seen st2 = insert (unat s) (chunks_seen st)"
    by (rule receive_no_panic)
  then have st': "count_ok st'" "chunks_seen st' = insert (unat s) (chunks_seen st)"
    using assms(1) by simp_all
  have seen: "chunks_seen st' \<subseteq> {..<255}" unfolding st'(2) using st(3) assms(3) by simp
  have "{..<unat (rp_first_pending st')} \<subseteq> chunks_seen st'" unfolding chunks_seen_def window_def by blast
  then have "{..<unat (rp_first_pending st')} \<subseteq> {..<255}" using seen by (rule order_trans)
  then have le: "unat (rp_first_pending st') \<le> 255" by simp
  have "unat (rp_first_pending st') = 0"
  proof (rule disjE [OF receive_window_blocks [OF assms(1)]])
    assume "\<exists>n. unat (rp_first_pending st') = unat (rp_first_pending st) + n div 256 * 256"
    then obtain n where n: "unat (rp_first_pending st') = n div 256 * 256" using st(2) by auto
    then have "n div 256 = 0" using le by linarith
    with n show ?thesis by simp
  qed (use st(2) in simp)
  then have "rp_first_pending st' = 0" by (simp add: unat_eq_zero)
  with st'(1) seen show ?thesis by (simp add: small_packet_def)
qed

section \<open>The receive buffer\<close>

definition small_entry :: "PacketIn \<Rightarrow> bool" where
  "small_entry e \<longleftrightarrow> (\<forall>st. pi_packet e = Some st \<longrightarrow> small_packet st)"

definition small_recv :: "ReceivePacketBuffer \<Rightarrow> bool" where
  "small_recv rb \<longleftrightarrow> btree_all small_entry (rb_packets rb)"

text \<open>If the datagram is a part, its sequence index is below 255.\<close>

definition small_datagram :: "u8 list \<Rightarrow> bool" where
  "small_datagram buf \<longleftrightarrow>
     (case buf of
        [] \<Rightarrow> True
      | kind # _ \<Rightarrow>
          PacketKind_try_from kind \<noteq> Some Kind_Part \<and> PacketKind_try_from kind \<noteq> Some Kind_LastPart \<or>
          (case slice_get buf 17 21 of
             None \<Rightarrow> True
           | Some bs \<Rightarrow> (case u32_from_le_bytes bs of None \<Rightarrow> True | Some s \<Rightarrow> unat s < 255)))"

lemma small_receive:
  assumes "ReceivePacketBuffer_receive rb l i s p socket w = Some (r, rb', w')" "small_recv rb" "unat s < 255"
  shows "small_recv rb'"
proof -
  define p0 where "p0 = (case BTreeMap_get (rb_packets rb) i of
      Some e \<Rightarrow> e\<lparr>pi_last_receive := clock w (ticks w)\<rparr>
    | None \<Rightarrow> \<lparr>pi_last_receive = clock w (ticks w), pi_packet = Some ReassembledPacket_new\<rparr>)"
  have p0: "small_entry p0"
    using assms(2) by (auto simp: p0_def small_recv_def small_entry_def split: option.split dest: btree_all_get)
  have ins: "small_recv (rb\<lparr>rb_packets := BTreeMap_insert i e (rb_packets rb)\<rparr>)" if "small_entry e" for e
    using that assms(2) by (simp add: small_recv_def btree_all_insert)
  have ins2: "small_recv (rb\<lparr>rb_packets := BTreeMap_insert i (p0\<lparr>pi_packet := Some st'\<rparr>)
      (BTreeMap_insert i p0 (rb_packets rb))\<rparr>)"
    if "ReassembledPacket_receive st l s p = Some (x, st')" "pi_packet p0 = Some st" for st x st'
  proof -
    have "small_packet st'" using small_packet_receive [OF that(1) _ assms(3)] p0 that(2) by (simp add: small_entry_def)
    with p0 assms(2) show ?thesis by (simp add: small_recv_def btree_all_insert small_entry_def)
  qed
  have single: "small_recv (rb\<lparr>rb_packets := BTreeMap_insert i \<lparr>pi_last_receive = t, pi_packet = None\<rparr> (rb_packets rb)\<rparr>)" for t
    by (rule ins) (simp add: small_entry_def)
  show ?thesis
    using assms(1,2) ins [OF p0] ins2 single
    by (auto simp: ReceivePacketBuffer_receive_def Instant_now_def p0_def [symmetric] after_ack_fold run_simps
        split: if_split_asm)
qed

lemma small_handle:
  assumes "ReceivePacketBuffer_handle rb buf socket w = Some (r, rb', w')" "small_recv rb" "small_datagram buf"
  shows "small_recv rb'"
proof -
  have part: "small_recv rb'" if "handle_part rb l buf socket w = Some (r, rb', w')"
    "PacketKind_try_from (hd buf) = Some Kind_Part \<or> PacketKind_try_from (hd buf) = Some Kind_LastPart" "buf \<noteq> []" for l
  proof -
    have small: "unat s < 255" if "slice_get buf 17 21 = Some bs" "u32_from_le_bytes bs = Some s" for bs s
      using that assms(3) \<open>_ \<or> _\<close> \<open>buf \<noteq> []\<close> by (cases buf) (auto simp: small_datagram_def)
    show ?thesis
      using that(1) assms(2) small small_receive [OF _ assms(2)]
      by (auto simp: handle_part_def run_simps)
  qed
  show ?thesis
    using assms(1,2) part
    by (auto simp: ReceivePacketBuffer_handle_def ReceivePacketBuffer_done_def small_recv_def
        btree_all_remove run_simps split: list.split_asm if_split_asm)
qed

section \<open>The buffers of a connection\<close>

definition small_buffers :: "PacketBuffers \<Rightarrow> bool" where
  "small_buffers pb \<longleftrightarrow> small_recv (pbs_receive_buffer pb)"

lemma small_buffers_new [simp]: "small_buffers (PacketBuffers_new n)"
  by (simp add: small_buffers_def PacketBuffers_new_def ReceivePacketBuffer_default_def small_recv_def)

lemma small_buffers_safe:
  assumes "small_buffers pb" shows "buffers_safe pb buf"
proof -
  have e: "entry_ok e \<and> (\<forall>st. pi_packet e = Some st \<longrightarrow> rp_first_pending st = 0)" if "small_entry e" for e
  proof -
    have "card (chunks_seen st) + 1 < 2 ^ 32" if "chunks_seen st \<subseteq> {..<255}" for st
      using card_mono [OF _ that] by simp
    with \<open>small_entry e\<close> show ?thesis by (simp add: entry_ok_def small_entry_def small_packet_def)
  qed
  have all: "btree_all small_entry (rb_packets (pbs_receive_buffer pb))"
    using assms by (simp add: small_buffers_def small_recv_def)
  then have "btree_all entry_ok (rb_packets (pbs_receive_buffer pb))" using e by (auto simp: btree_all_def)
  moreover have "in_window (pbs_receive_buffer pb) i s" for i s
    using btree_all_get [OF all] e by (fastforce simp: in_window_def)
  ultimately show ?thesis by (simp add: buffers_safe_def datagram_in_window_def)
qed

lemma small_buffers_handle:
  assumes "PacketBuffers_handle pb buf socket w = Some (r, pb', w')" "small_buffers pb" "small_datagram buf"
  shows "small_buffers pb'"
proof (cases "pb' = pb")
  case False
  with assms(1) show ?thesis
    by (rule handle_changes) (use small_handle [OF _ _ assms(3)] assms(2) in \<open>auto simp: small_buffers_def\<close>)
qed (use assms(2) in simp)

lemma small_buffers_send:
  assumes "PacketBuffers_send pb ws t socket w = Some (r, pb', w')" "small_buffers pb"
  shows "small_buffers pb'"
  using assms by (auto simp: PacketBuffers_send_def small_buffers_def run_simps)

lemma small_recv_timeout:
  assumes "ReceivePacketBuffer_timeout_packets rb d w = Some (rb', w')" "small_recv rb"
  shows "small_recv rb'"
proof -
  from assms(1) obtain m where m: "BTreeMap_retain
       (\<lambda>_ packet w. let (elapsed, w) = Instant_elapsed (pi_last_receive packet) w
                     in Some (elapsed < d, packet, w)) (rb_packets rb) w = Some (m, w')"
    "rb' = rb\<lparr>rb_packets := m\<rparr>"
    by (auto simp: ReceivePacketBuffer_timeout_packets_def bind_eq_Some_conv)
  have "btree_all small_entry m"
    by (rule BTreeMap_retain_all [OF m(1)]) (use assms(2) in \<open>auto simp: small_recv_def split: prod.split_asm\<close>)
  with m(2) show ?thesis by (simp add: small_recv_def)
qed

lemma small_buffers_update:
  assumes "PacketBuffers_update pb d m rt socket w = Some (r, pb', w')" "small_buffers pb"
  shows "small_buffers pb'"
proof -
  from assms(1) obtain pb1 w1 sb where u: "PacketBuffers_timeout_packets pb m rt w = Some (pb1, w1)"
    "pb' = pb1\<lparr>pbs_send_buffer := sb\<rparr>"
    by (auto simp: PacketBuffers_update_def PacketBuffers_send_pending_def run_simps)
  have "small_buffers pb1"
    using u(1) assms(2) small_recv_timeout
    by (auto simp: PacketBuffers_timeout_packets_def small_buffers_def run_simps split: option.split_asm)
  with u(2) show ?thesis by (simp add: small_buffers_def)
qed

section \<open>What arrives\<close>

text \<open>The datagrams of an inbox, cut to the size of the receive buffer.\<close>

definition inbox_small :: "inbox \<Rightarrow> bool" where
  "inbox_small inbox \<longleftrightarrow> (\<forall>a d. Inr (a, d) \<in> set inbox \<longrightarrow> small_datagram (take PACKET_BUFFER_SIZE d))"

lemma recv_small:
  assumes "recv handler inbox pb h = (Some (a, buf), rest, pb', h')" "inbox_small inbox" "length pb = PACKET_BUFFER_SIZE"
  shows "small_datagram buf" "inbox_small rest" "length pb' = PACKET_BUFFER_SIZE"
  using assms recv_buffer [of handler inbox pb h]
  by (auto simp: recv_def inbox_small_def Let_def split: list.split_asm sum.split_asm)

end
