(* ===== verification/Server_Total.thy ===== *)
theory Server_Total
  imports Server_Spec Buffers_Small
begin

text \<open>
  An update of the server returns: the loop over the datagrams that have arrived ends, and as long
  as every peer sends packets of at most 255 parts nothing in it panics.
\<close>

definition server_small :: "Server \<Rightarrow> bool" where
  "server_small sv \<longleftrightarrow> btree_all small_buffers (sv_listeners sv) \<and>
     (\<forall>c. Some c \<in> set (sv_clients sv) \<longrightarrow> small_buffers (cl_buffers c))"

lemma Server_host_small: "Server_host_with_config b n config = Inr sv \<Longrightarrow> server_small sv"
  by (auto simp: Server_host_with_config_def server_small_def split: sum.split_asm)

lemma server_small_safe:
  assumes "server_small sv" shows "sender_safe sv a buf"
  using assms by (auto simp: server_small_def sender_safe_def dest: btree_all_get intro: small_buffers_safe)

lemma server_small_client:
  assumes "server_small sv" "small_buffers (cl_buffers c)"
  shows "server_small (sv\<lparr>sv_clients := (sv_clients sv)[i := Some c]\<rparr>)"
  using assms by (auto simp: server_small_def dest!: subsetD [OF set_update_subset_insert])

lemma server_small_listener:
  assumes "server_small sv" "small_buffers b"
  shows "server_small (sv\<lparr>sv_listeners := BTreeMap_insert a b (sv_listeners sv)\<rparr>)"
  using assms by (simp add: server_small_def btree_all_insert)

lemma small_handle_buffers:
  assumes "Server_handle_buffers pr handler b buf a h w = Some (packet, b', h', w')" "small_buffers b" "small_datagram buf"
  shows "small_buffers b'"
  by (rule Server_handle_buffers_run [OF assms(1)]) (rule small_buffers_handle [OF _ assms(2,3)])

lemma small_send_or_report:
  assumes "send_or_report pr handler cf b packet a h w = Some (f, b', h', w')" "small_buffers b"
  shows "small_buffers b'"
  by (rule send_or_report_run [OF assms(1)]) (rule small_buffers_send [OF _ assms(2)])

lemma handle_client_small:
  assumes run: "Server_handle_client pr handler sv i c a buf h w = Some (sv', h', w')"
    and sm: "server_small sv" "small_buffers (cl_buffers c)" "small_datagram buf"
  shows "server_small sv'"
proof (cases "PacketKind_try_from (hd buf) = Some Kind_Ping")
  case True
  obtain c' h2 w2 where p: "Server_handle_pong handler c buf h w = (c', h2, w2)" by (metis prod_cases3)
  then have "cl_buffers c' = cl_buffers c"
    by (auto simp: Server_handle_pong_def Instant_now_def split: option.split_asm if_split_asm)
  with True p run sm(1,2) show ?thesis by (auto simp: Server_handle_client_def server_small_client)
next
  case False
  from run False obtain packet b1 h1 w1 where
    hb: "Server_handle_buffers pr handler (cl_buffers c) buf a h w = Some (packet, b1, h1, w1)"
    by (auto simp: Server_handle_client_def bind_eq_Some_conv)
  have b1: "small_buffers b1" using small_handle_buffers [OF hb sm(2,3)] .
  from run False hb obtain d b2 h2 w2 where m: "(case packet of
             None \<Rightarrow> Some (False, b1, h1, w1)
           | Some (CC_Query query) \<Rightarrow>
               let (status, h) = sh_query handler a query h1
               in send_or_report pr handler (sv_config sv) b1 (SC_Status status) a h w1
           | Some (CC_Connect _) \<Rightarrow> Some (True, b1, sh_unexpected handler a Client_AlreadyConnected h1, w1)
           | Some (CC_Disconnect disconnect) \<Rightarrow> Some (True, b1, sh_disconnect handler a disconnect h1, w1)
           | Some (CC_User user) \<Rightarrow> Some (False, b1, sh_packet handler a user h1, w1)) = Some (d, b2, h2, w2)"
    and sv': "sv' = (if d then sv\<lparr>sv_clients := (sv_clients sv)[i := None],
               sv_listeners := BTreeMap_insert (cl_client_addr c) b2 (sv_listeners sv)\<rparr>
        else sv\<lparr>sv_clients := (sv_clients sv)[i := Some (c\<lparr>cl_buffers := b2\<rparr>)]\<rparr>)"
    by (auto simp: Server_handle_client_def bind_eq_Some_conv split: if_split_asm)
  have b2: "small_buffers b2"
    using m b1 small_send_or_report
    by (auto simp: split_def Let_def split: option.split_asm ClientConnectionPacket.split_asm)
  have "server_small (sv\<lparr>sv_clients := (sv_clients sv)[i := None]\<rparr>)"
    using sm(1) by (auto simp: server_small_def dest!: subsetD [OF set_update_subset_insert])
  from server_small_listener [OF this b2] server_small_client [OF sm(1), of "c\<lparr>cl_buffers := b2\<rparr>"] b2
  show ?thesis by (simp add: sv')
qed

lemma handle_listener_small:
  assumes run: "Server_handle_listener pr handler sv b a buf h w = Some (sv', h', w')"
    and sm: "server_small sv" "small_buffers b" "small_datagram buf"
  shows "server_small sv'"
proof -
  from run obtain packet b1 h1 w1 where
    hb: "Server_handle_buffers pr handler b buf a h w = Some (packet, b1, h1, w1)"
    by (auto simp: Server_handle_listener_def bind_eq_Some_conv)
  have b1: "small_buffers b1" using small_handle_buffers [OF hb sm(2,3)] .
  note keep = server_small_listener [OF sm(1)]
  obtain i cs where free: "Server_get_or_add_free_slot (sv_clients sv) = (i, cs)"
    by (cases "Server_get_or_add_free_slot (sv_clients sv)")
  have "server_small (sv\<lparr>sv_listeners := BTreeMap_remove a (sv_listeners sv), sv_clients := cs\<rparr>)"
    using sm(1) get_or_add_free_slot(3) [OF free] by (auto simp: server_small_def btree_all_remove)
  from server_small_client [OF this] have acc: "server_small (sv\<lparr>sv_listeners := BTreeMap_remove a (sv_listeners sv),
      sv_clients := cs[i := Some (ClientConnection_new a b2)]\<rparr>)" if "small_buffers b2" for b2
    using that by (simp add: ClientConnection_new_def)
  note rep = small_send_or_report [OF _ b1]
  show ?thesis
  proof (cases packet)
    case None
    with run hb keep [OF b1] show ?thesis by (auto simp: Server_handle_listener_def)
  next
    case (Some p)
    note run' = run [unfolded Server_handle_listener_def, simplified hb Some]
    show ?thesis
    proof (cases p)
      case (CC_Query q)
      with run' show ?thesis by (auto simp: bind_eq_Some_conv split: prod.split_asm intro!: keep dest: rep)
    next
      case (CC_Connect con)
      obtain ans h2 where q: "sh_connect handler a con h1 = (ans, h2)" by (cases "sh_connect handler a con h1")
      from run' q free CC_Connect show ?thesis
        by (cases ans) (auto simp: bind_eq_Some_conv split: if_split_asm intro!: keep acc dest: rep)
    qed (use run' keep [OF b1] in auto)
  qed
qed

lemma handle_packet_small:
  assumes run: "Server_handle_packet pr handler sv a buf pb h w = Some (sv', pb', h', w')"
    and sm: "server_small sv" "small_datagram buf"
  shows "server_small sv'"
  using run
proof (cases rule: Server_handle_packet_cases)
  case (client i c)
  have "small_buffers (cl_buffers c)" using client(1,2) sm(1) unfolding server_small_def by (metis nth_mem)
  with client(4) sm(1) show ?thesis using sm(2) by (rule handle_client_small)
next
  case (listener b)
  have "small_buffers b" using listener(2) sm(1) by (auto simp: server_small_def dest: btree_all_get)
  with listener(3) sm(1) show ?thesis using sm(2) by (rule handle_listener_small)
qed (use sm(1) in \<open>simp_all add: server_small_listener\<close>)

lemma handle_packet_buffer:
  assumes "whole_datagrams w" "protocol_ok pr" "length pb = PACKET_BUFFER_SIZE"
    and "Server_handle_packet pr handler sv a buf pb h w = Some (sv', pb', h', w')"
  shows "length pb' = PACKET_BUFFER_SIZE"
proof (cases "buf = []")
  case True
  obtain r pb1 h1 w1 where "Server_send_version pr handler pb a h w = Some (r, pb1, h1, w1)"
    "length pb1 = PACKET_BUFFER_SIZE"
    using Server_send_version_total [OF assms(1-3), of handler a h] by blast
  with True assms(4) show ?thesis
    by (auto simp: Server_handle_packet_def Server_handle_version_request_def split: sum.split_asm if_split_asm)
qed (use assms(3,4) in \<open>auto simp: Server_handle_packet_def run_simps\<close>)

lemma handle_packets_loop_total:
  assumes "whole_datagrams w" "protocol_ok pr" "server_wf sv" "server_small sv" "inbox_small inbox"
    and "length pb = PACKET_BUFFER_SIZE"
  shows "\<exists>sv' h' w'. handle_packets_loop pr handler sv inbox pb h w = Some (sv', h', w') \<and>
    server_small sv' \<and> same_env w w'"
  using assms
proof (induction inbox arbitrary: sv pb h w rule: length_induct)
  case (1 inbox)
  obtain d rest pb1 h1 where r: "recv handler inbox pb h = (d, rest, pb1, h1)" by (metis prod_cases4)
  show ?case
  proof (cases d)
    case None
    with r "1.prems"(4) show ?thesis by (simp add: handle_packets_loop.simps)
  next
    case (Some x)
    obtain a buf where x: "d = Some (a, buf)" using Some by (cases x) simp
    note r' = r [unfolded x]
    note small = recv_small [OF r' "1.prems"(5,6)]
    obtain sv1 pb2 h2 w2 where s: "Server_handle_packet pr handler sv a buf pb1 h1 w = Some (sv1, pb2, h2, w2)"
      "same_env w w2"
      using handle_packet_total [OF "1.prems"(1-3) server_small_safe [OF "1.prems"(4), of a buf] small(3), of handler h1] by blast
    have sv1: "server_wf sv1" using handle_packet_step [OF "1.prems"(3,2) s(1)] "1.prems"(3) by (rule peer_step_wf)
    have "whole_datagrams w2" using same_env_whole [OF s(2)] "1.prems"(1) by simp
    from "1.IH" [rule_format, OF recv_shorter [OF r'] this "1.prems"(2) sv1 handle_packet_small [OF s(1) "1.prems"(4) small(1)]
        small(2) handle_packet_buffer [OF "1.prems"(1,2) small(3) s(1)], of h2]
    obtain sv' h' w' where "handle_packets_loop pr handler sv1 rest pb2 h2 w2 = Some (sv', h', w')"
      "server_small sv'" "same_env w2 w'" by blast
    with r' s same_env_trans [OF s(2)] show ?thesis
      by (auto simp: handle_packets_loop.simps [of pr handler sv])
  qed
qed

lemma update_client_buffers_small:
  assumes "update_client_buffers cf handler i f cs h w = Some (cs', f', h', w')"
    and "\<forall>c. Some c \<in> set cs \<longrightarrow> small_buffers (cl_buffers c)"
  shows "\<forall>c. Some c \<in> set cs' \<longrightarrow> small_buffers (cl_buffers c)"
  using assms
proof (induction cs arbitrary: i f h w cs')
  case Nil
  then show ?case by simp
next
  case (Cons e cs)
  show ?case
  proof (cases e)
    case None
    with Cons show ?thesis by (fastforce simp: bind_eq_Some_conv)
  next
    case (Some c)
    with Cons.prems(1) obtain r b w1 where u:
      "PacketBuffers_update (cl_buffers c) (cf_resend_delay cf) (cf_max_missed_acks cf)
        (cf_receive_timeout cf) (udp (cl_client_addr c)) w = Some (r, b, w1)"
      by (auto simp: bind_eq_Some_conv)
    with Cons.prems(1) Some obtain h1 cs1 where
      rest: "update_client_buffers cf handler (i + 1) (i + 1) cs h1 w1 = Some (cs1, f', h', w')"
      "cs' = (case r of Inl _ \<Rightarrow> None | Inr _ \<Rightarrow> Some (c\<lparr>cl_buffers := b\<rparr>)) # cs1"
      by (cases r) (auto simp: bind_eq_Some_conv)
    have "small_buffers b" using small_buffers_update [OF u] Cons.prems(2) Some by simp
    with Cons.IH [OF rest(1)] Cons.prems(2) rest(2) show ?thesis by (auto split: sum.split)
  qed
qed

lemma send_ping_buffers:
  assumes "send_ping cf handler c h w = Some (Some c', h', w')" shows "cl_buffers c' = cl_buffers c"
  using assms
  by (auto simp: send_ping_def run_simps Instant_now_def Instant_elapsed_def
      split: if_split_asm option.split_asm prod.split_asm)

lemma send_pings_small:
  assumes "send_pings_loop cf handler cs h w = Some (cs', h', w')"
    and "\<forall>c. Some c \<in> set cs \<longrightarrow> small_buffers (cl_buffers c)"
  shows "\<forall>c. Some c \<in> set cs' \<longrightarrow> small_buffers (cl_buffers c)"
  using assms
proof (induction cs arbitrary: cs' h w)
  case Nil
  then show ?case by simp
next
  case (Cons e cs)
  from Cons.prems(1) obtain e' h1 w1 cs1 where
    p: "(case e of None \<Rightarrow> Some (None, h, w) | Some c \<Rightarrow> send_ping cf handler c h w) = Some (e', h1, w1)"
    and rest: "send_pings_loop cf handler cs h1 w1 = Some (cs1, h', w')" "cs' = e' # cs1"
    by (auto simp: bind_eq_Some_conv)
  have "small_buffers (cl_buffers c')" if "e' = Some c'" for c'
    using p that Cons.prems(2) by (cases e) (auto dest: send_ping_buffers)
  with Cons.IH [OF rest(1)] Cons.prems(2) rest(2) show ?case by auto
qed

text \<open>An update with any number of datagrams, all of them of packets that are small, returns.\<close>

lemma Server_update_small_total:
  assumes w: "whole_datagrams w" and pr: "protocol_ok pr" and sv: "server_wf sv" "server_small sv"
    and ok: "\<forall>c. Some c \<in> set (sv_clients sv) \<longrightarrow> buffers_ok (cl_buffers c)"
    and inbox: "inbox_small inbox"
  shows "\<exists>sv' h' w'. Server_update pr handler sv inbox h w = Some (sv', h', w') \<and> server_wf sv' \<and>
    server_small sv' \<and> same_env w w'"
proof -
  obtain cs f h1 w1 where u: "update_client_buffers (sc_connection (sv_config sv)) handler 0 0 (sv_clients sv) h w
      = Some (cs, f, h1, w1)" "same_env w w1"
    using update_client_buffers_total [OF w ok, of "sc_connection (sv_config sv)" handler 0 0 h] by blast
  let ?sv1 = "sv\<lparr>sv_clients := take f cs\<rparr>"
  have u': "Server_update_buffers handler sv h w = Some (?sv1, h1, w1)"
    using u(1) by (simp add: Server_update_buffers_def)
  have wf1: "server_wf ?sv1"
    using server.steps_invar [OF Server_update_buffers_steps [OF u'] sv(1)] .
  have "\<forall>c. Some c \<in> set cs \<longrightarrow> small_buffers (cl_buffers c)"
    using update_client_buffers_small [OF u(1)] sv(2) by (simp add: server_small_def)
  then have sm1: "server_small ?sv1" using sv(2) by (auto simp: server_small_def dest: in_set_takeD)
  have w1: "whole_datagrams w1" using same_env_whole [OF u(2)] w by simp
  obtain sv2 h2 w2 where l: "Server_handle_packets pr handler ?sv1 inbox h1 w1 = Some (sv2, h2, w2)"
    "server_small sv2" "same_env w1 w2"
    using handle_packets_loop_total [OF w1 pr wf1 sm1 inbox, of "replicate PACKET_BUFFER_SIZE 0" handler h1]
    by (auto simp: Server_handle_packets_def)
  have "whole_datagrams w2" using same_env_whole [OF l(3)] w1 by simp
  then obtain cs3 h3 w3 where p: "send_pings_loop (sv_config sv2) handler (sv_clients sv2) h2 w2 = Some (cs3, h3, w3)"
    "same_env w2 w3"
    using send_pings_loop_total [of w2 "sv_config sv2" handler "sv_clients sv2" h2] by blast
  have run: "Server_update pr handler sv inbox h w = Some (sv2\<lparr>sv_clients := cs3\<rparr>, h3, w3)"
    using u' l(1) p(1) by (simp add: Server_update_def Server_send_pings_def)
  have "server_small (sv2\<lparr>sv_clients := cs3\<rparr>)"
    using send_pings_small [OF p(1)] l(2) by (auto simp: server_small_def)
  moreover have "server_wf (sv2\<lparr>sv_clients := cs3\<rparr>)"
    using server.steps_invar [OF Server_update_steps [OF run sv(1) pr] sv(1)] .
  ultimately show ?thesis using run same_env_trans [OF u(2) same_env_trans [OF l(3) p(2)]] by blast
qed

end
