(* ===== verification/Server_Theorems.thy ===== *)
theory Server_Theorems
  imports Server_Total Example_World
begin

text \<open>
  The properties of the server, over any handler and any protocol that meets the documented
  contract of the packets.
\<close>

section \<open>A server to instantiate them at\<close>

type_synonym plain_protocol =
  "(unit, unit, unit, unit, unit, unit, unit, unit, unit, unit) ServerProtocol"

definition plain_server_protocol :: plain_protocol where
  "plain_server_protocol = \<lparr>pr_version_write = unit_version_write, pr_version_read = unit_version_read,
     pr_serialize = (\<lambda>_. [[1]]), pr_check_archived_root = (\<lambda>_. Inr (CC_Connect ()))\<rparr>"

definition plain_server_handler ::
    "(unit, unit, unit, unit, unit, unit, unit, unit, unit) ServerHandler" where
  "plain_server_handler = DefaultServerHandler () () ()"

definition empty_server :: Server where
  "empty_server = \<lparr>sv_config = ServerConfig_default, sv_listeners = [], sv_clients = []\<rparr>"

lemma plain_server_protocol_ok [simp]: "protocol_ok plain_server_protocol"
  by (simp add: protocol_ok_def plain_server_protocol_def unit_version_write_def)

lemma empty_server_wf [simp]: "server_wf empty_server"
proof -
  have "Server_host (Inr ()) (Inr ()) = Inr empty_server"
    by (simp add: Server_host_def Server_host_with_config_def empty_server_def)
  moreover have "config_wf (sc_connection ServerConfig_default)" by (simp add: ServerConfig_default_def)
  ultimately show ?thesis using Server_host_wf unfolding Server_host_def by blast
qed

text \<open>A server with one client that has been pinged with id 0.\<close>

definition pinged_client :: ClientConnection where
  "pinged_client = (ClientConnection_new peer_addr (PacketBuffers_new 8))
     \<lparr>cl_active_ping := Some \<lparr>ap_ping_id = 0, ap_ping = 0\<rparr>\<rparr>"

definition pinging_server :: Server where
  "pinging_server = empty_server\<lparr>sv_clients := [Some pinged_client]\<rparr>"

lemma pinging_server [simp]:
  "server_wf pinging_server" "Some c \<in> set (sv_clients pinging_server) \<Longrightarrow> buffers_ok (cl_buffers c)"
  using empty_server_wf
  by (auto simp: pinging_server_def pinged_client_def ClientConnection_new_def server_wf_def clients_wf_def slots_def
      slots_distinct_def empty_server_def PacketBuffers_new_wf btree.get_empty)

lemma pinging_server_update:
  obtains sv' h' w' where "Server_update plain_server_protocol plain_server_handler pinging_server [] () good_world = Some (sv', h', w')"
  using Server_update_total [OF good_world_whole plain_server_protocol_ok pinging_server(1), of plain_server_handler "()"]
    pinging_server(2) by blast

section \<open>The invariant\<close>

text \<open>C3. The server's invariant holds in the server \<open>host\<close> returns and is kept by every operation:
  an address is a listener or a client but never both, no two slots hold the same address, all
  buffers are well-formed. Whatever arrives and whatever the network answers, an update that
  returns keeps it; so do \<open>unlisten\<close>, \<open>unlisten_all\<close> and sending to a client.\<close>

theorem server_invariant:
  assumes "server_wf sv" "protocol_ok pr"
  shows "(\<forall>inbox h w sv' h' w'. Server_update pr handler sv inbox h w = Some (sv', h', w') \<longrightarrow> server_wf sv') \<and>
    (\<forall>b n config sv'. Server_host_with_config b n config = Inr sv' \<longrightarrow> config_wf (sc_connection config) \<longrightarrow> server_wf sv') \<and>
    server_wf (snd (Server_unlisten sv a)) \<and> server_wf (Server_unlisten_all sv) \<and>
    (\<forall>k x w r sv' w'. Server_client sv a = Some k \<longrightarrow> ServerClient_send pr k x sv w = Some (r, sv', w') \<longrightarrow> server_wf sv')"
proof (intro conjI allI impI)
  fix inbox h w sv' h' w' assume "Server_update pr handler sv inbox h w = Some (sv', h', w')"
  from Server_update_steps [OF this assms] show "server_wf sv'" using assms(1) by (rule server.steps_invar)
next
  show "server_wf sv'" if "Server_host_with_config b n config = Inr sv'" "config_wf (sc_connection config)" for b n config sv'
    using that(2,1) by (rule Server_host_wf)
  show "server_wf (snd (Server_unlisten sv a))"
    using Server_unlisten_step assms(1) by (rule server.step_invar)
  show "server_wf (Server_unlisten_all sv)"
    using Server_unlisten_all_step assms(1) by (rule server.step_invar)
next
  fix k x w r sv' w' assume "Server_client sv a = Some k" "ServerClient_send pr k x sv w = Some (r, sv', w')"
  then have "peer_step a sv sv'"
    using ServerClient_send_raw_step [OF assms] by (simp add: ServerClient_send_def)
  then show "server_wf sv'" using assms(1) by (rule peer_step_wf)
qed

theorem server_invariant_witness:
  "\<exists>sv' h' w'. Server_update plain_server_protocol plain_server_handler pinging_server [] () good_world
     = Some (sv', h', w') \<and> server_wf sv'"
proof -
  obtain sv' h' w' where run: "Server_update plain_server_protocol plain_server_handler pinging_server [] () good_world = Some (sv', h', w')"
    by (rule pinging_server_update)
  have "server_wf sv'"
    by (rule conjunct1 [OF server_invariant [OF pinging_server(1) plain_server_protocol_ok, of plain_server_handler peer_addr],
          rule_format, OF run])
  with run show ?thesis by blast
qed

section \<open>Refinement\<close>

text \<open>C4. Handling a datagram refines the protocol of roles: it changes at most the role of the
  address it came from, and that only from unknown to listening, from listening to a client in
  a slot, or from a client back to listening. Every other address keeps its role, and a client
  its slot.\<close>

theorem handle_packet_refines_roles:
  assumes "server_wf sv" "protocol_ok pr"
    and "Server_handle_packet pr handler sv a buf pb h w = Some (sv', pb', h', w')"
  shows "role_step (role sv a) (role sv' a) \<and> (\<forall>b. b \<noteq> a \<longrightarrow> role sv' b = role sv b)"
  using handle_packet_step [OF assms] assms(1) by (rule peer_step_roles)

text \<open>A version request of an unknown address, on a network that takes the answer.\<close>

lemma version_request_run:
  "Server_handle_packet plain_server_protocol plain_server_handler empty_server peer_addr []
      (replicate PACKET_BUFFER_SIZE 0) () good_world =
     Some (empty_server\<lparr>sv_listeners := [(peer_addr, PacketBuffers_new 8)]\<rparr>,
       PacketKind_into Kind_Version # replicate 511 0, (),
       good_world\<lparr>sends := 1, sent := [(peer_addr, [PacketKind_into Kind_Version])]\<rparr>)"
proof -
  have "replicate 512 (0 :: u8) = 0 # replicate 511 0" by (simp add: numeral_eq_Suc)
  then show ?thesis
    by (simp add: Server_handle_packet_def Server_handle_version_request_def Server_send_version_def
        plain_server_handler_def DefaultServerHandler_def plain_server_protocol_def unit_version_write_def
        index_set_def slice_get_def udp_good_world empty_server_def BTreeMap_get_def
        ServerConfig_default_def ConnectionConfig_default_def Let_def)
      (simp add: good_world_def)
qed

theorem handle_packet_refines_roles_witness:
  "\<exists>sv' pb' h' w'. Server_handle_packet plain_server_protocol plain_server_handler empty_server peer_addr []
      (replicate PACKET_BUFFER_SIZE 0) () good_world = Some (sv', pb', h', w') \<and>
     role sv' peer_addr = Listening \<and> role_step Unknown Listening \<and> role sv' other_addr = role empty_server other_addr"
proof -
  note run = version_request_run
  have "role empty_server peer_addr = Unknown"
    by (simp add: role_def empty_server_def BTreeMap_get_def)
  moreover have "role (empty_server\<lparr>sv_listeners := [(peer_addr, PacketBuffers_new 8)]\<rparr>) peer_addr = Listening"
    by (simp add: role_def empty_server_def BTreeMap_get_def)
  ultimately show ?thesis
    using handle_packet_refines_roles [OF empty_server_wf plain_server_protocol_ok run] run by auto
qed

section \<open>Connecting\<close>

text \<open>A listener whose connect packet is accepted, and whose accept packet could be sent, becomes
  a client in the first free slot, or in a new one if all are taken, with its packet buffers taken
  over and no ping outstanding; it is no listener any more and no other client is moved.\<close>

lemma accept_takes_first_free_slot:
  assumes "server_wf sv" "protocol_ok pr" "buf \<noteq> []" "BTreeMap_get (sv_listeners sv) a = Some b"
    and "Server_handle_buffers pr handler b buf a h w = Some (Some (CC_Connect con), b1, h1, w1)"
    and "sh_connect handler a con h1 = (Connect_Accept acc, h2)"
    and "send_or_report pr handler (sv_config sv) b1 (SC_Accept acc) a h2 w1 = Some (False, b2, h3, w2)"
  shows "\<exists>i sv'. Server_handle_packet pr handler sv a buf pb h w = Some (sv', pb, h3, w2) \<and>
    (\<forall>j < i. sv_clients sv ! j \<noteq> None) \<and> i \<le> length (sv_clients sv) \<and>
    (i < length (sv_clients sv) \<longrightarrow> sv_clients sv ! i = None) \<and>
    role sv' a = Slot i \<and> sv_clients sv' ! i = Some (ClientConnection_new a b2) \<and>
    BTreeMap_get (sv_listeners sv') a = None \<and> (\<forall>x. x \<noteq> a \<longrightarrow> role sv' x = role sv x)"
proof -
  obtain i cs where free: "Server_get_or_add_free_slot (sv_clients sv) = (i, cs)"
    by (cases "Server_get_or_add_free_slot (sv_clients sv)")
  note f = get_or_add_free_slot [OF free]
  let ?sv = "sv\<lparr>sv_listeners := BTreeMap_remove a (sv_listeners sv),
    sv_clients := cs[i := Some (ClientConnection_new a b2)]\<rparr>"
  have "position (is_client a) (sv_clients sv) = None"
    using assms(1,4) by (auto simp: position_is_client_None server_wf_def)
  then have run: "Server_handle_packet pr handler sv a buf pb h w = Some (?sv, pb, h3, w2)"
    using assms(3-7) free by (simp add: Server_handle_packet_def Server_handle_listener_def)
  have wf: "server_wf ?sv"
    using handle_packet_step [OF assms(1,2) run] assms(1) by (rule peer_step_wf)
  have "slots (sv_clients ?sv) ! i = Some a" using f(1) by (simp add: ClientConnection_new_def)
  then have "role ?sv a = Slot i"
    using role_slots(1) [of ?sv a i] wf f(1) by (simp add: server_wf_def)
  moreover have "i < length (sv_clients sv) \<longrightarrow> sv_clients sv ! i = None"
    using f(2,3) by (auto simp: nth_append)
  moreover have "BTreeMap_get (sv_listeners ?sv) a = None"
    using assms(1) by (simp add: server_wf_def btree.get_remove)
  moreover have "\<forall>x. x \<noteq> a \<longrightarrow> role ?sv x = role sv x"
    using peer_step_roles [OF handle_packet_step [OF assms(1,2) run] assms(1)] by blast
  ultimately show ?thesis using run f(1,4,5) by (intro exI [of _ i] exI [of _ ?sv]) simp
qed

definition listening_server :: Server where
  "listening_server = empty_server\<lparr>sv_listeners := [(peer_addr, PacketBuffers_new 8)]\<rparr>"

lemma listening_server_wf [simp]: "server_wf listening_server"
  using handle_packet_step [OF empty_server_wf plain_server_protocol_ok version_request_run] empty_server_wf
  unfolding listening_server_def by (rule peer_step_wf)

section \<open>No panics\<close>

text \<open>C25. A server in a well-formed state handles any datagram from any address without a panic,
  whatever the handler does, if the datagram does not decode to a part below the window of a
  packet the sender is transmitting. The environment is left as it was but for clock, ids and log.\<close>

theorem server_handles_any_datagram:
  assumes "whole_datagrams w" "protocol_ok pr" "server_wf sv" "sender_safe sv a buf"
    and "length pb = PACKET_BUFFER_SIZE"
  shows "\<exists>sv' pb' h' w'. Server_handle_packet pr handler sv a buf pb h w = Some (sv', pb', h', w') \<and>
    server_wf sv' \<and> same_env w w'"
proof -
  obtain sv' pb' h' w' where run: "Server_handle_packet pr handler sv a buf pb h w = Some (sv', pb', h', w')"
    "same_env w w'"
    using handle_packet_total [OF assms, of handler h] by blast
  from handle_packet_step [OF assms(3,2) run(1)] assms(3) have "server_wf sv'" by (rule peer_step_wf)
  with run show ?thesis by blast
qed

theorem server_handles_any_datagram_witness:
  "\<forall>buf. \<exists>sv' pb' h' w'. Server_handle_packet plain_server_protocol plain_server_handler listening_server peer_addr buf
      (replicate PACKET_BUFFER_SIZE 0) () good_world = Some (sv', pb', h', w') \<and> server_wf sv'"
proof
  fix buf
  have "sender_safe listening_server peer_addr buf"
    by (simp add: sender_safe_def listening_server_def empty_server_def BTreeMap_get_def)
  from server_handles_any_datagram [OF good_world_whole plain_server_protocol_ok listening_server_wf this,
      of "replicate PACKET_BUFFER_SIZE 0" plain_server_handler "()"]
  show "\<exists>sv' pb' h' w'. Server_handle_packet plain_server_protocol plain_server_handler listening_server peer_addr buf
      (replicate PACKET_BUFFER_SIZE 0) () good_world = Some (sv', pb', h', w') \<and> server_wf sv'"
    by auto
qed

lemma sample_part:
  "small_datagram (part_frame (PacketId 7) [1] 0)"
  "take 512 (part_frame (PacketId 7) [1] 0) = part_frame (PacketId 7) [1] 0"
proof -
  have c: "chunks [1 :: u8] = [[1]]" by (simp add: chunks_small)
  have "slice_get (part_frame (PacketId 7) [1] 0) 17 21 = Some (u32_to_le_bytes 0)" by (simp add: part_frame_def c)
  then show "small_datagram (part_frame (PacketId 7) [1] 0)"
    by (cases "part_frame (PacketId 7) [1] 0") (simp_all add: small_datagram_def)
  show "take 512 (part_frame (PacketId 7) [1] 0) = part_frame (PacketId 7) [1] 0"
    by (simp add: part_frame_def part_bytes_def header_def c)
qed

text \<open>C27. An update of the server ends and returns, however many datagrams have arrived, from
  whichever addresses and with whatever content, and whatever the network and the handler answer:
  the loops over clients and datagrams terminate and nothing in them panics. Two conditions keep
  clear of the panic on parts below the window: no datagram is a part with a sequence index of 255
  or more, and no packet that the server is reassembling has received such a part before, so that
  no window has moved. The second condition holds in a new server, and again in the well-formed
  state the update returns. The outgoing packets of the clients must be far from overflowing their
  count of missed acknowledgements.\<close>

theorem server_update_returns:
  assumes "whole_datagrams w" "protocol_ok pr" "server_wf sv" "server_small sv"
    and "\<forall>c. Some c \<in> set (sv_clients sv) \<longrightarrow> buffers_ok (cl_buffers c)" "inbox_small inbox"
  shows "(\<exists>sv' h' w'. Server_update pr handler sv inbox h w = Some (sv', h', w') \<and> server_wf sv' \<and> server_small sv') \<and>
    (\<forall>b n config sv0. Server_host_with_config b n config = Inr sv0 \<longrightarrow> server_small sv0)"
  using Server_update_small_total [OF assms, of handler h] Server_host_small by blast

theorem server_update_returns_witness:
  "\<exists>sv' h' w'. Server_update plain_server_protocol plain_server_handler listening_server
      [Inr (peer_addr, part_frame (PacketId 7) [1] 0), Inr (other_addr, []), Inr (peer_addr, [255, 3])] () good_world
      = Some (sv', h', w') \<and> server_wf sv'"
proof -
  let ?inbox = "[Inr (peer_addr, part_frame (PacketId 7) [1] 0), Inr (other_addr, []), Inr (peer_addr, [255, 3])] :: inbox"
  have "PacketKind_try_from (255 :: u8) = None" by (simp add: PacketKind_try_from_None_iff)
  then have "small_datagram [255, 3]" by (simp add: small_datagram_def)
  with sample_part have i: "inbox_small ?inbox" by (auto simp: inbox_small_def small_datagram_def [of "[]"])
  have s: "server_small listening_server"
    "\<forall>c. Some c \<in> set (sv_clients listening_server) \<longrightarrow> buffers_ok (cl_buffers c)"
    by (simp_all add: server_small_def listening_server_def empty_server_def)
  from server_update_returns [OF good_world_whole plain_server_protocol_ok listening_server_wf s i,
      of plain_server_handler "()"] show ?thesis by blast
qed

section \<open>Pings\<close>

text \<open>C16. A client that never answers is dropped: with at most \<open>m\<close> missed pongs allowed, on a network
  that takes the pings and a clock that advances by the ping delay between two rounds, it is gone
  after \<open>n\<close> rounds exactly when its misses before plus \<open>n\<close> exceed \<open>m\<close>.\<close>

theorem silent_client_dropped:
  assumes "cl_active_ping c = Some ap" "cl_last_pong c = None"
    and "ap_ping ap + sc_ping_delay cf \<le> clock w (ticks w)"
    and "\<forall>k. clock w k + sc_ping_delay cf \<le> clock w (Suc k)"
    and "sc_max_missed_pongs cf = Some m" "m + 1 < USIZE_LIMIT" "cl_missed_pongs c \<le> m"
    and "ping_accepted w (cl_client_addr c)"
  shows "\<exists>e h' w'. ping_rounds cf handler n c h w = Some (e, h', w') \<and>
    (e = None \<longleftrightarrow> m < cl_missed_pongs c + n)"
  using silent_rounds [OF assms(1-3) _ assms(5-8), of handler n h] assms(4) by blast

theorem silent_client_dropped_witness:
  "\<exists>h' w'. ping_rounds ServerConfig_default plain_server_handler 4 pinged_client ()
      (good_world\<lparr>clock := \<lambda>k. 2500000000 * (k + 1)\<rparr>) = Some (None, h', w')"
proof -
  let ?w = "good_world\<lparr>clock := \<lambda>k. 2500000000 * (k + 1)\<rparr>"
  have "\<exists>e h' w'. ping_rounds ServerConfig_default plain_server_handler 4 pinged_client () ?w = Some (e, h', w') \<and>
      (e = None \<longleftrightarrow> 3 < cl_missed_pongs pinged_client + 4)"
    by (rule silent_client_dropped [where ap = "\<lparr>ap_ping_id = 0, ap_ping = 0\<rparr>"])
      (simp_all add: pinged_client_def ClientConnection_new_def ServerConfig_default_def
        Duration_from_millis_def ping_accepted_def good_world_def)
  then show ?thesis by (simp add: pinged_client_def ClientConnection_new_def)
qed

lemma update_client_buffers_bounded:
  assumes "update_client_buffers cf handler i f cs h w = Some (cs', f', h', w')"
    and "\<forall>e \<in> set cs. pongs_bounded sc e"
  shows "\<forall>e \<in> set cs'. pongs_bounded sc e"
  using assms
proof (induction cs arbitrary: i f h w cs')
  case Nil
  then show ?case by simp
next
  case (Cons e cs)
  show ?case
  proof (cases e)
    case None
    with Cons show ?thesis by (auto simp: bind_eq_Some_conv pongs_bounded_def)
  next
    case (Some c)
    with Cons.prems(1) obtain r b w1 where u:
      "PacketBuffers_update (cl_buffers c) (cf_resend_delay cf) (cf_max_missed_acks cf)
        (cf_receive_timeout cf) (udp (cl_client_addr c)) w = Some (r, b, w1)"
      by (auto simp: bind_eq_Some_conv)
    with Cons.prems(1) Some obtain h1 cs1 where
      "update_client_buffers cf handler (i + 1) (i + 1) cs h1 w1 = Some (cs1, f', h', w')"
      "cs' = (case r of Inl _ \<Rightarrow> None | Inr _ \<Rightarrow> Some (c\<lparr>cl_buffers := b\<rparr>)) # cs1"
      by (cases r) (auto simp: bind_eq_Some_conv)
    with Cons.IH Cons.prems(2) Some show ?thesis by (auto simp: pongs_bounded_def split: sum.split)
  qed
qed

definition pongs_ok :: "Server \<Rightarrow> bool" where
  "pongs_ok sv \<longleftrightarrow> (\<forall>e \<in> set (sv_clients sv). pongs_bounded (sv_config sv) e)"

lemma pongs_ok_update:
  assumes "pongs_ok sv" "\<And>c. e = Some c \<Longrightarrow> pongs_bounded (sv_config sv) (Some c)"
  shows "pongs_ok (sv\<lparr>sv_clients := (sv_clients sv)[i := e]\<rparr>)"
proof -
  have "pongs_bounded (sv_config sv) e" using assms(2) by (cases e) (auto simp: pongs_bounded_def)
  with assms(1) show ?thesis
    unfolding pongs_ok_def using set_update_subset_insert by fastforce
qed

lemma handle_listener_shape:
  assumes run: "Server_handle_listener pr handler sv b a buf h w = Some (sv', h', w')"
    and free: "Server_get_or_add_free_slot (sv_clients sv) = (i, cs)"
  shows "\<exists>l b2. sv' = sv\<lparr>sv_listeners := l\<rparr> \<or>
    sv' = sv\<lparr>sv_listeners := l, sv_clients := cs[i := Some (ClientConnection_new a b2)]\<rparr>"
proof -
  from run obtain packet b1 h1 w1 where hb:
    "Server_handle_buffers pr handler b buf a h w = Some (packet, b1, h1, w1)"
    by (auto simp: Server_handle_listener_def bind_eq_Some_conv)
  show ?thesis
  proof (cases packet)
    case None
    with run hb show ?thesis by (auto simp: Server_handle_listener_def)
  next
    case (Some p)
    note run' = run [unfolded Server_handle_listener_def, simplified hb Some]
    show ?thesis
    proof (cases p)
      case (CC_Query q)
      with run' show ?thesis by (auto simp: bind_eq_Some_conv split: prod.split_asm)
    next
      case (CC_Connect con)
      obtain ans h2 where q: "sh_connect handler a con h1 = (ans, h2)" by (cases "sh_connect handler a con h1")
      from run' q free CC_Connect show ?thesis
        by (cases ans) (auto simp: bind_eq_Some_conv split: if_split_asm)
    qed (use run' in auto)
  qed
qed

lemma handle_client_pongs:
  assumes run: "Server_handle_client pr handler sv i c a buf h w = Some (sv', h', w')" and ok: "pongs_ok sv"
    and c: "i < length (sv_clients sv)" "sv_clients sv ! i = Some c"
  shows "pongs_ok sv' \<and> sv_config sv' = sv_config sv"
proof -
  have "pongs_bounded (sv_config sv) (Some c)" using c ok nth_mem unfolding pongs_ok_def by metis
  then have keep: "pongs_ok (sv\<lparr>sv_clients := (sv_clients sv)[i := Some c']\<rparr>)"
    if "cl_missed_pongs c' = cl_missed_pongs c \<or> cl_missed_pongs c' = 0" for c'
    using that ok by (intro pongs_ok_update) (auto simp: pongs_bounded_def)
  show ?thesis
  proof (cases "PacketKind_try_from (hd buf) = Some Kind_Ping")
    case True
    obtain c' h2 w2 where p: "Server_handle_pong handler c buf h w = (c', h2, w2)" by (metis prod_cases3)
    then have "cl_missed_pongs c' = cl_missed_pongs c \<or> cl_missed_pongs c' = 0"
      by (auto simp: Server_handle_pong_def Instant_now_def split: option.split_asm if_split_asm)
    with True p run keep show ?thesis by (auto simp: Server_handle_client_def)
  next
    case False
    have leave: "pongs_ok (sv\<lparr>sv_clients := (sv_clients sv)[i := None], sv_listeners := l\<rparr>)" for l
      using pongs_ok_update [OF ok, of None i] by (simp add: pongs_ok_def)
    from False run leave keep show ?thesis
      by (auto simp: Server_handle_client_def bind_eq_Some_conv split: if_split_asm)
  qed
qed

lemma handle_packet_pongs:
  assumes run: "Server_handle_packet pr handler sv a buf pb h w = Some (sv', pb', h', w')" and ok: "pongs_ok sv"
  shows "pongs_ok sv' \<and> sv_config sv' = sv_config sv"
  using run
proof (cases rule: Server_handle_packet_cases)
  case (client i c)
  with ok show ?thesis by (intro handle_client_pongs)
next
  case (listener b)
  obtain i cs where free: "Server_get_or_add_free_slot (sv_clients sv) = (i, cs)"
    by (cases "Server_get_or_add_free_slot (sv_clients sv)")
  have cs: "pongs_ok (sv\<lparr>sv_clients := cs\<rparr>)"
    using get_or_add_free_slot(3) [OF free] ok by (auto simp: pongs_ok_def pongs_bounded_def)
  have acc: "pongs_ok (sv\<lparr>sv_listeners := l, sv_clients := cs[i := Some (ClientConnection_new a b2)]\<rparr>)" for l b2
    using pongs_ok_update [OF cs, of "Some (ClientConnection_new a b2)" i]
    by (simp add: pongs_ok_def ClientConnection_new_def pongs_bounded_def)
  have keep: "pongs_ok (sv\<lparr>sv_listeners := l\<rparr>)" for l using ok by (simp add: pongs_ok_def)
  from handle_listener_shape [OF listener(3) free] acc keep show ?thesis by auto
qed (use ok in \<open>simp_all add: pongs_ok_def\<close>)

lemma handle_packets_loop_pongs:
  assumes "handle_packets_loop pr handler sv inbox pb h w = Some (sv', h', w')" "pongs_ok sv"
  shows "pongs_ok sv' \<and> sv_config sv' = sv_config sv"
  using assms
proof (induction pr handler sv inbox pb h w rule: handle_packets_loop.induct)
  case (1 pr handler sv inbox pb h w)
  obtain d inbox' pb1 h1 where r: "recv handler inbox pb h = (d, inbox', pb1, h1)" by (metis prod_cases4)
  show ?case
  proof (cases d)
    case None
    with "1.prems" r show ?thesis by (simp add: handle_packets_loop.simps)
  next
    case (Some x)
    obtain a buf where x: "x = (a, buf)" by (cases x)
    from "1.prems"(1) Some x r obtain sv1 pb2 h2 w2 where s:
      "Server_handle_packet pr handler sv a buf pb1 h1 w = Some (sv1, pb2, h2, w2)"
      "handle_packets_loop pr handler sv1 inbox' pb2 h2 w2 = Some (sv', h', w')"
      by (auto simp: handle_packets_loop.simps [of pr handler sv] bind_eq_Some_conv)
    with handle_packet_pongs [OF s(1) "1.prems"(2)]
      "1.IH" [OF r [symmetric] Some x [symmetric] refl refl s(1) refl refl refl s(2)] show ?thesis by simp
  qed
qed

text \<open>C29. No client ever has more missed pongs than the configuration allows, after any update, with
  any datagrams received and whatever the network answers.\<close>

theorem missed_pongs_bounded:
  assumes "Server_update pr handler sv inbox h w = Some (sv', h', w')" "pongs_ok sv"
  shows "pongs_ok sv' \<and> sv_config sv' = sv_config sv"
proof -
  from assms(1) obtain cs f h1 w1 sv2 h2 w2 cs3 where
    u: "update_client_buffers (sc_connection (sv_config sv)) handler 0 0 (sv_clients sv) h w = Some (cs, f, h1, w1)"
      "handle_packets_loop pr handler (sv\<lparr>sv_clients := take f cs\<rparr>) inbox (replicate PACKET_BUFFER_SIZE 0) h1 w1
        = Some (sv2, h2, w2)"
      "send_pings_loop (sv_config sv2) handler (sv_clients sv2) h2 w2 = Some (cs3, h', w')"
      "sv' = sv2\<lparr>sv_clients := cs3\<rparr>"
    by (auto simp: Server_update_def Server_update_buffers_def Server_handle_packets_def Server_send_pings_def
        bind_eq_Some_conv)
  have "\<forall>e \<in> set cs. pongs_bounded (sv_config sv) e"
    using update_client_buffers_bounded [OF u(1)] assms(2) by (simp add: pongs_ok_def)
  then have "pongs_ok (sv\<lparr>sv_clients := take f cs\<rparr>)" by (auto simp: pongs_ok_def dest: in_set_takeD)
  from handle_packets_loop_pongs [OF u(2) this] have "pongs_ok sv2" "sv_config sv2 = sv_config sv" by simp_all
  with send_pings_bounded [OF u(3)] u(4) show ?thesis by (simp add: pongs_ok_def)
qed

theorem missed_pongs_bounded_witness:
  "\<exists>sv' h' w'. Server_update plain_server_protocol plain_server_handler pinging_server [] () good_world
     = Some (sv', h', w') \<and> pongs_ok sv'"
proof -
  have ok: "pongs_ok pinging_server"
    by (simp add: pinging_server_def pinged_client_def ClientConnection_new_def empty_server_def pongs_ok_def pongs_bounded_def
        ServerConfig_default_def)
  obtain sv' h' w' where run: "Server_update plain_server_protocol plain_server_handler pinging_server [] () good_world = Some (sv', h', w')"
    by (rule pinging_server_update)
  with missed_pongs_bounded [OF run ok] show ?thesis by blast
qed

section \<open>Listeners\<close>

text \<open>\<open>unlisten\<close> answers by the role of the address: an unknown address is no listener and nothing
  changes; a listener becomes unknown; a client is refused with an error and stays. No other
  address is affected.\<close>

lemma unlisten_by_role:
  assumes "server_wf sv" "Server_unlisten sv a = (r, sv')"
  shows "(case role sv a of
       Unknown \<Rightarrow> r = Inr False \<and> sv' = sv
     | Listening \<Rightarrow> r = Inr True \<and> role sv' a = Unknown
     | Slot i \<Rightarrow> r = Inl UnlistenError \<and> sv' = sv) \<and>
    (\<forall>b. b \<noteq> a \<longrightarrow> role sv' b = role sv b)"
proof -
  have li: "btree_invar (sv_listeners sv)" and excl: "\<And>x. Some x \<in> set (slots (sv_clients sv)) \<Longrightarrow> BTreeMap_get (sv_listeners sv) x = None"
    using assms(1) by (auto simp: server_wf_def)
  have pos: "position (is_client x) (sv_clients sv) = None \<longleftrightarrow> \<not> list_ex (is_client x) (sv_clients sv)" for x
    by (simp add: position_is_client_None list_ex_is_client)
  show ?thesis
  proof (cases "BTreeMap_get (sv_listeners sv) a = None")
    case True
    with assms(2) pos [of a] show ?thesis
      by (auto simp: Server_unlisten_def role_def split: if_split_asm option.split)
  next
    case False
    then have "\<not> list_ex (is_client a) (sv_clients sv)" using excl by (auto simp: list_ex_is_client)
    with False assms(2) pos [of a] li show ?thesis
      by (auto simp: Server_unlisten_def role_def btree.get_remove split: option.split if_split_asm)
  qed
qed

text \<open>A version request, on a network that takes datagrams: the answer carries what the version packet
  wrote, and an unknown address becomes a listener.\<close>

lemma version_request:
  assumes "server_wf sv" "protocol_ok pr" "length pb = PACKET_BUFFER_SIZE" "ping_accepted w a"
    and "sh_version handler h = (v, h1)" "pr_version_write pr v (drop 1 pb) = (n, ys)"
  shows "\<exists>sv' w'. Server_handle_packet pr handler sv a [] pb h w = Some (sv', PacketKind_into Kind_Version # ys, h1, w') \<and>
    sent w' = sent w @ [(a, PacketKind_into Kind_Version # take n ys)] \<and>
    role sv' a = (if role sv a = Unknown then Listening else role sv a)"
proof -
  obtain x xs where pb: "pb = x # xs" "length xs = PACKET_DATA_SIZE"
    using assms(3) by (cases pb) (auto simp: PACKET_DATA_SIZE_def)
  have n: "n \<le> PACKET_DATA_SIZE" "length ys = PACKET_DATA_SIZE"
    using assms(2,6) pb unfolding protocol_ok_def by (metis drop0 drop_Suc_Cons fst_conv One_nat_def snd_conv)+
  let ?buf = "PacketKind_into Kind_Version # take n ys"
  let ?w = "w\<lparr>sends := Suc (sends w), sent := sent w @ [(a, ?buf)]\<rparr>"
  let ?listen = "BTreeMap_get (sv_listeners sv) a = None \<and> \<not> list_ex (is_client a) (sv_clients sv)"
  let ?sv = "if ?listen then sv\<lparr>sv_listeners := BTreeMap_insert a
        (PacketBuffers_new (cf_initial_send_batch_size (sc_connection (sv_config sv)))) (sv_listeners sv)\<rparr> else sv"
  have "Server_send_version pr handler pb a h w = Some (Inr True, PacketKind_into Kind_Version # ys, h1, ?w)"
    using assms(5,6) pb n udp_accepted [OF assms(4), of ?buf]
    by (simp add: Server_send_version_def index_set_def slice_get_def)
  then have run: "Server_handle_packet pr handler sv a [] pb h w = Some (?sv, PacketKind_into Kind_Version # ys, h1, ?w)"
    by (simp add: Server_handle_packet_def Server_handle_version_request_def)
  have li: "btree_invar (sv_listeners sv)" using assms(1) by (simp add: server_wf_def)
  have "role ?sv a = (if role sv a = Unknown then Listening else role sv a)"
    using li position_is_client_None [of a "sv_clients sv"] list_ex_is_client [of a "sv_clients sv"]
    by (auto simp: role_def btree.get_insert split: option.split)
  with run show ?thesis by (intro exI [of _ ?sv] exI [of _ ?w]) simp
qed

end
