(* ===== verification/Client.thy ===== *)
theory Client
  imports Net
begin

text \<open>
  \<open>Client\<close> of \<^verbatim>\<open>net/client.rs\<close>: a vector of servers it listens to, each waiting for the version,
  compatible with its packet buffers, or incompatible, and the state of the one connection. As
  in the source, the connection is the first listener whenever the state is not \<open>Disconnected\<close>.
\<close>

section \<open>State\<close>

datatype ClientState = Disconnected | Connecting | Connected | Disconnecting

datatype 'ce ServerState =
    PendingVersion "Instant option"
  | Compatible PacketBuffers Instant
  | Incompatible 'ce

record 'ce ServerListener =
  sl_server_addr :: SocketAddr
  sl_state :: "'ce ServerState"

record 'ce Client =
  ct_config :: ClientConfig
  ct_state :: ClientState
  ct_listeners :: "'ce ServerListener list"

datatype 'ce Compatibility =
    Compatibility_Pending
  | Compatibility_Compatible
  | Compatibility_Incompatible 'ce

datatype UnexpectedServerPacket =
    Server_UnknownServer
  | Server_NotConnected
  | Server_Incompatible
  | Server_EmptyPacket
  | Server_PendingCompatibility
  | Server_MalformedVersion

datatype ForgetError = Forget_NotDisconnected | Forget_UnknownServer

datatype CompatibilityError = CompatibilityPending | CompatibilityIncompatible

datatype QueryError = Query_Compatibility CompatibilityError | Query_Io io_error

datatype ConnectError =
    Connect_Compatibility CompatibilityError
  | Connect_NotDisconnected
  | Connect_Io io_error

datatype SendError = Send_NotConnected | Send_Io io_error

record ('h, 'version, 'ce, 'status, 'accept, 'reject, 'kick, 'user) ClientHandler =
  "'h ConnectionHandler" +
  kh_compatibility :: "'version \<Rightarrow> 'h \<Rightarrow> ('ce + unit) \<times> 'h"
  kh_status :: "SocketAddr \<Rightarrow> 'status \<Rightarrow> 'h \<Rightarrow> 'h"
  kh_accept :: "'accept \<Rightarrow> 'h \<Rightarrow> 'h"
  kh_reject :: "'reject \<Rightarrow> 'h \<Rightarrow> 'h"
  kh_kick :: "'kick \<Rightarrow> 'h \<Rightarrow> 'h"
  kh_ping :: "'h \<Rightarrow> 'h"
  kh_packet :: "'user \<Rightarrow> 'h \<Rightarrow> 'h"
  kh_unexpected :: "SocketAddr \<Rightarrow> UnexpectedServerPacket \<Rightarrow> 'h \<Rightarrow> 'h"

type_synonym ('version, 'query, 'status, 'connect, 'accept, 'reject, 'kick, 'disconnect, 'server, 'user)
  ClientProtocol =
  "('version, ('query, 'connect, 'disconnect, 'user) ClientConnectionPacket,
    ('status, 'accept, 'reject, 'kick, 'server) ServerConnectionPacket) Protocol"

text \<open>The default methods of \<open>ClientHandler\<close>, which \<open>DefaultConnectionHandler\<close> uses.\<close>

definition DefaultClientHandler ::
    "(unit, 'version, 'ce, 'status, 'accept, 'reject, 'kick, 'user) ClientHandler" where
  "DefaultClientHandler =
     \<lparr>ch_raw_packet = (\<lambda>_ h. h), ch_error = (\<lambda>_ h. h), kh_compatibility = (\<lambda>_ h. (Inr (), h)),
      kh_status = (\<lambda>_ _ h. h), kh_accept = (\<lambda>_ h. h), kh_reject = (\<lambda>_ h. h),
      kh_kick = (\<lambda>_ h. h), kh_ping = (\<lambda>h. h), kh_packet = (\<lambda>_ h. h),
      kh_unexpected = (\<lambda>_ _ h. h)\<rparr>"

section \<open>Listeners\<close>

definition send_version_query :: "socket \<Rightarrow> world \<Rightarrow> (bool io_result \<times> world) option" where
  "send_version_query socket w = socket [] w"

definition pending_version_query ::
    "SocketAddr \<Rightarrow> world \<Rightarrow> ('ce ServerState io_result \<times> world) option" where
  "pending_version_query server_addr w = do {
     (r, w) \<leftarrow> send_version_query (udp server_addr) w;
     (case r of
        Inl error \<Rightarrow> Some (Inl error, w)
      | Inr is_sent \<Rightarrow>
          if is_sent
          then let (now, w) = Instant_now w in Some (Inr (PendingVersion (Some now)), w)
          else Some (Inr (PendingVersion None), w))
   }"

definition ServerListener_new ::
    "SocketAddr \<Rightarrow> world \<Rightarrow> ('ce ServerListener io_result \<times> world) option" where
  "ServerListener_new server_addr w = do {
     (r, w) \<leftarrow> pending_version_query server_addr w;
     (case r of
        Inl error \<Rightarrow> Some (Inl error, w)
      | Inr state \<Rightarrow> Some (Inr \<lparr>sl_server_addr = server_addr, sl_state = state\<rparr>, w))
   }"

definition ServerListener_refresh ::
    "'ce ServerListener \<Rightarrow> world \<Rightarrow> (unit io_result \<times> 'ce ServerListener \<times> world) option" where
  "ServerListener_refresh self w = do {
     (r, w) \<leftarrow> pending_version_query (sl_server_addr self) w;
     (case r of
        Inl error \<Rightarrow> Some (Inl error, self, w)
      | Inr state \<Rightarrow> Some (Inr (), self\<lparr>sl_state := state\<rparr>, w))
   }"

definition ServerListener_compatibility :: "'ce ServerListener \<Rightarrow> 'ce Compatibility" where
  "ServerListener_compatibility self =
     (case sl_state self of
        PendingVersion _ \<Rightarrow> Compatibility_Pending
      | Compatible _ _ \<Rightarrow> Compatibility_Compatible
      | Incompatible error \<Rightarrow> Compatibility_Incompatible error)"

text \<open>\<open>ServerListener::update\<close>: whether to keep the listener, and the client state if it was lent.\<close>

definition ServerListener_update ::
    "('h, 'more) ConnectionHandler_scheme \<Rightarrow> ClientConfig \<Rightarrow> 'ce ServerListener \<Rightarrow> ClientState option
      \<Rightarrow> 'h \<Rightarrow> world \<Rightarrow> (bool \<times> 'ce ServerListener \<times> ClientState option \<times> 'h \<times> world) option" where
  "ServerListener_update handler config self state h w =
     (case sl_state self of
        PendingVersion last_version_query \<Rightarrow> do {
          let (due, w) =
            (case last_version_query of
               None \<Rightarrow> (False, w)
             | Some it \<Rightarrow>
                 let (elapsed, w) = Instant_elapsed it w
                 in (elapsed \<ge> cf_resend_delay (cc_connection config), w));
          if due
          then do {
            (r, w) \<leftarrow> send_version_query (udp (sl_server_addr self)) w;
            (case r of
               Inr is_sent \<Rightarrow>
                 if is_sent
                 then let (now, w) = Instant_now w
                      in Some (True, self\<lparr>sl_state := PendingVersion (Some now)\<rparr>, state, h, w)
                 else Some (True, self, state, h, w)
             | Inl error \<Rightarrow>
                 Some (False, self, state,
                   ch_error handler (ErrorSend (sl_server_addr self) error) h, w))
          }
          else Some (True, self, state, h, w)
        }
      | Compatible buffers last_interaction \<Rightarrow> do {
          (r, buffers, w) \<leftarrow> PacketBuffers_update buffers
            (cf_resend_delay (cc_connection config)) (cf_max_missed_acks (cc_connection config))
            (cf_receive_timeout (cc_connection config)) (udp (sl_server_addr self)) w;
          let self = self\<lparr>sl_state := Compatible buffers last_interaction\<rparr>;
          (case r of
             Inl error \<Rightarrow>
               Some (False, self, map_option (\<lambda>_. Disconnected) state,
                 ch_error handler (ErrorSend (sl_server_addr self) error) h, w)
           | Inr _ \<Rightarrow> Some (True, self, state, h, w))
        }
      | Incompatible _ \<Rightarrow> Some (True, self, state, h, w))"

definition ServerState_compatible :: "NonZeroBatchSize \<Rightarrow> world \<Rightarrow> 'ce ServerState \<times> world" where
  "ServerState_compatible initial_send_batch_size w =
     (let (now, w) = Instant_now w
      in (Compatible (PacketBuffers_new initial_send_batch_size) now, w))"

definition ServerState_incompatible :: "'ce \<Rightarrow> 'ce ServerState" where
  "ServerState_incompatible error = Incompatible error"

section \<open>Construction and listening\<close>

definition DEFAULT_ADDR :: SocketAddr where
  "DEFAULT_ADDR = V4 0x7F000001 0"

definition Client_with_config ::
    "unit io_result \<Rightarrow> unit io_result \<Rightarrow> ClientConfig \<Rightarrow> 'ce Client io_result" where
  "Client_with_config bound set_nonblocking config =
     (case bound of
        Inl error \<Rightarrow> Inl error
      | Inr _ \<Rightarrow>
          (case set_nonblocking of
             Inl error \<Rightarrow> Inl error
           | Inr _ \<Rightarrow> Inr \<lparr>ct_config = config, ct_state = Disconnected, ct_listeners = []\<rparr>))"

text \<open>\<open>new\<close> binds to \<open>DEFAULT_ADDR\<close>; binding is answered by the environment.\<close>

definition Client_new ::
    "(SocketAddr \<Rightarrow> unit io_result) \<Rightarrow> unit io_result \<Rightarrow> 'ce Client io_result" where
  "Client_new bind_to set_nonblocking =
     Client_with_config (bind_to DEFAULT_ADDR) set_nonblocking ClientConfig_default"

definition Client_state :: "'ce Client \<Rightarrow> ClientState" where
  "Client_state self = ct_state self"

definition Client_server_addr :: "'ce Client \<Rightarrow> SocketAddr option option" where
  "Client_server_addr self =
     (case ct_state self of
        Disconnected \<Rightarrow> Some None
      | _ \<Rightarrow> (case ct_listeners self of
                [] \<Rightarrow> None
              | listener # _ \<Rightarrow> Some (Some (sl_server_addr listener))))"

definition listens_to :: "SocketAddr \<Rightarrow> 'ce ServerListener \<Rightarrow> bool" where
  "listens_to server_addr listener \<longleftrightarrow> sl_server_addr listener = server_addr"

definition Client_compatibility :: "'ce Client \<Rightarrow> SocketAddr \<Rightarrow> 'ce Compatibility option" where
  "Client_compatibility self server_addr =
     map_option ServerListener_compatibility (find (listens_to server_addr) (ct_listeners self))"

definition Client_get_or_add_listener ::
    "'ce Client \<Rightarrow> SocketAddr \<Rightarrow> world \<Rightarrow> (nat io_result \<times> 'ce Client \<times> world) option" where
  "Client_get_or_add_listener self server_addr w =
     (case position (listens_to server_addr) (ct_listeners self) of
        Some index \<Rightarrow> Some (Inr index, self, w)
      | None \<Rightarrow> do {
          (r, w) \<leftarrow> ServerListener_new server_addr w;
          (case r of
             Inl error \<Rightarrow> Some (Inl error, self, w)
           | Inr listener \<Rightarrow>
               Some (Inr (length (ct_listeners self)),
                     self\<lparr>ct_listeners := ct_listeners self @ [listener]\<rparr>, w))
        })"

definition Client_listen ::
    "'ce Client \<Rightarrow> SocketAddr \<Rightarrow> world
      \<Rightarrow> ('ce Compatibility io_result \<times> 'ce Client \<times> world) option" where
  "Client_listen self server_addr w = do {
     (r, self, w) \<leftarrow> Client_get_or_add_listener self server_addr w;
     (case r of
        Inl error \<Rightarrow> Some (Inl error, self, w)
      | Inr index \<Rightarrow>
          Some (Inr (ServerListener_compatibility (ct_listeners self ! index)), self, w))
   }"

text \<open>\<open>Vec::swap_remove\<close>: the last element takes the place of the removed one; panics out of range.\<close>

definition swap_remove :: "'a list \<Rightarrow> nat \<Rightarrow> 'a list option" where
  "swap_remove xs i = (if i < length xs then Some (butlast (xs[i := last xs])) else None)"

definition Client_forget :: "'ce Client \<Rightarrow> SocketAddr \<Rightarrow> ((ForgetError + unit) \<times> 'ce Client) option" where
  "Client_forget self server_addr =
     (case position (listens_to server_addr) (ct_listeners self) of
        Some index \<Rightarrow>
          if index = 0 \<and> ct_state self \<noteq> Disconnected
          then Some (Inl Forget_NotDisconnected, self)
          else do {
            listeners \<leftarrow> swap_remove (ct_listeners self) index;
            Some (Inr (), self\<lparr>ct_listeners := listeners\<rparr>)
          }
      | None \<Rightarrow> Some (Inl Forget_UnknownServer, self))"

definition Client_forget_all :: "'ce Client \<Rightarrow> 'ce Client option" where
  "Client_forget_all self =
     (if ct_state self = Disconnected then Some (self\<lparr>ct_listeners := []\<rparr>)
      else if ct_listeners self = [] then None
      else Some (self\<lparr>ct_listeners := take 1 (ct_listeners self)\<rparr>))"

fun refresh_listeners ::
    "'ce ServerListener list \<Rightarrow> world
      \<Rightarrow> (unit io_result \<times> 'ce ServerListener list \<times> world) option" where
  "refresh_listeners [] w = Some (Inr (), [], w)"
| "refresh_listeners (listener # listeners) w = do {
     (r, listener, w) \<leftarrow> ServerListener_refresh listener w;
     (case r of
        Inl error \<Rightarrow> Some (Inl error, listener # listeners, w)
      | Inr _ \<Rightarrow> do {
          (r, listeners, w) \<leftarrow> refresh_listeners listeners w;
          Some (r, listener # listeners, w)
        })
   }"

definition Client_refresh_all ::
    "'ce Client \<Rightarrow> world \<Rightarrow> (unit io_result \<times> 'ce Client \<times> world) option" where
  "Client_refresh_all self w = do {
     (r, listeners, w) \<leftarrow> refresh_listeners (ct_listeners self) w;
     Some (r, self\<lparr>ct_listeners := listeners\<rparr>, w)
   }"

section \<open>Sending\<close>

definition set_listener_state :: "'ce Client \<Rightarrow> nat \<Rightarrow> 'ce ServerState \<Rightarrow> 'ce Client" where
  "set_listener_state self index state = self\<lparr>ct_listeners :=
     (ct_listeners self)[index := (ct_listeners self ! index)\<lparr>sl_state := state\<rparr>]\<rparr>"

abbreviation threshold :: "'ce Client \<Rightarrow> usize" where
  "threshold self \<equiv> cf_background_serialization_threshold (cc_connection (ct_config self))"

definition Client_query ::
    "('version, 'query, 'status, 'connect, 'accept, 'reject, 'kick, 'disconnect, 'server, 'user)
        ClientProtocol \<Rightarrow> 'ce Client \<Rightarrow> SocketAddr \<Rightarrow> 'query \<Rightarrow> world
      \<Rightarrow> ((QueryError + PacketId) \<times> 'ce Client \<times> world) option" where
  "Client_query pr self server_addr query w = do {
     (r, self, w) \<leftarrow> Client_get_or_add_listener self server_addr w;
     (case r of
        Inl error \<Rightarrow> Some (Inl (Query_Io error), self, w)
      | Inr index \<Rightarrow>
          (case sl_state (ct_listeners self ! index) of
             PendingVersion _ \<Rightarrow>
               Some (Inl (Query_Compatibility CompatibilityPending), self, w)
           | Compatible buffers last_interaction \<Rightarrow> do {
               (r, buffers, w) \<leftarrow> PacketBuffers_send buffers (pr_serialize pr (CC_Query query))
                 (threshold self) (udp server_addr) w;
               let self = set_listener_state self index (Compatible buffers last_interaction);
               (case r of
                  Inl error \<Rightarrow> Some (Inl (Query_Io error), self, w)
                | Inr packet_id \<Rightarrow> Some (Inr packet_id, self, w))
             }
           | Incompatible _ \<Rightarrow>
               Some (Inl (Query_Compatibility CompatibilityIncompatible), self, w)))
   }"

text \<open>\<open>connect\<close>: the answers of \<open>UdpSocket::connect\<close> and \<open>peer_addr\<close> are the environment's.\<close>

definition Client_connect ::
    "('version, 'query, 'status, 'connect, 'accept, 'reject, 'kick, 'disconnect, 'server, 'user)
        ClientProtocol \<Rightarrow> 'ce Client \<Rightarrow> unit io_result \<Rightarrow> SocketAddr io_result \<Rightarrow> 'connect \<Rightarrow> world
      \<Rightarrow> ((ConnectError + PacketId) \<times> 'ce Client \<times> world) option" where
  "Client_connect pr self socket_connect peer_addr connect w =
     (if ct_state self = Disconnected
      then (case socket_connect of
              Inl error \<Rightarrow> Some (Inl (Connect_Io error), self, w)
            | Inr _ \<Rightarrow>
                (case peer_addr of
                   Inl error \<Rightarrow> Some (Inl (Connect_Io error), self, w)
                 | Inr server_addr \<Rightarrow> do {
                     (r, self, w) \<leftarrow> Client_get_or_add_listener self server_addr w;
                     (case r of
                        Inl error \<Rightarrow> Some (Inl (Connect_Io error), self, w)
                      | Inr index \<Rightarrow>
                          (case sl_state (ct_listeners self ! index) of
                             PendingVersion _ \<Rightarrow>
                               Some (Inl (Connect_Compatibility CompatibilityPending), self, w)
                           | Compatible buffers last_interaction \<Rightarrow> do {
                               (r, buffers, w) \<leftarrow> PacketBuffers_send buffers
                                 (pr_serialize pr (CC_Connect connect)) (threshold self)
                                 (udp server_addr) w;
                               let self =
                                 set_listener_state self index (Compatible buffers last_interaction);
                               (case r of
                                  Inl error \<Rightarrow> Some (Inl (Connect_Io error), self, w)
                                | Inr packet_id \<Rightarrow>
                                    Some (Inr packet_id, self\<lparr>ct_state := Connecting\<rparr>, w))
                             }
                           | Incompatible _ \<Rightarrow>
                               Some (Inl (Connect_Compatibility CompatibilityIncompatible), self, w)))
                   }))
      else Some (Inl Connect_NotDisconnected, self, w))"

definition Client_disconnect ::
    "('version, 'query, 'status, 'connect, 'accept, 'reject, 'kick, 'disconnect, 'server, 'user)
        ClientProtocol \<Rightarrow> 'ce Client \<Rightarrow> 'disconnect \<Rightarrow> world
      \<Rightarrow> ((SendError + PacketId) \<times> 'ce Client \<times> world) option" where
  "Client_disconnect pr self disconnect w =
     (if ct_state self = Connected
      then (case ct_listeners self of
              [] \<Rightarrow> None
            | listener # _ \<Rightarrow>
                (case sl_state listener of
                   Compatible buffers last_interaction \<Rightarrow> do {
                     (r, buffers, w) \<leftarrow> PacketBuffers_send buffers
                       (pr_serialize pr (CC_Disconnect disconnect)) (threshold self)
                       (udp (sl_server_addr listener)) w;
                     let self = set_listener_state self 0 (Compatible buffers last_interaction);
                     (case r of
                        Inr packet_id \<Rightarrow>
                          Some (Inr packet_id, self\<lparr>ct_state := Disconnecting\<rparr>, w)
                      | Inl error \<Rightarrow> do {
                          listeners \<leftarrow> swap_remove (ct_listeners self) 0;
                          Some (Inl (Send_Io error),
                            self\<lparr>ct_listeners := listeners, ct_state := Disconnected\<rparr>, w)
                        })
                   }
                 | _ \<Rightarrow> None))
      else Some (Inl Send_NotConnected, self, w))"

definition Client_send ::
    "('version, 'query, 'status, 'connect, 'accept, 'reject, 'kick, 'disconnect, 'server, 'user)
        ClientProtocol \<Rightarrow> 'ce Client \<Rightarrow> 'user \<Rightarrow> world
      \<Rightarrow> ((SendError + PacketId) \<times> 'ce Client \<times> world) option" where
  "Client_send pr self packet w =
     (if ct_state self = Connected
      then (case ct_listeners self of
              [] \<Rightarrow> None
            | listener # _ \<Rightarrow>
                (case sl_state listener of
                   Compatible buffers last_interaction \<Rightarrow> do {
                     (r, buffers, w) \<leftarrow> PacketBuffers_send buffers
                       (pr_serialize pr (CC_User packet)) (threshold self)
                       (udp (sl_server_addr listener)) w;
                     let self = set_listener_state self 0 (Compatible buffers last_interaction);
                     (case r of
                        Inr packet_id \<Rightarrow> Some (Inr packet_id, self, w)
                      | Inl error \<Rightarrow> do {
                          listeners \<leftarrow> swap_remove (ct_listeners self) 0;
                          Some (Inl (Send_Io error),
                            self\<lparr>ct_listeners := listeners, ct_state := Disconnected\<rparr>, w)
                        })
                   }
                 | _ \<Rightarrow> None))
      else Some (Inl Send_NotConnected, self, w))"

section \<open>Updating\<close>

text \<open>The closure of the first \<open>retain_mut\<close> in \<open>update\<close>: only the first listener is lent the
  client state, and only if there is a connection.\<close>

fun update_listeners ::
    "('h, 'more) ConnectionHandler_scheme \<Rightarrow> ClientConfig \<Rightarrow> bool \<Rightarrow> ClientState
      \<Rightarrow> 'ce ServerListener list \<Rightarrow> 'h \<Rightarrow> world
      \<Rightarrow> ('ce ServerListener list \<times> ClientState \<times> 'h \<times> world) option" where
  "update_listeners handler config connected state [] h w = Some ([], state, h, w)"
| "update_listeners handler config connected state (listener # listeners) h w = do {
     (keep, listener, lent, h, w) \<leftarrow> ServerListener_update handler config listener
       (if connected then Some state else None) h w;
     let state = (case lent of None \<Rightarrow> state | Some state \<Rightarrow> state);
     (listeners, state, h, w) \<leftarrow> update_listeners handler config False state listeners h w;
     Some (if keep then listener # listeners else listeners, state, h, w)
   }"

text \<open>A reassembled packet: the new state of the client.\<close>

definition Client_handle_connection_packet ::
    "('h, 'version, 'ce, 'status, 'accept, 'reject, 'kick, 'server) ClientHandler
      \<Rightarrow> ClientState \<Rightarrow> bool \<Rightarrow> SocketAddr
      \<Rightarrow> ('status, 'accept, 'reject, 'kick, 'server) ServerConnectionPacket \<Rightarrow> 'h \<Rightarrow> ClientState \<times> 'h"
  where
  "Client_handle_connection_packet handler state is_connection_listener server_addr packet h =
     (case packet of
        SC_Status status \<Rightarrow> (state, kh_status handler server_addr status h)
      | SC_Accept accept \<Rightarrow>
          if is_connection_listener \<and> state = Connecting
          then (Connected, kh_accept handler accept h)
          else (state, kh_unexpected handler server_addr Server_NotConnected h)
      | SC_Reject reject \<Rightarrow>
          if is_connection_listener \<and> state = Connecting
          then (Disconnected, kh_reject handler reject h)
          else (state, kh_unexpected handler server_addr Server_NotConnected h)
      | SC_Kick kick \<Rightarrow>
          if is_connection_listener \<and> state = Connected
          then (Disconnected, kh_kick handler kick h)
          else (state, kh_unexpected handler server_addr Server_NotConnected h)
      | SC_User packet \<Rightarrow>
          if is_connection_listener \<and> state = Connected
          then (state, kh_packet handler packet h)
          else (state, kh_unexpected handler server_addr Server_NotConnected h))"

definition Client_handle_pending ::
    "('version, 'out, 'in) Protocol
      \<Rightarrow> ('h, 'version, 'ce, 'status, 'accept, 'reject, 'kick, 'server) ClientHandler
      \<Rightarrow> 'ce Client \<Rightarrow> nat \<Rightarrow> SocketAddr \<Rightarrow> u8 list \<Rightarrow> 'h \<Rightarrow> world \<Rightarrow> 'ce Client \<times> 'h \<times> world" where
  "Client_handle_pending pr handler self index server_addr buf h w =
     (case buf of
        [] \<Rightarrow> (self, kh_unexpected handler server_addr Server_EmptyPacket h, w)
      | kind # rest \<Rightarrow>
          if PacketKind_try_from kind \<noteq> Some Kind_Version
          then (self, kh_unexpected handler server_addr Server_PendingCompatibility h, w)
          else (case pr_version_read pr rest of
                  Inl _ \<Rightarrow> (self, kh_unexpected handler server_addr Server_MalformedVersion h, w)
                | Inr version \<Rightarrow>
                    let (r, h) = kh_compatibility handler version h
                    in case r of
                         Inr _ \<Rightarrow>
                           let (state, w) = ServerState_compatible
                             (cf_initial_send_batch_size (cc_connection (ct_config self))) w
                           in (set_listener_state self index state, h, w)
                       | Inl error \<Rightarrow>
                           (set_listener_state self index (ServerState_incompatible error), h, w)))"

definition Client_handle_compatible ::
    "('version, 'query, 'status, 'connect, 'accept, 'reject, 'kick, 'disconnect, 'server, 'user)
        ClientProtocol
      \<Rightarrow> ('h, 'version, 'ce, 'status, 'accept, 'reject, 'kick, 'server) ClientHandler
      \<Rightarrow> 'ce Client \<Rightarrow> nat \<Rightarrow> bool \<Rightarrow> PacketBuffers \<Rightarrow> SocketAddr \<Rightarrow> u8 list \<Rightarrow> 'h \<Rightarrow> world
      \<Rightarrow> ('ce Client \<times> 'h \<times> world) option" where
  "Client_handle_compatible pr handler self index is_connection_listener buffers server_addr buf h w = do {
     let (now, w) = Instant_now w;
     let self = set_listener_state self index (Compatible buffers now);
     if is_connection_listener \<and> buf \<noteq> [] \<and> PacketKind_try_from (hd buf) = Some Kind_Ping
     then do {
       let h = kh_ping handler h;
       (r, w) \<leftarrow> udp server_addr buf w;
       (case r of
          Inl error \<Rightarrow>
            Some (self\<lparr>ct_state := Disconnected\<rparr>, ch_error handler (ErrorSend server_addr error) h, w)
        | Inr _ \<Rightarrow> Some (self, h, w))
     }
     else do {
       (r, buffers, w) \<leftarrow> PacketBuffers_handle buffers buf (udp server_addr) w;
       let self = set_listener_state self index (Compatible buffers now);
       (case r of
          Inl error \<Rightarrow> Some (self, ch_error handler (ErrorHandle server_addr error) h, w)
        | Inr (HandlingReceived Pending) \<Rightarrow>
            Some (self, ch_raw_packet handler (RawPart server_addr PartPending) h, w)
        | Inr (HandlingReceived Duplicate) \<Rightarrow>
            Some (self, ch_raw_packet handler (RawPart server_addr PartDuplicate) h, w)
        | Inr (HandlingReceived (Reassembled bytes)) \<Rightarrow>
            let h = ch_raw_packet handler (RawPart server_addr PartReassembled) h
            in (case pr_check_archived_root pr bytes of
                  Inl error \<Rightarrow>
                    Some (self, ch_error handler (ErrorPacketValidation server_addr error) h, w)
                | Inr packet \<Rightarrow>
                    let (state, h) = Client_handle_connection_packet handler (ct_state self)
                      is_connection_listener server_addr packet h
                    in Some (self\<lparr>ct_state := state\<rparr>, h, w))
        | Inr (HandlingDone known_packet) \<Rightarrow>
            Some (self, ch_raw_packet handler (RawDone server_addr known_packet) h, w)
        | Inr (HandlingAck duplicate) \<Rightarrow>
            Some (self, ch_raw_packet handler (RawAck server_addr duplicate) h, w))
     }
   }"

text \<open>One round of the receive loop in \<open>update\<close>.\<close>

definition Client_handle_packet ::
    "('version, 'query, 'status, 'connect, 'accept, 'reject, 'kick, 'disconnect, 'server, 'user)
        ClientProtocol
      \<Rightarrow> ('h, 'version, 'ce, 'status, 'accept, 'reject, 'kick, 'server) ClientHandler
      \<Rightarrow> 'ce Client \<Rightarrow> SocketAddr \<Rightarrow> u8 list \<Rightarrow> 'h \<Rightarrow> world \<Rightarrow> ('ce Client \<times> 'h \<times> world) option" where
  "Client_handle_packet pr handler self server_addr buf h w =
     (case position (listens_to server_addr) (ct_listeners self) of
        None \<Rightarrow> Some (self, kh_unexpected handler server_addr Server_UnknownServer h, w)
      | Some index \<Rightarrow>
          let is_connection_listener = (index = 0 \<and> ct_state self \<noteq> Disconnected)
          in (case sl_state (ct_listeners self ! index) of
                PendingVersion _ \<Rightarrow>
                  Some (Client_handle_pending pr handler self index server_addr buf h w)
              | Compatible buffers last_interaction \<Rightarrow>
                  Client_handle_compatible pr handler self index is_connection_listener buffers
                    server_addr buf h w
              | Incompatible _ \<Rightarrow>
                  Some (self, kh_unexpected handler server_addr Server_Incompatible h, w)))"

function client_packets_loop ::
    "('version, 'query, 'status, 'connect, 'accept, 'reject, 'kick, 'disconnect, 'server, 'user)
        ClientProtocol
      \<Rightarrow> ('h, 'version, 'ce, 'status, 'accept, 'reject, 'kick, 'server) ClientHandler
      \<Rightarrow> 'ce Client \<Rightarrow> inbox \<Rightarrow> u8 list \<Rightarrow> 'h \<Rightarrow> world \<Rightarrow> ('ce Client \<times> 'h \<times> world) option" where
  "client_packets_loop pr handler self inbox packet_buf h w =
     (case recv handler inbox packet_buf h of
        (None, _, _, h) \<Rightarrow> Some (self, h, w)
      | (Some (server_addr, buf), inbox', packet_buf, h) \<Rightarrow> do {
          (self, h, w) \<leftarrow> Client_handle_packet pr handler self server_addr buf h w;
          client_packets_loop pr handler self inbox' packet_buf h w
        })"
  by pat_completeness auto
termination
  by (relation "measure (\<lambda>(_, _, _, inbox, _, _, _). length inbox)")
    (auto dest: recv_shorter [OF sym])

declare client_packets_loop.simps [simp del]

fun timeout_listeners ::
    "('h, 'more) ConnectionHandler_scheme \<Rightarrow> ClientConfig \<Rightarrow> ClientState
      \<Rightarrow> 'ce ServerListener list \<Rightarrow> 'h \<Rightarrow> world \<Rightarrow> 'ce ServerListener list \<times> ClientState \<times> 'h \<times> world"
  where
  "timeout_listeners handler config state [] h w = ([], state, h, w)"
| "timeout_listeners handler config state (listener # listeners) h w =
     (let (keep, state, h, w) =
            (case (sl_state listener, cc_timeout config) of
               (Compatible _ last_interaction, Some timeout) \<Rightarrow>
                 let (elapsed, w) = Instant_elapsed last_interaction w
                 in if elapsed > timeout
                    then (False, Disconnected,
                          ch_error handler (ErrorTimeout (sl_server_addr listener)) h, w)
                    else (True, state, h, w)
             | _ \<Rightarrow> (True, state, h, w));
          (listeners, state, h, w) = timeout_listeners handler config state listeners h w
      in (if keep then listener # listeners else listeners, state, h, w))"

definition Client_timeout_connection ::
    "('h, 'more) ConnectionHandler_scheme \<Rightarrow> 'ce Client \<Rightarrow> 'h \<Rightarrow> world \<Rightarrow> 'ce Client \<times> 'h \<times> world" where
  "Client_timeout_connection handler self h w =
     (let (listeners, state, h, w) =
            timeout_listeners handler (ct_config self) (ct_state self) (ct_listeners self) h w
      in (self\<lparr>ct_listeners := listeners, ct_state := state\<rparr>, h, w))"

definition Client_update ::
    "('version, 'query, 'status, 'connect, 'accept, 'reject, 'kick, 'disconnect, 'server, 'user)
        ClientProtocol
      \<Rightarrow> ('h, 'version, 'ce, 'status, 'accept, 'reject, 'kick, 'server) ClientHandler
      \<Rightarrow> 'ce Client \<Rightarrow> inbox \<Rightarrow> 'h \<Rightarrow> world \<Rightarrow> ('ce Client \<times> 'h \<times> world) option" where
  "Client_update pr handler self inbox h w = do {
     (listeners, state, h, w) \<leftarrow> update_listeners handler (ct_config self)
       (ct_state self \<noteq> Disconnected) (ct_state self) (ct_listeners self) h w;
     let self = self\<lparr>ct_listeners := listeners, ct_state := state\<rparr>;
     (self, h, w) \<leftarrow>
       client_packets_loop pr handler self inbox (replicate PACKET_BUFFER_SIZE 0) h w;
     Some (Client_timeout_connection handler self h w)
   }"

end
