(* ===== verification/Client_Spec.thy ===== *)
theory Client_Spec
  imports Client Buffers_Wf Transition
begin

text \<open>
  The client as a state machine. \<open>client_step\<close> lists the ways its listeners and its state change;
  every operation is a sequence of them. Two operations can break the rule that the first listener
  is the connection: connecting to a listener that is not the first, and refreshing during a
  connection. A guarded step excludes them, an unguarded one does not; \<open>client_wf\<close> is kept by all
  steps, \<open>connection_first\<close> by the guarded ones.
\<close>

section \<open>Removing a listener\<close>

lemma swap_remove_set:
  assumes "swap_remove xs i = Some ys" "distinct (map f xs)"
  shows "set ys = set xs - {xs ! i} \<and> distinct (map f ys) \<and> length ys = length xs - 1"
proof -
  have i: "i < length xs" and ys: "ys = butlast (xs[i := last xs])"
    using assms(1) by (auto simp: swap_remove_def split: if_split_asm)
  obtain us x where xs: "xs = us @ [x]" using i by (cases xs rule: rev_cases) auto
  have d: "distinct us" "x \<notin> set us" using assms(2) by (auto simp: xs distinct_map)
  show ?thesis
  proof (cases "i = length us")
    case True
    with assms(2) d show ?thesis by (auto simp: ys xs)
  next
    case False
    with i have i': "i < length us" by (simp add: xs)
    have eq: "ys = us[i := x]" using i' by (simp add: ys xs list_update_append)
    have "set ys = insert x (set us - {us ! i})"
      using d i' by (simp add: eq set_update_distinct)
    moreover have "us ! i \<noteq> x" using d i' by auto
    ultimately have "set ys = set xs - {xs ! i}" using i' d by (auto simp: xs nth_append)
    moreover have "distinct (map f ys)"
    proof -
      have "f x \<notin> set (map f us)" "distinct (map f us)" using assms(2) by (auto simp: xs)
      then show ?thesis by (auto simp: eq map_update intro: distinct_list_update)
    qed
    ultimately show ?thesis by (simp add: eq xs)
  qed
qed

lemma swap_remove_first:
  assumes "swap_remove xs i = Some ys" "0 < i" "xs = x # zs"
  shows "\<exists>us. ys = x # us"
  using assms by (auto simp: swap_remove_def split: if_split_asm nat.split_asm)

section \<open>The invariant\<close>

definition is_compatible :: "'ce ServerState \<Rightarrow> bool" where
  "is_compatible s = (case s of Compatible _ _ \<Rightarrow> True | _ \<Rightarrow> False)"

definition state_wf :: "'ce ServerState \<Rightarrow> bool" where
  "state_wf s = (case s of Compatible buffers _ \<Rightarrow> buffers_wf buffers | _ \<Rightarrow> True)"

abbreviation addrs :: "'ce ServerListener list \<Rightarrow> SocketAddr list" where
  "addrs ls \<equiv> map sl_server_addr ls"

definition client_wf :: "'ce Client \<Rightarrow> bool" where
  "client_wf ct \<longleftrightarrow> config_wf (cc_connection (ct_config ct)) \<and> distinct (addrs (ct_listeners ct)) \<and>
     (\<forall>l \<in> set (ct_listeners ct). state_wf (sl_state l))"

text \<open>The comment in \<open>update\<close>: if there is a connection, the first entry is the connected server.\<close>

definition connection_first :: "'ce Client \<Rightarrow> bool" where
  "connection_first ct \<longleftrightarrow> ct_state ct = Disconnected \<or>
     (\<exists>l ls. ct_listeners ct = l # ls \<and> is_compatible (sl_state l))"

lemma state_wf_simps [simp]:
  "state_wf (PendingVersion v)" "state_wf (Incompatible e)"
  "state_wf (Compatible b t) = buffers_wf b"
  by (simp_all add: state_wf_def)

lemma is_compatible_simps [simp]:
  "\<not> is_compatible (PendingVersion v)" "\<not> is_compatible (Incompatible e)"
  "is_compatible (Compatible b t)"
  by (simp_all add: is_compatible_def)

lemma is_compatibleE:
  assumes "is_compatible s" obtains b t where "s = Compatible b t"
  using assms by (cases s) auto

lemma client_update_swap [simp]:
  "ct\<lparr>ct_state := s, ct_listeners := ls\<rparr> = ct\<lparr>ct_listeners := ls, ct_state := s\<rparr>"
  by (cases ct) simp

section \<open>Steps\<close>

inductive state_step :: "ClientState \<Rightarrow> ClientState \<Rightarrow> bool" where
  keep: "state_step s s"
| accepted: "state_step Connecting Connected"
| leaving: "state_step Connected Disconnecting"
| lost: "state_step s Disconnected"

inductive client_step :: "bool \<Rightarrow> 'ce Client \<Rightarrow> 'ce Client \<Rightarrow> bool" for guarded where
  listen: "sl_server_addr l \<notin> set (addrs (ct_listeners ct)) \<Longrightarrow> state_wf (sl_state l) \<Longrightarrow>
    client_step guarded ct (ct\<lparr>ct_listeners := ct_listeners ct @ [l]\<rparr>)"
| forget: "swap_remove (ct_listeners ct) i = Some ls \<Longrightarrow> 0 < i \<or> ct_state ct = Disconnected \<Longrightarrow>
    client_step guarded ct (ct\<lparr>ct_listeners := ls\<rparr>)"
| forget_all: "ct_state ct = Disconnected \<Longrightarrow> client_step guarded ct (ct\<lparr>ct_listeners := []\<rparr>)"
| forget_others: "client_step guarded ct (ct\<lparr>ct_listeners := take 1 (ct_listeners ct)\<rparr>)"
| listener: "i < length (ct_listeners ct) \<Longrightarrow> state_wf s \<Longrightarrow>
    (is_compatible (sl_state (ct_listeners ct ! i)) \<Longrightarrow> is_compatible s) \<Longrightarrow>
    client_step guarded ct (set_listener_state ct i s)"
| refresh: "i < length (ct_listeners ct) \<Longrightarrow> (guarded \<Longrightarrow> ct_state ct = Disconnected) \<Longrightarrow>
    client_step guarded ct (set_listener_state ct i (PendingVersion v))"
| state: "state_step (ct_state ct) s \<Longrightarrow> client_step guarded ct (ct\<lparr>ct_state := s\<rparr>)"
| connect: "ct_state ct = Disconnected \<Longrightarrow> i < length (ct_listeners ct) \<Longrightarrow>
    is_compatible (sl_state (ct_listeners ct ! i)) \<Longrightarrow> (guarded \<Longrightarrow> i = 0) \<Longrightarrow>
    client_step guarded ct (ct\<lparr>ct_state := Connecting\<rparr>)"
| remove: "ct_listeners ct = us @ l # vs \<Longrightarrow> s = ct_state ct \<or> s = Disconnected \<Longrightarrow>
    (guarded \<Longrightarrow> us = [] \<Longrightarrow> s = Disconnected) \<Longrightarrow>
    client_step guarded ct (ct\<lparr>ct_listeners := us @ vs, ct_state := s\<rparr>)"

lemma set_listener_state_simps [simp]:
  "ct_state (set_listener_state ct i s) = ct_state ct"
  "ct_config (set_listener_state ct i s) = ct_config ct"
  "length (ct_listeners (set_listener_state ct i s)) = length (ct_listeners ct)"
  by (simp_all add: set_listener_state_def)

lemma addrs_set_listener_state [simp]:
  "addrs (ct_listeners (set_listener_state ct i s)) = addrs (ct_listeners ct)"
proof (rule nth_equalityI)
  fix j assume "j < length (addrs (ct_listeners (set_listener_state ct i s)))"
  then show "addrs (ct_listeners (set_listener_state ct i s)) ! j = addrs (ct_listeners ct) ! j"
    by (cases "i = j") (simp_all add: set_listener_state_def)
qed simp

lemma set_listener_state_nth [simp]:
  "i < length (ct_listeners ct) \<Longrightarrow> sl_state (ct_listeners (set_listener_state ct i s) ! i) = s"
  by (simp add: set_listener_state_def)

lemma set_listener_state_set:
  "l \<in> set (ct_listeners (set_listener_state ct i s)) \<Longrightarrow> l \<in> set (ct_listeners ct) \<or> sl_state l = s"
  using set_update_subset_insert by (fastforce simp: set_listener_state_def)

lemma set_listener_state_twice [simp]:
  "i < length (ct_listeners ct) \<Longrightarrow>
     set_listener_state (set_listener_state ct i s) i s' = set_listener_state ct i s'"
  by (simp add: set_listener_state_def)

lemma client_step_wf: "client_step g ct ct' \<Longrightarrow> client_wf ct \<Longrightarrow> client_wf ct'"
proof (induction rule: client_step.induct)
  case (forget ct i ls)
  then show ?case using swap_remove_set [OF forget.hyps(1)] by (auto simp: client_wf_def)
next
  case (forget_others ct)
  then show ?case by (cases "ct_listeners ct") (auto simp: client_wf_def)
next
  case (listener i ct s)
  then show ?case by (auto simp: client_wf_def dest!: set_listener_state_set)
next
  case (refresh i ct v)
  then show ?case by (auto simp: client_wf_def dest!: set_listener_state_set)
qed (auto simp: client_wf_def)

lemma client_step_first: "client_step True ct ct' \<Longrightarrow> connection_first ct \<Longrightarrow> connection_first ct'"
proof (induction rule: client_step.induct)
  case (forget ct i ls)
  then show ?case using swap_remove_first [OF forget.hyps(1)] by (auto simp: connection_first_def)
next
  case (listener i ct s)
  then show ?case
    by (cases i) (auto simp: connection_first_def set_listener_state_def)
next
  case (state ct s)
  then show ?case by (auto simp: connection_first_def elim: state_step.cases)
next
  case (connect ct i)
  then show ?case by (cases "ct_listeners ct") (auto simp: connection_first_def)
next
  case (remove ct us l vs s)
  then show ?case by (cases us) (auto simp: connection_first_def)
qed (auto simp: connection_first_def)

lemma client_step_unguarded: "client_step True ct ct' \<Longrightarrow> client_step g ct ct'"
  by (induction rule: client_step.induct) (blast intro: client_step.intros)+

interpretation client: transition_system "client_step g" client_wf for g
  by unfold_locales (rule client_step_wf)

interpretation guarded: transition_system "client_step True" connection_first
  by unfold_locales (rule client_step_first)

section \<open>Every operation is a sequence of steps\<close>

lemma position_listens_to:
  assumes "position (listens_to a) ls = Some i"
  shows "i < length ls" "sl_server_addr (ls ! i) = a"
  using assms by (auto simp: position_Some_iff listens_to_def)

lemma position_listens_to_None: "position (listens_to a) ls = None \<longleftrightarrow> a \<notin> set (addrs ls)"
  by (auto simp: position_None_iff listens_to_def)

lemma pending_version_query_state:
  "pending_version_query a w = Some (Inr s, w') \<Longrightarrow> \<exists>v. s = PendingVersion v"
  by (auto simp: pending_version_query_def run_simps Instant_now_def split: if_split_asm)

lemma get_or_add_listener_steps:
  assumes "Client_get_or_add_listener ct a w = Some (r, ct', w')"
  shows "(client_step g)\<^sup>*\<^sup>* ct ct'" "ct_state ct' = ct_state ct" "ct_config ct' = ct_config ct"
    "r = Inr i \<Longrightarrow> i < length (ct_listeners ct') \<and> sl_server_addr (ct_listeners ct' ! i) = a"
proof -
  consider (old) i where "position (listens_to a) (ct_listeners ct) = Some i" "r = Inr i" "ct' = ct"
    | (failed) e where "r = Inl e" "ct' = ct"
    | (new) v where "a \<notin> set (addrs (ct_listeners ct))" "r = Inr (length (ct_listeners ct))"
      "ct' = ct\<lparr>ct_listeners := ct_listeners ct @ [\<lparr>sl_server_addr = a, sl_state = PendingVersion v\<rparr>]\<rparr>"
    using assms unfolding position_listens_to_None [symmetric]
    by (auto simp: Client_get_or_add_listener_def ServerListener_new_def run_simps
        dest: pending_version_query_state split: option.split_asm)
  then have "(client_step g)\<^sup>*\<^sup>* ct ct' \<and> ct_state ct' = ct_state ct \<and> ct_config ct' = ct_config ct \<and>
    (r = Inr i \<longrightarrow> i < length (ct_listeners ct') \<and> sl_server_addr (ct_listeners ct' ! i) = a)"
  proof cases
    case new
    then show ?thesis using client_step.listen [where ct = ct and guarded = g] by auto
  qed (auto dest: position_listens_to)
  then show "(client_step g)\<^sup>*\<^sup>* ct ct'" "ct_state ct' = ct_state ct" "ct_config ct' = ct_config ct"
    "r = Inr i \<Longrightarrow> i < length (ct_listeners ct') \<and> sl_server_addr (ct_listeners ct' ! i) = a" by auto
qed

lemma Client_listen_steps:
  assumes "Client_listen ct a w = Some (r, ct', w')" shows "(client_step g)\<^sup>*\<^sup>* ct ct'"
  using assms by (auto simp: Client_listen_def run_simps intro: get_or_add_listener_steps)

lemma Client_forget_steps:
  assumes "Client_forget ct a = Some (r, ct')" shows "(client_step g)\<^sup>*\<^sup>* ct ct'"
  using assms
  by (auto simp: Client_forget_def run_simps split: if_split_asm option.split_asm
      intro: r_into_rtranclp client_step.forget)

lemma Client_forget_all_steps:
  assumes "Client_forget_all ct = Some ct'" shows "(client_step g)\<^sup>*\<^sup>* ct ct'"
proof (cases "ct_state ct = Disconnected")
  case True
  with assms show ?thesis by (auto simp: Client_forget_all_def intro: client_step.forget_all)
next
  case False
  with assms have "ct' = ct\<lparr>ct_listeners := take 1 (ct_listeners ct)\<rparr>"
    by (simp add: Client_forget_all_def split: if_split_asm)
  then show ?thesis using client_step.forget_others by (metis r_into_rtranclp)
qed

lemma refresh_listeners_steps:
  assumes "refresh_listeners ls w = Some (r, ls', w')" "g \<Longrightarrow> ct_state ct = Disconnected"
  shows "(client_step g)\<^sup>*\<^sup>* (ct\<lparr>ct_listeners := us @ ls\<rparr>) (ct\<lparr>ct_listeners := us @ ls'\<rparr>)"
  using assms(1)
proof (induction ls arbitrary: us w ls')
  case Nil
  then show ?case by simp
next
  case (Cons l ls)
  consider e where "ls' = l # ls"
    | v w1 ls1 where "refresh_listeners ls w1 = Some (r, ls1, w')"
      "ls' = l\<lparr>sl_state := PendingVersion v\<rparr> # ls1"
    using Cons.prems
    by (auto simp: ServerListener_refresh_def run_simps dest!: pending_version_query_state)
  then show ?case
  proof cases
    case (2 v w1 ls1)
    have "client_step g (ct\<lparr>ct_listeners := us @ l # ls\<rparr>)
        (set_listener_state (ct\<lparr>ct_listeners := us @ l # ls\<rparr>) (length us) (PendingVersion v))"
      using assms(2) by (intro client_step.refresh) simp_all
    moreover have "(client_step g)\<^sup>*\<^sup>* (ct\<lparr>ct_listeners := (us @ [l\<lparr>sl_state := PendingVersion v\<rparr>]) @ ls\<rparr>)
        (ct\<lparr>ct_listeners := (us @ [l\<lparr>sl_state := PendingVersion v\<rparr>]) @ ls1\<rparr>)"
      by (rule Cons.IH [OF 2(1)])
    ultimately show ?thesis
      by (simp add: 2(2) set_listener_state_def converse_rtranclp_into_rtranclp)
  qed simp
qed

lemma Client_refresh_all_steps:
  assumes "Client_refresh_all ct w = Some (r, ct', w')" "g \<Longrightarrow> ct_state ct = Disconnected"
  shows "(client_step g)\<^sup>*\<^sup>* ct ct'"
proof -
  from assms(1) obtain ls where ls: "refresh_listeners (ct_listeners ct) w = Some (r, ls, w')"
    "ct' = ct\<lparr>ct_listeners := ls\<rparr>"
    by (auto simp: Client_refresh_all_def run_simps)
  have "ct\<lparr>ct_listeners := ct_listeners ct\<rparr> = ct" by simp
  with refresh_listeners_steps [OF ls(1) assms(2), where us = "[]"] ls(2) show ?thesis by simp
qed

text \<open>A packet sent to a compatible listener.\<close>

lemma client_listener_wf:
  assumes "client_wf ct" "i < length (ct_listeners ct)" "sl_state (ct_listeners ct ! i) = Compatible b t"
  shows "buffers_wf b"
  using assms nth_mem unfolding client_wf_def by (metis state_wf_simps(3))

lemma send_listener_step:
  assumes "client_wf ct" "protocol_ok pr" "i < length (ct_listeners ct)"
    and "sl_state (ct_listeners ct ! i) = Compatible b t"
    and "PacketBuffers_send b (pr_serialize pr x) n socket w = Some (r, b', w')"
  shows "client_step g ct (set_listener_state ct i (Compatible b' t))"
proof -
  have "buffers_wf b'"
    using buffers.send_invar [OF client_listener_wf [OF assms(1,3,4)] _ assms(5)] assms(2)
    by (simp add: protocol_ok_def)
  then show ?thesis using assms(3) by (intro client_step.listener) simp_all
qed

lemma Client_query_steps:
  assumes "Client_query pr ct a q w = Some (r, ct', w')" "client_wf ct" "protocol_ok pr"
  shows "(client_step g)\<^sup>*\<^sup>* ct ct'"
proof -
  from assms(1) obtain r1 ct1 w1 where add: "Client_get_or_add_listener ct a w = Some (r1, ct1, w1)"
    by (auto simp: Client_query_def run_simps)
  note st = get_or_add_listener_steps(1) [OF add, of g]
  have wf: "client_wf ct1" using client.steps_invar [OF st assms(2)] .
  show ?thesis
  proof (cases r1)
    case (Inl e)
    with assms(1) add st show ?thesis by (simp add: Client_query_def)
  next
    case (Inr i)
    then have i: "i < length (ct_listeners ct1)" using get_or_add_listener_steps(4) [OF add] by blast
    show ?thesis
    proof (cases "sl_state (ct_listeners ct1 ! i)")
      case (Compatible b t)
      with assms(1) add Inr obtain r2 b' where
        "PacketBuffers_send b (pr_serialize pr (CC_Query q)) (threshold ct1) (udp a) w1 = Some (r2, b', w')"
        "ct' = set_listener_state ct1 i (Compatible b' t)"
        by (auto simp: Client_query_def run_simps Let_def)
      with send_listener_step [OF wf assms(3) i Compatible] st show ?thesis
        by (metis rtranclp.rtrancl_into_rtrancl)
    qed (use assms(1) add st Inr in \<open>simp_all add: Client_query_def\<close>)
  qed
qed

text \<open>\<open>connect\<close> is guarded if the server is the first listener.\<close>

definition first_or_new :: "'ce Client \<Rightarrow> SocketAddr \<Rightarrow> bool" where
  "first_or_new ct a \<longleftrightarrow> (case addrs (ct_listeners ct) of [] \<Rightarrow> True | b # bs \<Rightarrow> a \<notin> set bs)"

text \<open>A listener that is compatible is not new, so it is the first one if the address is first or new.\<close>

lemma compatible_listener_first:
  assumes "Client_get_or_add_listener ct a w = Some (Inr i, ct1, w1)" "sl_state (ct_listeners ct1 ! i) = Compatible b t"
    and "first_or_new ct a"
  shows "i = 0"
proof -
  have "position (listens_to a) (ct_listeners ct) = Some i"
    using assms(1,2)
    by (auto simp: Client_get_or_add_listener_def ServerListener_new_def run_simps
        dest: pending_version_query_state split: option.split_asm)
  then have "i < length (ct_listeners ct)" "addrs (ct_listeners ct) ! i = a"
    using position_listens_to by fastforce+
  with assms(3) show "i = 0" by (cases i; cases "ct_listeners ct") (auto simp: first_or_new_def)
qed

lemma Client_connect_steps:
  assumes "Client_connect pr ct sc pa con w = Some (r, ct', w')" "client_wf ct" "protocol_ok pr"
    and "\<And>a. g \<Longrightarrow> pa = Inr a \<Longrightarrow> first_or_new ct a"
  shows "(client_step g)\<^sup>*\<^sup>* ct ct'"
proof (cases "ct_state ct = Disconnected \<and> sc \<noteq> Inl (projl sc) \<and> pa \<noteq> Inl (projl pa)")
  case False
  with assms(1) have "ct' = ct" by (auto simp: Client_connect_def split: if_split_asm sum.split_asm)
  then show ?thesis by simp
next
  case True
  then obtain u a where sc: "ct_state ct = Disconnected" "sc = Inr u" "pa = Inr a" by (cases sc; cases pa) auto
  with assms(1) obtain r1 ct1 w1 where add: "Client_get_or_add_listener ct a w = Some (r1, ct1, w1)"
    by (auto simp: Client_connect_def run_simps)
  note st1 = get_or_add_listener_steps(1) [OF add, of g] and st = get_or_add_listener_steps(2-4) [OF add]
  have wf: "client_wf ct1" using client.steps_invar [OF st1 assms(2)] .
  show ?thesis
  proof (cases r1)
    case (Inl e)
    with assms(1) add sc st1 show ?thesis by (simp add: Client_connect_def)
  next
    case (Inr i)
    then have i: "i < length (ct_listeners ct1)" using st(3) by blast
    show ?thesis
    proof (cases "sl_state (ct_listeners ct1 ! i)")
      case (Compatible b t)
      with assms(1) add Inr sc obtain r2 b' where send:
        "PacketBuffers_send b (pr_serialize pr (CC_Connect con)) (threshold ct1) (udp a) w1 = Some (r2, b', w')"
        by (auto simp: Client_connect_def run_simps Let_def)
      let ?ct = "set_listener_state ct1 i (Compatible b' t)"
      have s1: "(client_step g)\<^sup>*\<^sup>* ct ?ct"
        using send_listener_step [OF wf assms(3) i Compatible send, of g] st1 by simp
      have "client_step g ?ct (?ct\<lparr>ct_state := Connecting\<rparr>)"
      proof (rule client_step.connect [where i = i])
        show "i = 0" if g
          using compatible_listener_first [OF _ Compatible assms(4) [OF that sc(3)]] add Inr by blast
      qed (use sc st(1) i in simp_all)
      with s1 assms(1) add Inr sc Compatible send show ?thesis
        by (auto simp: Client_connect_def Let_def split: sum.split_asm)
    qed (use assms(1) add st1 Inr sc in \<open>simp_all add: Client_connect_def\<close>)
  qed
qed

text \<open>\<open>disconnect\<close> and \<open>send\<close> go to the first listener; an I/O error removes it and the connection.\<close>

lemma drop_connection_steps:
  assumes "swap_remove (ct_listeners ct) 0 = Some ls"
  shows "(client_step g)\<^sup>*\<^sup>* ct (ct\<lparr>ct_listeners := ls, ct_state := Disconnected\<rparr>)"
proof (rule steps2)
  show "client_step g ct (ct\<lparr>ct_state := Disconnected\<rparr>)"
    by (intro client_step.state state_step.lost)
  show "client_step g (ct\<lparr>ct_state := Disconnected\<rparr>) (ct\<lparr>ct_listeners := ls, ct_state := Disconnected\<rparr>)"
    using client_step.forget [of "ct\<lparr>ct_state := Disconnected\<rparr>" 0 ls g] assms by simp
qed

lemma first_listener_send:
  assumes "client_wf ct" "protocol_ok pr" "ct_listeners ct = l # ls" "sl_state l = Compatible b t"
    and "PacketBuffers_send b (pr_serialize pr x) n socket w = Some (r, b', w')"
  shows "client_step g ct (set_listener_state ct 0 (Compatible b' t))"
  using send_listener_step [OF assms(1,2), of 0] assms(3-5) by simp

lemma Client_disconnect_steps:
  assumes "Client_disconnect pr ct x w = Some (r, ct', w')" "client_wf ct" "protocol_ok pr"
  shows "(client_step g)\<^sup>*\<^sup>* ct ct'"
proof (cases "ct_state ct = Connected")
  case False
  with assms(1) show ?thesis by (simp add: Client_disconnect_def)
next
  case True
  with assms(1) obtain l ls b t where l: "ct_listeners ct = l # ls" "sl_state l = Compatible b t"
    by (auto simp: Client_disconnect_def split: list.split_asm ServerState.split_asm)
  with assms(1) True obtain r2 b' w2 where send: "PacketBuffers_send b (pr_serialize pr (CC_Disconnect x))
      (threshold ct) (udp (sl_server_addr l)) w = Some (r2, b', w2)"
    by (auto simp: Client_disconnect_def run_simps)
  let ?ct = "set_listener_state ct 0 (Compatible b' t)"
  note st = first_listener_send [OF assms(2,3) l send, of g]
  show ?thesis
  proof (cases r2)
    case (Inr i)
    with assms(1) True l send have ct': "ct' = ?ct\<lparr>ct_state := Disconnecting\<rparr>"
      by (simp add: Client_disconnect_def Let_def)
    have "client_step g ?ct ct'"
      unfolding ct' using True by (intro client_step.state) (simp add: state_step.leaving)
    with st show ?thesis by (rule steps2)
  next
    case (Inl e)
    with assms(1) True l send obtain ls' where
      "swap_remove (ct_listeners ?ct) 0 = Some ls'" "ct' = ?ct\<lparr>ct_listeners := ls', ct_state := Disconnected\<rparr>"
      by (auto simp: Client_disconnect_def Let_def bind_eq_Some_conv)
    with drop_connection_steps [of ?ct ls' g] st show ?thesis
      by (simp add: converse_rtranclp_into_rtranclp)
  qed
qed

lemma Client_send_steps:
  assumes "Client_send pr ct x w = Some (r, ct', w')" "client_wf ct" "protocol_ok pr"
  shows "(client_step g)\<^sup>*\<^sup>* ct ct'"
proof (cases "ct_state ct = Connected")
  case False
  with assms(1) show ?thesis by (simp add: Client_send_def)
next
  case True
  with assms(1) obtain l ls b t where l: "ct_listeners ct = l # ls" "sl_state l = Compatible b t"
    by (auto simp: Client_send_def split: list.split_asm ServerState.split_asm)
  with assms(1) True obtain r2 b' w2 where send: "PacketBuffers_send b (pr_serialize pr (CC_User x))
      (threshold ct) (udp (sl_server_addr l)) w = Some (r2, b', w2)"
    by (auto simp: Client_send_def run_simps)
  let ?ct = "set_listener_state ct 0 (Compatible b' t)"
  note st = first_listener_send [OF assms(2,3) l send, of g]
  show ?thesis
  proof (cases r2)
    case (Inr i)
    with assms(1) True l send st show ?thesis by (simp add: Client_send_def Let_def)
  next
    case (Inl e)
    with assms(1) True l send obtain ls' where
      "swap_remove (ct_listeners ?ct) 0 = Some ls'" "ct' = ?ct\<lparr>ct_listeners := ls', ct_state := Disconnected\<rparr>"
      by (auto simp: Client_send_def Let_def bind_eq_Some_conv)
    with drop_connection_steps [of ?ct ls' g] st show ?thesis
      by (simp add: converse_rtranclp_into_rtranclp)
  qed
qed

section \<open>Updating\<close>

text \<open>One listener of the first pass of \<open>update\<close>: it is kept with a state that changed in place, or
  removed; the lent client state is reset exactly when a compatible listener is removed.\<close>

lemma ServerListener_update_cases:
  assumes "ServerListener_update handler cf l lent h w = Some (keep, l', lent', h', w')"
    and "state_wf (sl_state l)"
  obtains (kept) s where "keep" "lent' = lent" "l' = l\<lparr>sl_state := s\<rparr>" "state_wf s"
      "is_compatible s = is_compatible (sl_state l)"
    | (removed) "\<not> keep" "lent' = (if is_compatible (sl_state l) then map_option (\<lambda>_. Disconnected) lent else lent)"
proof (cases "sl_state l")
  case (PendingVersion v)
  with assms have "(keep \<and> lent' = lent \<and> (\<exists>v. l' = l\<lparr>sl_state := PendingVersion v\<rparr>)) \<or> (\<not> keep \<and> lent' = lent)"
    by (cases l) (auto simp: ServerListener_update_def run_simps Instant_now_def Instant_elapsed_def
        split: if_split_asm option.split_asm)
  with PendingVersion that show ?thesis by (metis is_compatible_simps(1) state_wf_simps(1))
next
  case (Compatible b t)
  with assms(1) obtain r b' w1 where u: "PacketBuffers_update b (cf_resend_delay (cc_connection cf))
      (cf_max_missed_acks (cc_connection cf)) (cf_receive_timeout (cc_connection cf))
      (udp (sl_server_addr l)) w = Some (r, b', w1)"
    by (auto simp: ServerListener_update_def bind_eq_Some_conv)
  have "buffers_wf b'" using buffers.update_invar [OF _ u] assms(2) Compatible by simp
  with u assms(1) Compatible that show ?thesis
    by (cases r) (auto simp: ServerListener_update_def Let_def)
next
  case (Incompatible e)
  with assms that(1) [of "sl_state l"] show ?thesis by (simp add: ServerListener_update_def)
qed

lemma update_listeners_steps:
  assumes "update_listeners handler cf lend st ls h w = Some (ls', st', h', w')"
    and "\<forall>l \<in> set ls. state_wf (sl_state l)"
    and "lend \<Longrightarrow> us = []"
    and "g \<Longrightarrow> us = [] \<Longrightarrow> st = Disconnected \<or> (lend \<and> ls \<noteq> [] \<and> is_compatible (sl_state (hd ls)))"
  shows "(client_step g)\<^sup>*\<^sup>* (ct\<lparr>ct_listeners := us @ ls, ct_state := st\<rparr>)
    (ct\<lparr>ct_listeners := us @ ls', ct_state := st'\<rparr>)"
  using assms
proof (induction ls arbitrary: us lend st h w ls')
  case Nil
  then show ?case by simp
next
  case (Cons l ls)
  from Cons.prems(1) obtain keep l' lent h1 w1 ls1 where
    u: "ServerListener_update handler cf l (if lend then Some st else None) h w = Some (keep, l', lent, h1, w1)"
    and r: "update_listeners handler cf False (case lent of None \<Rightarrow> st | Some st \<Rightarrow> st) ls h1 w1 = Some (ls1, st', h', w')"
      "ls' = (if keep then l' # ls1 else ls1)"
    by (auto simp: bind_eq_Some_conv)
  let ?ct = "\<lambda>ls st. ct\<lparr>ct_listeners := ls, ct_state := st\<rparr>"
  have wf: "state_wf (sl_state l)" "\<forall>l \<in> set ls. state_wf (sl_state l)" using Cons.prems(2) by simp_all
  from u wf(1) show ?case
  proof (cases rule: ServerListener_update_cases)
    case (kept s)
    have "client_step g (?ct (us @ l # ls) st) (set_listener_state (?ct (us @ l # ls) st) (length us) s)"
      using kept(4,5) by (intro client_step.listener) simp_all
    then have 1: "client_step g (?ct (us @ l # ls) st) (?ct ((us @ [l']) @ ls) st)"
      by (simp add: set_listener_state_def kept(3))
    have "(client_step g)\<^sup>*\<^sup>* (?ct ((us @ [l']) @ ls) st) (?ct ((us @ [l']) @ ls1) st')"
      using r(1) kept(2) wf(2) by (intro Cons.IH [where lend = False]) (simp_all split: if_split_asm)
    with 1 show ?thesis using kept(1) r(2) by (simp add: converse_rtranclp_into_rtranclp)
  next
    case removed
    let ?st = "case lent of None \<Rightarrow> st | Some st \<Rightarrow> st"
    have st: "?st = st \<or> ?st = Disconnected" using removed(2) by (auto split: if_split_asm)
    have g: "?st = Disconnected" if g "us = []"
      using Cons.prems(4) [OF that] removed(2) by (auto split: if_split_asm)
    have "client_step g (?ct (us @ l # ls) st) (?ct (us @ ls) ?st)"
      using client_step.remove [of "?ct (us @ l # ls) st" us l ls ?st g] st g by simp
    moreover have "(client_step g)\<^sup>*\<^sup>* (?ct (us @ ls) ?st) (?ct (us @ ls1) st')"
      using r(1) wf(2) g by (intro Cons.IH [where lend = False]) simp_all
    ultimately show ?thesis using removed(1) r(2) by (simp add: converse_rtranclp_into_rtranclp)
  qed
qed

lemma timeout_listeners_steps:
  assumes "timeout_listeners handler cf st ls h w = (ls', st', h', w')"
  shows "(client_step g)\<^sup>*\<^sup>* (ct\<lparr>ct_listeners := us @ ls, ct_state := st\<rparr>)
    (ct\<lparr>ct_listeners := us @ ls', ct_state := st'\<rparr>)"
  using assms
proof (induction ls arbitrary: us st h w ls')
  case Nil
  then show ?case by simp
next
  case (Cons l ls)
  let ?ct = "\<lambda>ls st. ct\<lparr>ct_listeners := ls, ct_state := st\<rparr>"
  consider (kept) h1 w1 ls1 where "timeout_listeners handler cf st ls h1 w1 = (ls1, st', h', w')" "ls' = l # ls1"
    | (removed) h1 w1 where "timeout_listeners handler cf Disconnected ls h1 w1 = (ls', st', h', w')"
    using Cons.prems
    by (auto simp: Let_def split: ServerState.split_asm option.split_asm prod.split_asm if_split_asm)
  then show ?case
  proof cases
    case kept
    then show ?thesis using Cons.IH [OF kept(1), of "us @ [l]"] by simp
  next
    case removed
    have "client_step g (?ct (us @ l # ls) st) (?ct (us @ ls) Disconnected)"
      using client_step.remove [of "?ct (us @ l # ls) st" us l ls Disconnected g] by simp
    with Cons.IH [OF removed(1), of us] show ?thesis by (simp add: converse_rtranclp_into_rtranclp)
  qed
qed

text \<open>A datagram: the listener it came from changes in place, and the state of the client only along
  \<open>state_step\<close>.\<close>

lemma handle_connection_packet_state:
  "Client_handle_connection_packet handler st first a p h = (st', h') \<Longrightarrow> state_step st st'"
  by (auto simp: Client_handle_connection_packet_def state_step.simps
      split: ServerConnectionPacket.split_asm if_split_asm)

lemma Client_handle_pending_steps:
  assumes "Client_handle_pending pr handler ct i a buf h w = (ct', h', w')"
    and "client_wf ct" "i < length (ct_listeners ct)" "\<not> is_compatible (sl_state (ct_listeners ct ! i))"
  shows "(client_step g)\<^sup>*\<^sup>* ct ct'"
proof -
  have b: "buffers_wf (PacketBuffers_new (cf_initial_send_batch_size (cc_connection (ct_config ct))))"
    using assms(2) by (simp add: client_wf_def config_wf_def PacketBuffers_new_wf)
  have upd: "(client_step g)\<^sup>*\<^sup>* ct (set_listener_state ct i s)" if "state_wf s" for s
    using that assms(3,4) by (auto intro: client_step.listener)
  show ?thesis
    using assms(1) b upd
    by (auto simp: Client_handle_pending_def ServerState_compatible_def ServerState_incompatible_def Let_def
        split: list.split_asm if_split_asm sum.split_asm prod.split_asm)
qed

lemma Client_handle_compatible_cases:
  assumes "Client_handle_compatible pr handler ct i first b a buf h w = Some (ct', h', w')"
    and "i < length (ct_listeners ct)"
  obtains (ping) t where "first" "ct' = set_listener_state ct i (Compatible b t)
        \<or> ct' = (set_listener_state ct i (Compatible b t))\<lparr>ct_state := Disconnected\<rparr>"
    | (handled) r b' w1 w2 t where "PacketBuffers_handle b buf (udp a) w1 = Some (r, b', w2)"
        "ct' = set_listener_state ct i (Compatible b' t) \<or>
         (\<exists>bytes p h1 h2 st. r = Inr (HandlingReceived (Reassembled bytes)) \<and> pr_check_archived_root pr bytes = Inr p \<and>
           Client_handle_connection_packet handler (ct_state ct) first a p h1 = (st, h2) \<and>
           ct' = (set_listener_state ct i (Compatible b' t))\<lparr>ct_state := st\<rparr>)"
proof (cases "first \<and> buf \<noteq> [] \<and> PacketKind_try_from (hd buf) = Some Kind_Ping")
  case True
  obtain t w1 where now: "Instant_now w = (t, w1)" by (cases "Instant_now w")
  from assms(1) True now obtain r w2 where "udp a buf w1 = Some (r, w2)"
    by (auto simp: Client_handle_compatible_def Let_def bind_eq_Some_conv)
  with assms(1) True now ping [of t] show ?thesis
    by (cases r) (auto simp: Client_handle_compatible_def Let_def)
next
  case False
  obtain t w1 where now: "Instant_now w = (t, w1)" by (cases "Instant_now w")
  from assms(1) False now obtain r b' w2 where hb: "PacketBuffers_handle b buf (udp a) w1 = Some (r, b', w2)"
    by (auto simp: Client_handle_compatible_def Let_def bind_eq_Some_conv)
  have "ct' = set_listener_state ct i (Compatible b' t) \<or>
         (\<exists>bytes p h1 h2 st. r = Inr (HandlingReceived (Reassembled bytes)) \<and> pr_check_archived_root pr bytes = Inr p \<and>
           Client_handle_connection_packet handler (ct_state ct) first a p h1 = (st, h2) \<and>
           ct' = (set_listener_state ct i (Compatible b' t))\<lparr>ct_state := st\<rparr>)"
    using assms False now hb
    by (auto simp: Client_handle_compatible_def Let_def split: sum.split_asm PacketHandling.split_asm
        ReceivedPacket.split_asm prod.split_asm)
  with hb show ?thesis by (rule handled)
qed

lemma Client_handle_compatible_steps:
  assumes "Client_handle_compatible pr handler ct i first b a buf h w = Some (ct', h', w')"
    and "buffers_wf b" "i < length (ct_listeners ct)"
  shows "(client_step g)\<^sup>*\<^sup>* ct ct'"
proof -
  have upd: "client_step g ct (set_listener_state ct i (Compatible b' t))" if "buffers_wf b'" for b' t
    using that assms(3) by (intro client_step.listener) simp_all
  have upd_state: "(client_step g)\<^sup>*\<^sup>* ct ((set_listener_state ct i (Compatible b' t))\<lparr>ct_state := st\<rparr>)"
    if "buffers_wf b'" "state_step (ct_state ct) st" for b' t st
  proof (rule steps2)
    show "client_step g ct (set_listener_state ct i (Compatible b' t))" using that(1) by (rule upd)
    show "client_step g (set_listener_state ct i (Compatible b' t))
        ((set_listener_state ct i (Compatible b' t))\<lparr>ct_state := st\<rparr>)"
      using that(2) by (intro client_step.state) simp
  qed
  from assms(1,3) show ?thesis
  proof (cases rule: Client_handle_compatible_cases)
    case (ping t)
    with upd [of b t] upd_state [of b Disconnected t] assms(2) state_step.lost show ?thesis by auto
  next
    case (handled r b' w1 w2 t)
    have "buffers_wf b'" using buffers.handle_invar [OF assms(2) handled(1)] .
    with handled(2) upd [of b' t] upd_state [of b' _ t] show ?thesis
      by (auto dest: handle_connection_packet_state)
  qed
qed

lemma Client_handle_packet_steps:
  assumes "Client_handle_packet pr handler ct a buf h w = Some (ct', h', w')" "client_wf ct"
  shows "(client_step g)\<^sup>*\<^sup>* ct ct'"
proof (cases "position (listens_to a) (ct_listeners ct)")
  case None
  with assms(1) show ?thesis by (simp add: Client_handle_packet_def)
next
  case (Some i)
  note i = position_listens_to [OF Some]
  show ?thesis
  proof (cases "sl_state (ct_listeners ct ! i)")
    case (PendingVersion v)
    with assms(1) Some Client_handle_pending_steps [OF _ assms(2) i(1)] show ?thesis
      by (auto simp: Client_handle_packet_def)
  next
    case (Compatible b t)
    with assms(1) Some Client_handle_compatible_steps [OF _ client_listener_wf [OF assms(2) i(1) Compatible] i(1)]
    show ?thesis by (auto simp: Client_handle_packet_def)
  next
    case (Incompatible e)
    with assms(1) Some show ?thesis by (simp add: Client_handle_packet_def)
  qed
qed

lemma client_packets_loop_steps:
  assumes "client_packets_loop pr handler ct inbox pb h w = Some (ct', h', w')" "client_wf ct"
  shows "(client_step g)\<^sup>*\<^sup>* ct ct'"
  using assms
proof (induction pr handler ct inbox pb h w rule: client_packets_loop.induct)
  case (1 pr handler ct inbox pb h w)
  obtain d inbox' pb1 h1 where r: "recv handler inbox pb h = (d, inbox', pb1, h1)" by (metis prod_cases4)
  show ?case
  proof (cases d)
    case None
    with "1.prems"(1) r show ?thesis by (simp add: client_packets_loop.simps)
  next
    case (Some x)
    obtain a buf where x: "x = (a, buf)" by (cases x)
    from "1.prems"(1) Some x r obtain ct1 h2 w2 where s:
      "Client_handle_packet pr handler ct a buf h1 w = Some (ct1, h2, w2)"
      "client_packets_loop pr handler ct1 inbox' pb1 h2 w2 = Some (ct', h', w')"
      by (auto simp: client_packets_loop.simps [of pr handler ct] bind_eq_Some_conv)
    show ?thesis
    proof (rule client.steps_extend(1) [OF "1.prems"(2)])
      show "(client_step g)\<^sup>*\<^sup>* ct ct1" by (rule Client_handle_packet_steps [OF s(1) "1.prems"(2)])
      show "(client_step g)\<^sup>*\<^sup>* ct1 ct'" if "client_wf ct1"
        using "1.IH" [OF r [symmetric] Some x [symmetric] refl refl s(1) refl refl s(2) that] .
    qed
  qed
qed

lemma Client_timeout_connection_steps:
  assumes "Client_timeout_connection handler ct h w = (ct', h', w')"
  shows "(client_step g)\<^sup>*\<^sup>* ct ct'"
proof -
  obtain ls st h1 w1 where t:
    "timeout_listeners handler (ct_config ct) (ct_state ct) (ct_listeners ct) h w = (ls, st, h1, w1)"
    by (metis prod_cases4)
  have "ct\<lparr>ct_listeners := ct_listeners ct, ct_state := ct_state ct\<rparr> = ct" by simp
  with timeout_listeners_steps [OF t, where us = "[]" and ct = ct and g = g] assms t show ?thesis
    by (simp add: Client_timeout_connection_def)
qed

theorem Client_update_steps:
  assumes "Client_update pr handler ct inbox h w = Some (ct', h', w')" "client_wf ct"
    and "g \<Longrightarrow> connection_first ct"
  shows "(client_step g)\<^sup>*\<^sup>* ct ct'"
proof -
  from assms(1) obtain ls st h1 w1 ct2 h2 w2 where u:
    "update_listeners handler (ct_config ct) (ct_state ct \<noteq> Disconnected) (ct_state ct) (ct_listeners ct) h w
      = Some (ls, st, h1, w1)"
    "client_packets_loop pr handler (ct\<lparr>ct_listeners := ls, ct_state := st\<rparr>) inbox (replicate PACKET_BUFFER_SIZE 0) h1 w1
      = Some (ct2, h2, w2)"
    "Client_timeout_connection handler ct2 h2 w2 = (ct', h', w')"
    by (auto simp: Client_update_def bind_eq_Some_conv)
  have eq: "ct\<lparr>ct_listeners := ct_listeners ct, ct_state := ct_state ct\<rparr> = ct" by simp
  have "(client_step g)\<^sup>*\<^sup>* (ct\<lparr>ct_listeners := [] @ ct_listeners ct, ct_state := ct_state ct\<rparr>)
      (ct\<lparr>ct_listeners := [] @ ls, ct_state := st\<rparr>)"
    using assms(2,3)
    by (intro update_listeners_steps [OF u(1)]) (auto simp: client_wf_def connection_first_def)
  then have s1: "(client_step g)\<^sup>*\<^sup>* ct (ct\<lparr>ct_listeners := ls, ct_state := st\<rparr>)" using eq by simp
  have "(client_step g)\<^sup>*\<^sup>* ct ct2"
    by (rule client.steps_extend(1) [OF assms(2) s1]) (rule client_packets_loop_steps [OF u(2)])
  then show ?thesis using Client_timeout_connection_steps [OF u(3)] by (rule rtranclp_trans)
qed

lemma Client_with_config_wf:
  "config_wf (cc_connection config) \<Longrightarrow> Client_with_config b n config = Inr ct \<Longrightarrow>
     client_wf ct \<and> connection_first ct"
  by (auto simp: Client_with_config_def client_wf_def connection_first_def split: sum.split_asm)

section \<open>The state machine\<close>

lemma Client_handle_pending_state:
  "ct_state (fst (Client_handle_pending pr handler ct i a buf h w)) = ct_state ct"
  by (auto simp: Client_handle_pending_def Let_def split: list.split sum.split prod.split)

text \<open>Only packets of the connection change the state, and only an accept packet connects.\<close>

lemma connection_packet_change:
  assumes "Client_handle_connection_packet handler st first a p h = (st', h')"
  shows "st' \<noteq> st \<Longrightarrow> first" "st' = Connected \<Longrightarrow> st \<noteq> Connected \<Longrightarrow> st = Connecting \<and> (\<exists>acc. p = SC_Accept acc)"
  using assms
  by (auto simp: Client_handle_connection_packet_def split: ServerConnectionPacket.split_asm if_split_asm)

text \<open>A datagram makes the client connected only if it completes an accept packet from the first
  listener while the client is connecting.\<close>

lemma Client_handle_packet_state:
  assumes "Client_handle_packet pr handler ct a buf h w = Some (ct', h', w')" "client_wf ct"
  shows "state_step (ct_state ct) (ct_state ct')"
    "ct_state ct' = ct_state ct \<or> ct_state ct = Disconnected \<or>
       (\<exists>l ls. ct_listeners ct = l # ls \<and> sl_server_addr l = a)"
    "ct_state ct' = Connected \<Longrightarrow> ct_state ct \<noteq> Connected \<Longrightarrow>
       ct_state ct = Connecting \<and>
       (\<exists>l ls b t w1 b' w2 bytes acc. ct_listeners ct = l # ls \<and> sl_server_addr l = a \<and> sl_state l = Compatible b t \<and>
          PacketBuffers_handle b buf (udp a) w1 = Some (Inr (HandlingReceived (Reassembled bytes)), b', w2) \<and>
          pr_check_archived_root pr bytes = Inr (SC_Accept acc))"
proof -
  let ?first = "\<exists>l ls. ct_listeners ct = l # ls \<and> sl_server_addr l = a"
  let ?accept = "ct_state ct = Connecting \<and>
       (\<exists>l ls b t w1 b' w2 bytes acc. ct_listeners ct = l # ls \<and> sl_server_addr l = a \<and> sl_state l = Compatible b t \<and>
          PacketBuffers_handle b buf (udp a) w1 = Some (Inr (HandlingReceived (Reassembled bytes)), b', w2) \<and>
          pr_check_archived_root pr bytes = Inr (SC_Accept acc))"
  have "state_step (ct_state ct) (ct_state ct') \<and> (ct_state ct' = ct_state ct \<or> ct_state ct = Disconnected \<or> ?first) \<and>
      (ct_state ct' = Connected \<longrightarrow> ct_state ct \<noteq> Connected \<longrightarrow> ?accept)"
  proof (cases "ct_state ct' = ct_state ct")
    case True
    then show ?thesis by (simp add: state_step.keep)
  next
    case False
    then obtain i b t where i: "position (listens_to a) (ct_listeners ct) = Some i"
      "sl_state (ct_listeners ct ! i) = Compatible b t"
      using assms(1) Client_handle_pending_state [of pr handler ct _ a buf h w]
      by (auto simp: Client_handle_packet_def split: option.split_asm ServerState.split_asm) (metis fst_conv)
    let ?c = "i = 0 \<and> ct_state ct \<noteq> Disconnected"
    have run: "Client_handle_compatible pr handler ct i ?c b a buf h w = Some (ct', h', w')"
      using assms(1) i by (simp add: Client_handle_packet_def)
    have first: ?first if ?c
      using that position_listens_to [OF i(1)] by (cases "ct_listeners ct") auto
    from run position_listens_to(1) [OF i(1)] show ?thesis
    proof (cases rule: Client_handle_compatible_cases)
      case (ping t')
      with False first show ?thesis by (auto simp: state_step.lost)
    next
      case (handled r b' w1 w2 t')
      with False obtain bytes p h1 h2 where p: "r = Inr (HandlingReceived (Reassembled bytes))"
        "pr_check_archived_root pr bytes = Inr p"
        "Client_handle_connection_packet handler (ct_state ct) ?c a p h1 = (ct_state ct', h2)"
        by auto
      have st: "state_step (ct_state ct) (ct_state ct')" using handle_connection_packet_state [OF p(3)] .
      have c: ?c using connection_packet_change(1) [OF p(3)] False by simp
      have "?accept" if now: "ct_state ct' = Connected" "ct_state ct \<noteq> Connected"
      proof -
        obtain acc where "p = SC_Accept acc" "ct_state ct = Connecting"
          using connection_packet_change(2) [OF p(3)] now by blast
        moreover obtain l ls where "ct_listeners ct = l # ls" "sl_server_addr l = a" using first c by blast
        ultimately show ?thesis using handled(1) p(1,2) i(2) c by auto blast
      qed
      with st first c show ?thesis by blast
    qed
  qed
  then show "state_step (ct_state ct) (ct_state ct')"
    "ct_state ct' = ct_state ct \<or> ct_state ct = Disconnected \<or> ?first"
    "ct_state ct' = Connected \<Longrightarrow> ct_state ct \<noteq> Connected \<Longrightarrow> ?accept" by blast+
qed

section \<open>Pings are answered unchanged\<close>

lemma Client_ping_echo:
  assumes "ct_state ct \<noteq> Disconnected" "ct_listeners ct = l # ls" "sl_state l = Compatible b t"
    and "PacketKind_try_from k = Some Kind_Ping" "udp (sl_server_addr l) (k # buf) (w\<lparr>ticks := Suc (ticks w)\<rparr>) = Some (Inr True, w')"
  shows "Client_handle_packet pr handler ct (sl_server_addr l) (k # buf) h w =
      Some (set_listener_state ct 0 (Compatible b (clock w (ticks w))), kh_ping handler h, w')"
    "sent w' = sent w @ [(sl_server_addr l, k # buf)]"
proof -
  have "position (listens_to (sl_server_addr l)) (ct_listeners ct) = Some 0"
    by (simp add: position_Some_iff assms(2) listens_to_def)
  then show "Client_handle_packet pr handler ct (sl_server_addr l) (k # buf) h w =
      Some (set_listener_state ct 0 (Compatible b (clock w (ticks w))), kh_ping handler h, w')"
    using assms by (simp add: Client_handle_packet_def Client_handle_compatible_def Instant_now_def Let_def)
  show "sent w' = sent w @ [(sl_server_addr l, k # buf)]"
    using udp.send_log [OF assms(5)] by simp
qed

section \<open>No panics\<close>

lemma send_version_query_total:
  assumes "whole_datagrams w"
  shows "\<exists>r w'. send_version_query (udp a) w = Some (r, w') \<and> same_env w w'"
  using udp.sendE [OF assms, of a "[]"] by (metis send_version_query_def)

lemma pending_version_query_total:
  assumes "whole_datagrams w"
  shows "\<exists>r w'. pending_version_query a w = Some (r, w') \<and> same_env w w'"
proof -
  obtain r w' where "send_version_query (udp a) w = Some (r, w')" "same_env w w'"
    using send_version_query_total [OF assms] by blast
  then show ?thesis
    by (cases r) (auto simp: pending_version_query_def Instant_now_def)
qed

lemma get_or_add_listener_total:
  assumes "whole_datagrams w"
  shows "\<exists>r ct' w'. Client_get_or_add_listener ct a w = Some (r, ct', w') \<and> same_env w w'"
proof -
  obtain r w' where "(pending_version_query a w :: ('a ServerState io_result \<times> world) option) = Some (r, w')" "same_env w w'"
    using pending_version_query_total [OF assms] by blast
  then show ?thesis
    by (cases r)
      (auto simp: Client_get_or_add_listener_def ServerListener_new_def split: option.split)
qed

lemma Client_send_total:
  assumes "whole_datagrams w" "client_wf ct" "connection_first ct" "protocol_ok pr"
  shows "Client_send pr ct x w \<noteq> None"
proof (cases "ct_state ct = Connected")
  case False
  then show ?thesis by (simp add: Client_send_def)
next
  case True
  with assms(3) obtain l ls b t where l: "ct_listeners ct = l # ls" "sl_state l = Compatible b t"
    by (auto simp: connection_first_def elim: is_compatibleE)
  have "buffers_wf b" using client_listener_wf [OF assms(2), of 0] l by simp
  then obtain r b' w' where "PacketBuffers_send b (pr_serialize pr (CC_User x)) (threshold ct)
      (udp (sl_server_addr l)) w = Some (r, b', w')"
    using udp.PacketBuffers_send_total [OF assms(1), of b "pr_serialize pr (CC_User x)"] assms(4)
    by (auto simp: protocol_ok_def) metis
  with True l show ?thesis
    by (auto simp: Client_send_def swap_remove_def set_listener_state_def Let_def split: sum.split)
qed

lemma Client_disconnect_total:
  assumes "whole_datagrams w" "client_wf ct" "connection_first ct" "protocol_ok pr"
  shows "Client_disconnect pr ct x w \<noteq> None"
proof (cases "ct_state ct = Connected")
  case False
  then show ?thesis by (simp add: Client_disconnect_def)
next
  case True
  with assms(3) obtain l ls b t where l: "ct_listeners ct = l # ls" "sl_state l = Compatible b t"
    by (auto simp: connection_first_def elim: is_compatibleE)
  have "buffers_wf b" using client_listener_wf [OF assms(2), of 0] l by simp
  then obtain r b' w' where "PacketBuffers_send b (pr_serialize pr (CC_Disconnect x)) (threshold ct)
      (udp (sl_server_addr l)) w = Some (r, b', w')"
    using udp.PacketBuffers_send_total [OF assms(1), of b "pr_serialize pr (CC_Disconnect x)"] assms(4)
    by (auto simp: protocol_ok_def) metis
  with True l show ?thesis
    by (auto simp: Client_disconnect_def swap_remove_def set_listener_state_def Let_def split: sum.split)
qed

lemma Client_server_addr_total: "connection_first ct \<Longrightarrow> Client_server_addr ct \<noteq> None"
  by (auto simp: connection_first_def Client_server_addr_def split: ClientState.split)

lemma Client_forget_total: "Client_forget ct a \<noteq> None"
  by (auto simp: Client_forget_def swap_remove_def dest: position_listens_to split: option.split)

lemma Client_forget_all_total: "connection_first ct \<Longrightarrow> Client_forget_all ct \<noteq> None"
  by (auto simp: connection_first_def Client_forget_all_def)

lemma Client_handle_packet_total:
  assumes w: "whole_datagrams w"
    and safe: "\<forall>l \<in> set (ct_listeners ct). \<forall>b t. sl_server_addr l = a \<longrightarrow> sl_state l = Compatible b t \<longrightarrow> buffers_safe b buf"
  shows "\<exists>ct' h' w'. Client_handle_packet pr handler ct a buf h w = Some (ct', h', w') \<and> same_env w w'"
proof (cases "position (listens_to a) (ct_listeners ct)")
  case None
  then show ?thesis by (simp add: Client_handle_packet_def)
next
  case (Some i)
  note i = position_listens_to [OF Some]
  show ?thesis
  proof (cases "sl_state (ct_listeners ct ! i)")
    case (PendingVersion v)
    obtain ct' h' w' where p: "Client_handle_pending pr handler ct i a buf h w = (ct', h', w')"
      by (metis prod_cases3)
    then have "same_env w w'"
      by (auto simp: Client_handle_pending_def ServerState_compatible_def Instant_now_def Let_def
          split: list.split_asm if_split_asm sum.split_asm prod.split_asm)
    with p Some PendingVersion show ?thesis by (simp add: Client_handle_packet_def)
  next
    case (Compatible b t)
    obtain t' w1 where now: "Instant_now w = (t', w1)" "whole_datagrams w1" "same_env w w1"
      using w by (simp add: Instant_now_def whole_datagrams_def)
    obtain r1 w2 where ping: "udp a buf w1 = Some (r1, w2)" "same_env w w2"
      using udp.sendE [OF now(2)] same_env_trans [OF now(3)] by metis
    have "buffers_safe b buf" using safe i Compatible nth_mem by blast
    then obtain r b' w3 where hb: "PacketBuffers_handle b buf (udp a) w1 = Some (r, b', w3)" "same_env w w3"
      using udp.PacketBuffers_handle_total [OF now(2)] same_env_trans [OF now(3)] by metis
    have "\<exists>ct' h' w'. Client_handle_compatible pr handler ct i c b a buf h w = Some (ct', h', w') \<and> same_env w w'" for c
      using ping hb now(1)
      by (auto simp: Client_handle_compatible_def Let_def split: sum.split PacketHandling.split
          ReceivedPacket.split prod.split)
    with Some Compatible show ?thesis by (auto simp: Client_handle_packet_def)
  qed (use Some in \<open>simp add: Client_handle_packet_def\<close>)
qed

section \<open>Timeouts\<close>

text \<open>The pass over the listeners at the end of \<open>update\<close>, on a clock that does not run backwards: a
  server that was silent for longer than the timeout is removed and the client is disconnected; if
  none was silent that long at the last reading, nothing changes.\<close>

definition silent :: "Duration \<Rightarrow> Instant \<Rightarrow> 'ce ServerListener \<Rightarrow> bool" where
  "silent timeout now l = (case sl_state l of Compatible _ t \<Rightarrow> timeout < now - t | _ \<Rightarrow> False)"

lemma timeout_listeners_silent:
  assumes "timeout_listeners handler cf st ls h w = (ls', st', h', w')" "cc_timeout cf = Some d"
    and "\<And>k. ticks w \<le> k \<Longrightarrow> t0 \<le> clock w k \<and> clock w k \<le> t1"
  shows "set ls' \<subseteq> {l \<in> set ls. \<not> silent d t0 l}" "{l \<in> set ls. \<not> silent d t1 l} \<subseteq> set ls'"
    "\<exists>l \<in> set ls. silent d t0 l \<Longrightarrow> st' = Disconnected"
    "\<forall>l \<in> set ls. \<not> silent d t1 l \<Longrightarrow> ls' = ls \<and> st' = st"
    "st = Disconnected \<Longrightarrow> st' = Disconnected"
proof -
  have "set ls' \<subseteq> {l \<in> set ls. \<not> silent d t0 l} \<and> {l \<in> set ls. \<not> silent d t1 l} \<subseteq> set ls' \<and>
    ((\<exists>l \<in> set ls. silent d t0 l) \<longrightarrow> st' = Disconnected) \<and>
    ((\<forall>l \<in> set ls. \<not> silent d t1 l) \<longrightarrow> ls' = ls \<and> st' = st) \<and> (st = Disconnected \<longrightarrow> st' = Disconnected)"
    using assms
  proof (induction ls arbitrary: st h w ls')
    case Nil
    then show ?case by simp
  next
    case (Cons l ls)
    show ?case
    proof (cases "\<exists>b t. sl_state l = Compatible b t")
      case False
      then have l: "\<not> silent d t l" for t by (auto simp: silent_def split: ServerState.split)
      obtain ls1 where r: "timeout_listeners handler cf st ls h w = (ls1, st', h', w')" "ls' = l # ls1"
        using Cons.prems(1) False
        by (auto simp: Let_def split: ServerState.split_asm prod.split_asm)
      from Cons.IH [OF r(1) Cons.prems(2,3)] l show ?thesis by (auto simp: r(2))
    next
      case True
      then obtain b t where l: "sl_state l = Compatible b t" by blast
      let ?late = "d < clock w (ticks w) - t"
      let ?w = "w\<lparr>ticks := Suc (ticks w)\<rparr>"
      have now: "t0 \<le> clock w (ticks w)" "clock w (ticks w) \<le> t1" using Cons.prems(3) [of "ticks w"] by simp_all
      then have late: "silent d t0 l \<Longrightarrow> ?late" "?late \<Longrightarrow> silent d t1 l"
        using l by (auto simp: silent_def)
      obtain h1 ls1 where r:
        "timeout_listeners handler cf (if ?late then Disconnected else st) ls h1 ?w = (ls1, st', h', w')"
        "ls' = (if ?late then ls1 else l # ls1)"
        using Cons.prems(1,2) l
        by (auto simp: Let_def Instant_elapsed_def Instant_now_def split: prod.split_asm if_split_asm)
      have "\<And>k. ticks ?w \<le> k \<Longrightarrow> t0 \<le> clock ?w k \<and> clock ?w k \<le> t1" using Cons.prems(3) by simp
      from Cons.IH [OF r(1) Cons.prems(2) this] late show ?thesis
        unfolding r(2) by (cases ?late) auto
    qed
  qed
  then show "set ls' \<subseteq> {l \<in> set ls. \<not> silent d t0 l}" "{l \<in> set ls. \<not> silent d t1 l} \<subseteq> set ls'"
    "\<exists>l \<in> set ls. silent d t0 l \<Longrightarrow> st' = Disconnected"
    "\<forall>l \<in> set ls. \<not> silent d t1 l \<Longrightarrow> ls' = ls \<and> st' = st"
    "st = Disconnected \<Longrightarrow> st' = Disconnected" by blast+
qed

end
