(* ===== verification/Client_Total.thy ===== *)
theory Client_Total
  imports Client_Spec Buffers_Small
begin

text \<open>
  An update of the client returns: the passes over the listeners and the loop over the datagrams
  that have arrived end, and as long as every server sends packets of at most 255 parts nothing in
  them panics.
\<close>

definition state_small :: "'ce ServerState \<Rightarrow> bool" where
  "state_small s = (case s of Compatible b _ \<Rightarrow> small_buffers b | _ \<Rightarrow> True)"

definition client_small :: "'ce Client \<Rightarrow> bool" where
  "client_small ct \<longleftrightarrow> (\<forall>l \<in> set (ct_listeners ct). state_small (sl_state l))"

text \<open>The outgoing packets of all listeners can be resent.\<close>

definition state_resendable :: "'ce ServerState \<Rightarrow> bool" where
  "state_resendable s = (case s of Compatible b _ \<Rightarrow> buffers_ok b | _ \<Rightarrow> True)"

lemma Client_with_config_small: "Client_with_config b n config = Inr ct \<Longrightarrow> client_small ct"
  by (auto simp: Client_with_config_def client_small_def split: sum.split_asm)

lemma state_small_simps [simp]:
  "state_small (Compatible b t) = small_buffers b" "state_small (PendingVersion v)" "state_small (Incompatible e)"
  by (simp_all add: state_small_def)

lemma client_small_state [simp]: "client_small (ct\<lparr>ct_state := s\<rparr>) = client_small ct"
  by (simp add: client_small_def)

lemma client_small_set:
  "client_small ct \<Longrightarrow> state_small s \<Longrightarrow> client_small (set_listener_state ct i s)"
  unfolding client_small_def using set_listener_state_set by metis

lemma client_small_nth:
  "client_small ct \<Longrightarrow> i < length (ct_listeners ct) \<Longrightarrow> sl_state (ct_listeners ct ! i) = Compatible b t \<Longrightarrow> small_buffers b"
  unfolding client_small_def by (metis nth_mem state_small_simps(1))

lemma Client_handle_packet_small:
  assumes run: "Client_handle_packet pr handler ct a buf h w = Some (ct', h', w')"
    and sm: "client_small ct" "small_datagram buf"
  shows "client_small ct'"
proof (cases "position (listens_to a) (ct_listeners ct)")
  case None
  with run sm(1) show ?thesis by (simp add: Client_handle_packet_def)
next
  case (Some i)
  note i = position_listens_to(1) [OF Some]
  show ?thesis
  proof (cases "sl_state (ct_listeners ct ! i)")
    case (PendingVersion v)
    with run Some have "Client_handle_pending pr handler ct i a buf h w = (ct', h', w')"
      by (simp add: Client_handle_packet_def)
    then show ?thesis
      using sm(1)
      by (auto simp: Client_handle_pending_def ServerState_compatible_def ServerState_incompatible_def Let_def
          client_small_set split: list.split_asm if_split_asm sum.split_asm prod.split_asm)
  next
    case (Compatible b t)
    have b: "small_buffers b" using client_small_nth [OF sm(1) i Compatible] .
    from run Some Compatible have "Client_handle_compatible pr handler ct i (i = 0 \<and> ct_state ct \<noteq> Disconnected)
        b a buf h w = Some (ct', h', w')"
      by (simp add: Client_handle_packet_def)
    from this i show ?thesis
    proof (cases rule: Client_handle_compatible_cases)
      case (ping t)
      then show ?thesis using client_small_set [OF sm(1), of "Compatible b t"] b by auto
    next
      case (handled r b' w1 w2 t)
      have "small_buffers b'" using small_buffers_handle [OF handled(1) b sm(2)] .
      then show ?thesis using handled(2) client_small_set [OF sm(1), of "Compatible b' t"] by auto
    qed
  qed (use run Some sm(1) in \<open>simp add: Client_handle_packet_def\<close>)
qed

lemma client_packets_loop_total:
  assumes "whole_datagrams w" "client_small ct" "inbox_small inbox" "length pb = PACKET_BUFFER_SIZE"
  shows "\<exists>ct' h' w'. client_packets_loop pr handler ct inbox pb h w = Some (ct', h', w') \<and>
    client_small ct' \<and> same_env w w'"
  using assms
proof (induction inbox arbitrary: ct pb h w rule: length_induct)
  case (1 inbox)
  obtain d rest pb1 h1 where r: "recv handler inbox pb h = (d, rest, pb1, h1)" by (metis prod_cases4)
  show ?case
  proof (cases d)
    case None
    with r "1.prems"(2) show ?thesis by (simp add: client_packets_loop.simps)
  next
    case (Some x)
    obtain a buf where x: "d = Some (a, buf)" using Some by (cases x) simp
    note r' = r [unfolded x]
    note small = recv_small [OF r' "1.prems"(3,4)]
    have "\<forall>l \<in> set (ct_listeners ct). \<forall>b t. sl_server_addr l = a \<longrightarrow> sl_state l = Compatible b t \<longrightarrow> buffers_safe b buf"
      using "1.prems"(2) small_buffers_safe unfolding client_small_def by (metis state_small_simps(1))
    from Client_handle_packet_total [OF "1.prems"(1) this, of pr handler h1]
    obtain ct1 h2 w2 where s: "Client_handle_packet pr handler ct a buf h1 w = Some (ct1, h2, w2)" "same_env w w2"
      by blast
    have "whole_datagrams w2" using same_env_whole [OF s(2)] "1.prems"(1) by simp
    from "1.IH" [rule_format, OF recv_shorter [OF r'] this Client_handle_packet_small [OF s(1) "1.prems"(2) small(1)]
        small(2,3), of h2]
    obtain ct' h' w' where "client_packets_loop pr handler ct1 rest pb1 h2 w2 = Some (ct', h', w')"
      "client_small ct'" "same_env w2 w'" by blast
    with r' s same_env_trans [OF s(2)] show ?thesis
      by (auto simp: client_packets_loop.simps [of pr handler ct])
  qed
qed

section \<open>The passes over the listeners\<close>

lemma ServerListener_update_total:
  assumes w: "whole_datagrams w" and l: "state_small (sl_state l)" "state_resendable (sl_state l)"
  shows "\<exists>keep l' lent' h' w'. ServerListener_update handler cf l lent h w = Some (keep, l', lent', h', w') \<and>
    state_small (sl_state l') \<and> same_env w w'"
proof (cases "sl_state l")
  case (PendingVersion v)
  obtain due w1 where due: "(case v of None \<Rightarrow> (False, w)
       | Some it \<Rightarrow> let (elapsed, w) = Instant_elapsed it w
           in (elapsed \<ge> cf_resend_delay (cc_connection cf), w)) = (due, w1)" "same_env w w1"
    by (cases v) (auto simp: Instant_elapsed_def Instant_now_def)
  have w1: "whole_datagrams w1" using same_env_whole [OF due(2)] w by simp
  obtain r w2 where q: "send_version_query (udp (sl_server_addr l)) w1 = Some (r, w2)" "same_env w w2"
    using send_version_query_total [OF w1] same_env_trans [OF due(2)] by metis
  show ?thesis
    unfolding ServerListener_update_def PendingVersion ServerState.case due(1) using PendingVersion due(2) q
    by (cases r) (auto simp: Instant_now_def)
next
  case (Compatible b t)
  have "buffers_ok b" "small_buffers b" using l Compatible by (simp_all add: state_resendable_def)
  then obtain r b' w1 where u: "PacketBuffers_update b (cf_resend_delay (cc_connection cf))
      (cf_max_missed_acks (cc_connection cf)) (cf_receive_timeout (cc_connection cf))
      (udp (sl_server_addr l)) w = Some (r, b', w1)" "same_env w w1"
    by (metis udp.PacketBuffers_update_total [OF w])
  have "small_buffers b'" using small_buffers_update [OF u(1)] l(1) Compatible by simp
  with u Compatible show ?thesis by (cases r) (auto simp: ServerListener_update_def Let_def)
next
  case (Incompatible e)
  then have "ServerListener_update handler cf l lent h w = Some (True, l, lent, h, w)"
    by (simp add: ServerListener_update_def)
  with l(1) same_env_refl show ?thesis by blast
qed

lemma update_listeners_total:
  assumes "whole_datagrams w" "\<forall>l \<in> set ls. state_small (sl_state l) \<and> state_resendable (sl_state l)"
  shows "\<exists>ls' st' h' w'. update_listeners handler cf lend st ls h w = Some (ls', st', h', w') \<and>
    (\<forall>l \<in> set ls'. state_small (sl_state l)) \<and> same_env w w'"
  using assms
proof (induction ls arbitrary: lend st h w)
  case Nil
  then show ?case by simp
next
  case (Cons l ls)
  obtain keep l' lent h1 w1 where u: "ServerListener_update handler cf l (if lend then Some st else None) h w
      = Some (keep, l', lent, h1, w1)" "state_small (sl_state l')" "same_env w w1"
    using ServerListener_update_total [OF Cons.prems(1), of l handler cf "if lend then Some st else None" h] Cons.prems(2)
    by auto
  have "whole_datagrams w1" using same_env_whole [OF u(3)] Cons.prems(1) by simp
  from Cons.IH [OF this, of False "case lent of None \<Rightarrow> st | Some st \<Rightarrow> st" h1] Cons.prems(2)
  obtain ls' st' h' w' where "update_listeners handler cf False (case lent of None \<Rightarrow> st | Some st \<Rightarrow> st) ls h1 w1
      = Some (ls', st', h', w')" "\<forall>l \<in> set ls'. state_small (sl_state l)" "same_env w1 w'" by auto
  with u same_env_trans [OF u(3)] show ?case by auto
qed

lemma timeout_listeners_small:
  assumes "timeout_listeners handler cf st ls h w = (ls', st', h', w')"
  shows "set ls' \<subseteq> set ls \<and> same_env w w'"
  using assms
proof (induction ls arbitrary: st h w ls')
  case Nil
  then show ?case by simp
next
  case (Cons l ls)
  have "\<exists>keep st1 h1 w1 ls1. timeout_listeners handler cf st1 ls h1 w1 = (ls1, st', h', w') \<and>
      ls' = (if keep then l # ls1 else ls1) \<and> same_env w w1"
  proof (cases "\<exists>b t d. sl_state l = Compatible b t \<and> cc_timeout cf = Some d")
    case True
    then obtain b t d where l: "sl_state l = Compatible b t" "cc_timeout cf = Some d" by blast
    have "same_env w (w\<lparr>ticks := Suc (ticks w)\<rparr>)" by simp
    with Cons.prems l show ?thesis
      by (cases "d < clock w (ticks w) - t")
        (fastforce simp: Instant_elapsed_def Instant_now_def split: prod.split_asm)+
  next
    case False
    then obtain ls1 where "timeout_listeners handler cf st ls h w = (ls1, st', h', w')" "ls' = l # ls1"
      using Cons.prems by (auto split: ServerState.split_asm option.split_asm prod.split_asm)
    then show ?thesis by (metis same_env_refl)
  qed
  then obtain keep st1 h1 w1 ls1 where t: "timeout_listeners handler cf st1 ls h1 w1 = (ls1, st', h', w')"
    "ls' = (if keep then l # ls1 else ls1)" "same_env w w1" by blast
  with Cons.IH [OF t(1)] same_env_trans [OF t(3)] show ?case by auto
qed

text \<open>An update with any number of datagrams, all of them of packets that are small, returns.\<close>

lemma Client_update_small_total:
  assumes w: "whole_datagrams w" and ct: "client_small ct"
    and ok: "\<forall>l \<in> set (ct_listeners ct). state_resendable (sl_state l)" and inbox: "inbox_small inbox"
  shows "\<exists>ct' h' w'. Client_update pr handler ct inbox h w = Some (ct', h', w') \<and> client_small ct' \<and> same_env w w'"
proof -
  obtain ls st h1 w1 where u: "update_listeners handler (ct_config ct) (ct_state ct \<noteq> Disconnected) (ct_state ct)
      (ct_listeners ct) h w = Some (ls, st, h1, w1)" "\<forall>l \<in> set ls. state_small (sl_state l)" "same_env w w1"
    using update_listeners_total [OF w, of "ct_listeners ct" handler "ct_config ct" "ct_state ct \<noteq> Disconnected"
        "ct_state ct" h] ct ok by (auto simp: client_small_def)
  let ?ct = "ct\<lparr>ct_listeners := ls, ct_state := st\<rparr>"
  have sm: "client_small ?ct" using u(2) by (simp add: client_small_def)
  have w1: "whole_datagrams w1" using same_env_whole [OF u(3)] w by simp
  obtain ct2 h2 w2 where l: "client_packets_loop pr handler ?ct inbox (replicate PACKET_BUFFER_SIZE 0) h1 w1
      = Some (ct2, h2, w2)" "client_small ct2" "same_env w1 w2"
    using client_packets_loop_total [OF w1 sm inbox, of "replicate PACKET_BUFFER_SIZE 0" pr handler h1] by auto
  obtain ls3 st3 h3 w3 where t: "timeout_listeners handler (ct_config ct2) (ct_state ct2) (ct_listeners ct2) h2 w2
      = (ls3, st3, h3, w3)" by (metis prod_cases4)
  note k = timeout_listeners_small [OF t]
  have "Client_update pr handler ct inbox h w = Some (ct2\<lparr>ct_listeners := ls3, ct_state := st3\<rparr>, h3, w3)"
    using u(1) l(1) t by (simp add: Client_update_def Client_timeout_connection_def)
  moreover have "client_small (ct2\<lparr>ct_listeners := ls3, ct_state := st3\<rparr>)"
    using k l(2) by (auto simp: client_small_def)
  ultimately show ?thesis using same_env_trans [OF u(3) same_env_trans [OF l(3)]] k by blast
qed

end
