(* ===== verification/Client_Theorems.thy ===== *)
theory Client_Theorems
  imports Client_Total Example_World
begin

text \<open>
  The properties of the client, over any handler and any protocol that meets the documented
  contract of the packets.
\<close>

section \<open>A client to instantiate them at\<close>

definition plain_client_protocol ::
    "(unit, unit, unit, unit, unit, unit, unit, unit, unit, unit) ClientProtocol" where
  "plain_client_protocol = \<lparr>pr_version_write = unit_version_write, pr_version_read = unit_version_read,
     pr_serialize = (\<lambda>_. [[1]]), pr_check_archived_root = (\<lambda>_. Inr (SC_Accept ()))\<rparr>"

definition plain_client_handler :: "(unit, unit, unit, unit, unit, unit, unit, unit) ClientHandler" where
  "plain_client_handler = DefaultClientHandler"

text \<open>A client that is compatible with two servers, at a given state.\<close>

definition two_servers :: "ClientState \<Rightarrow> unit Client" where
  "two_servers s = \<lparr>ct_config = ClientConfig_default, ct_state = s,
     ct_listeners = [\<lparr>sl_server_addr = peer_addr, sl_state = Compatible (PacketBuffers_new 8) 0\<rparr>,
                     \<lparr>sl_server_addr = other_addr, sl_state = Compatible (PacketBuffers_new 8) 0\<rparr>]\<rparr>"

lemma plain_client_protocol_ok [simp]: "protocol_ok plain_client_protocol"
  by (simp add: protocol_ok_def plain_client_protocol_def unit_version_write_def)

lemma two_servers_wf [simp]: "client_wf (two_servers s)" "connection_first (two_servers s)"
  by (auto simp: client_wf_def connection_first_def two_servers_def ClientConfig_default_def PacketBuffers_new_wf)

lemma two_servers_sel [simp]: "ct_state (two_servers s) = s"
  by (simp add: two_servers_def)

section \<open>The invariant\<close>

text \<open>C5. A new client meets the client's invariant, and every operation that returns keeps it: no two
  listeners have the same address, and all packet buffers are well-formed. This includes the operations that remove
  listeners in the middle of the vector, and an update with any datagrams and any network.\<close>

theorem client_invariant:
  assumes "client_wf ct" "protocol_ok pr"
  shows "(\<forall>inbox h w ct' h' w'. Client_update pr handler ct inbox h w = Some (ct', h', w') \<longrightarrow> client_wf ct') \<and>
    (\<forall>b n config ct'. Client_with_config b n config = Inr (ct' :: 'ce Client) \<longrightarrow> config_wf (cc_connection config) \<longrightarrow> client_wf ct') \<and>
    (\<forall>a w r ct' w'. Client_listen ct a w = Some (r, ct', w') \<longrightarrow> client_wf ct') \<and>
    (\<forall>a r ct'. Client_forget ct a = Some (r, ct') \<longrightarrow> client_wf ct') \<and>
    (\<forall>ct'. Client_forget_all ct = Some ct' \<longrightarrow> client_wf ct') \<and>
    (\<forall>w r ct' w'. Client_refresh_all ct w = Some (r, ct', w') \<longrightarrow> client_wf ct') \<and>
    (\<forall>a q w r ct' w'. Client_query pr ct a q w = Some (r, ct', w') \<longrightarrow> client_wf ct') \<and>
    (\<forall>sc pa x w r ct' w'. Client_connect pr ct sc pa x w = Some (r, ct', w') \<longrightarrow> client_wf ct') \<and>
    (\<forall>x w r ct' w'. Client_disconnect pr ct x w = Some (r, ct', w') \<longrightarrow> client_wf ct') \<and>
    (\<forall>x w r ct' w'. Client_send pr ct x w = Some (r, ct', w') \<longrightarrow> client_wf ct')"
proof (intro conjI allI impI)
  have wf: "client_wf ct'" if "(client_step False)\<^sup>*\<^sup>* ct ct'" for ct'
    using that assms(1) by (rule client.steps_invar)
  show "client_wf ct'" if "Client_update pr handler ct inbox h w = Some (ct', h', w')" for inbox h w ct' h' w'
    by (rule wf, rule Client_update_steps [OF that assms(1)]) simp
  show "client_wf ct'" if "Client_with_config b n config = Inr (ct' :: 'ce Client)" "config_wf (cc_connection config)" for b n config ct'
    using Client_with_config_wf [OF that(2,1)] by simp
  show "client_wf ct'" if "Client_listen ct a w = Some (r, ct', w')" for a w r ct' w'
    by (rule wf, rule Client_listen_steps [OF that])
  show "client_wf ct'" if "Client_forget ct a = Some (r, ct')" for a r ct'
    by (rule wf, rule Client_forget_steps [OF that])
  show "client_wf ct'" if "Client_forget_all ct = Some ct'" for ct'
    by (rule wf, rule Client_forget_all_steps [OF that])
  show "client_wf ct'" if "Client_refresh_all ct w = Some (r, ct', w')" for w r ct' w'
    by (rule wf, rule Client_refresh_all_steps [OF that]) simp
  show "client_wf ct'" if "Client_query pr ct a q w = Some (r, ct', w')" for a q w r ct' w'
    by (rule wf, rule Client_query_steps [OF that assms])
  show "client_wf ct'" if "Client_connect pr ct sc pa x w = Some (r, ct', w')" for sc pa x w r ct' w'
    by (rule wf, rule Client_connect_steps [OF that assms]) simp
  show "client_wf ct'" if "Client_disconnect pr ct x w = Some (r, ct', w')" for x w r ct' w'
    by (rule wf, rule Client_disconnect_steps [OF that assms])
  show "client_wf ct'" if "Client_send pr ct x w = Some (r, ct', w')" for x w r ct' w'
    by (rule wf, rule Client_send_steps [OF that assms])
qed

theorem client_invariant_witness:
  "\<exists>r ct'. Client_forget (two_servers Connected) other_addr = Some (r, ct') \<and> client_wf ct'"
proof -
  obtain r ct' where "Client_forget (two_servers Connected) other_addr = Some (r, ct')"
    using Client_forget_total [of "two_servers Connected" other_addr] by fastforce
  moreover have "\<forall>a r ct'. Client_forget (two_servers Connected) a = Some (r, ct') \<longrightarrow> client_wf ct'"
    using client_invariant [OF two_servers_wf(1) [of Connected] plain_client_protocol_ok, of plain_client_handler]
    by (elim conjE) assumption
  ultimately show ?thesis by blast
qed

text \<open>C6. The rule the source relies on when it indexes the first listener: if there is a connection,
  the first listener is its server, and compatible. Every operation keeps it, except that
  \<open>connect\<close> has to be given the first listener or a new one, and \<open>refresh_all\<close> a client that is
  disconnected. While it holds, \<open>send\<close>, \<open>disconnect\<close>, \<open>server_addr\<close> and \<open>forget_all\<close> cannot panic.\<close>

theorem connection_stays_first:
  assumes "client_wf ct" "connection_first ct" "protocol_ok pr" "whole_datagrams w"
  shows "(\<forall>inbox h ct' h' w'. Client_update pr handler ct inbox h w = Some (ct', h', w') \<longrightarrow> connection_first ct') \<and>
    (\<forall>a r ct' w'. Client_listen ct a w = Some (r, ct', w') \<longrightarrow> connection_first ct') \<and>
    (\<forall>a r ct'. Client_forget ct a = Some (r, ct') \<longrightarrow> connection_first ct') \<and>
    (\<forall>a q r ct' w'. Client_query pr ct a q w = Some (r, ct', w') \<longrightarrow> connection_first ct') \<and>
    (\<forall>sc a x r ct' w'. Client_connect pr ct sc (Inr a) x w = Some (r, ct', w') \<longrightarrow> first_or_new ct a \<longrightarrow> connection_first ct') \<and>
    (\<forall>r ct' w'. Client_refresh_all ct w = Some (r, ct', w') \<longrightarrow> ct_state ct = Disconnected \<longrightarrow> connection_first ct') \<and>
    (\<forall>x. \<exists>r ct' w'. Client_disconnect pr ct x w = Some (r, ct', w') \<and> connection_first ct') \<and>
    (\<forall>x. \<exists>r ct' w'. Client_send pr ct x w = Some (r, ct', w') \<and> connection_first ct') \<and>
    (\<exists>ct'. Client_forget_all ct = Some ct' \<and> connection_first ct') \<and> Client_server_addr ct \<noteq> None"
proof (intro conjI allI impI)
  have first: "connection_first ct'" if "(client_step True)\<^sup>*\<^sup>* ct ct'" for ct'
    using that assms(2) by (rule guarded.steps_invar)
  show "connection_first ct'" if "Client_update pr handler ct inbox h w = Some (ct', h', w')" for inbox h ct' h' w'
    by (rule first, rule Client_update_steps [OF that assms(1)]) (rule assms(2))
  show "connection_first ct'" if "Client_listen ct a w = Some (r, ct', w')" for a r ct' w'
    by (rule first, rule Client_listen_steps [OF that])
  show "connection_first ct'" if "Client_forget ct a = Some (r, ct')" for a r ct'
    by (rule first, rule Client_forget_steps [OF that])
  show "connection_first ct'" if "Client_query pr ct a q w = Some (r, ct', w')" for a q r ct' w'
    by (rule first, rule Client_query_steps [OF that assms(1,3)])
  show "connection_first ct'" if "Client_connect pr ct sc (Inr a) x w = Some (r, ct', w')" "first_or_new ct a"
    for sc a x r ct' w'
    by (rule first, rule Client_connect_steps [OF that(1) assms(1,3)]) (use that(2) in auto)
  show "connection_first ct'" if "Client_refresh_all ct w = Some (r, ct', w')" "ct_state ct = Disconnected" for r ct' w'
    by (rule first, rule Client_refresh_all_steps [OF that(1)]) (rule that(2))
  show "\<exists>r ct' w'. Client_disconnect pr ct x w = Some (r, ct', w') \<and> connection_first ct'" for x
    using Client_disconnect_total [OF assms(4,1,2,3), of x] first Client_disconnect_steps [OF _ assms(1,3)]
    by fastforce
  show "\<exists>r ct' w'. Client_send pr ct x w = Some (r, ct', w') \<and> connection_first ct'" for x
    using Client_send_total [OF assms(4,1,2,3), of x] first Client_send_steps [OF _ assms(1,3)] by fastforce
  show "\<exists>ct'. Client_forget_all ct = Some ct' \<and> connection_first ct'"
    using Client_forget_all_total [OF assms(2)] first Client_forget_all_steps by blast
  show "Client_server_addr ct \<noteq> None" using assms(2) by (rule Client_server_addr_total)
qed

theorem connection_stays_first_witness:
  "\<exists>r ct' w'. Client_send plain_client_protocol (two_servers Connected) () good_world = Some (r, ct', w') \<and>
     connection_first ct'"
  using connection_stays_first [OF two_servers_wf [of Connected] plain_client_protocol_ok good_world_whole,
      of plain_client_handler] by blast

section \<open>The state machine\<close>

text \<open>C17. A datagram moves the client's state only along the edges of the connection protocol, only if
  it comes from the first listener, and to connected only from connecting and only by completing
  an accept packet.\<close>

theorem datagram_moves_state:
  assumes "Client_handle_packet pr handler ct a buf h w = Some (ct', h', w')" "client_wf ct"
  shows "state_step (ct_state ct) (ct_state ct') \<and>
    (ct_state ct' \<noteq> ct_state ct \<longrightarrow> ct_state ct \<noteq> Disconnected \<longrightarrow>
       (\<exists>l ls. ct_listeners ct = l # ls \<and> sl_server_addr l = a)) \<and>
    (ct_state ct' = Connected \<longrightarrow> ct_state ct \<noteq> Connected \<longrightarrow> ct_state ct = Connecting \<and>
       (\<exists>l ls b t w1 b' w2 bytes acc. ct_listeners ct = l # ls \<and> sl_server_addr l = a \<and> sl_state l = Compatible b t \<and>
          PacketBuffers_handle b buf (udp a) w1 = Some (Inr (HandlingReceived (Reassembled bytes)), b', w2) \<and>
          pr_check_archived_root pr bytes = Inr (SC_Accept acc)))"
  using Client_handle_packet_state [OF assms] by blast

lemma two_servers_one_byte:
  assumes "a = peer_addr \<or> a = other_addr"
  shows "\<exists>ct' h' w'. Client_handle_packet plain_client_protocol plain_client_handler (two_servers s) a
      (part_frame (PacketId 7) [1] 0) () good_world = Some (ct', h', w') \<and>
    ct_state ct' = (if a = peer_addr \<and> s = Connecting then Connected else s)"
proof -
  let ?w = "good_world\<lparr>ticks := Suc 0\<rparr>" and ?i = "if a = peer_addr then 0 else 1 :: nat"
  have c: "chunks [1 :: u8] = [[1]]" by (simp add: chunks_small)
  have r: "receiving [1] {} (incoming (PacketBuffers_new 8) (PacketId 7))"
    by (simp add: receiving_def PacketBuffers_new_def ReceivePacketBuffer_default_def BTreeMap_get_def)
  have w: "whole_datagrams ?w" "io_never_fails ?w" "buffers_wf (PacketBuffers_new 8)"
    by (simp_all add: whole_datagrams_def io_never_fails_def good_world_def PacketBuffers_new_wf)
  obtain b1 w1 where hb: "PacketBuffers_handle (PacketBuffers_new 8) (part_frame (PacketId 7) [1] 0) (udp a) ?w
      = Some (Inr (HandlingReceived (outcome [1] {} 0)), b1, w1)"
    by (rule udp.handle_part_step [OF w r]) (simp_all add: c)
  have o: "outcome [1] {} 0 = Reassembled [1]" by (simp add: outcome_def c lessThan_Suc)
  have pos: "position (listens_to a) (ct_listeners (two_servers s)) = Some ?i"
    "sl_state (ct_listeners (two_servers s) ! ?i) = Compatible (PacketBuffers_new 8) 0"
    using assms by (auto simp: two_servers_def listens_to_def)
  have noping: "PacketKind_try_from (hd (part_frame (PacketId 7) [1] 0)) = Some Kind_LastPart"
    by (simp add: part_frame_def part_bytes_def header_def c)
  have now: "Instant_now good_world = (0, ?w)" by (simp add: Instant_now_def good_world_def)
  show ?thesis
    using pos hb o assms
    by (simp add: Client_handle_packet_def Client_handle_compatible_def noping now Let_def
        plain_client_protocol_def [THEN arg_cong, of pr_check_archived_root] Client_handle_connection_packet_def
        plain_client_handler_def split_def)
qed

theorem datagram_moves_state_witness:
  "\<exists>ct' h' w'. Client_handle_packet plain_client_protocol plain_client_handler (two_servers Connecting) peer_addr
      (part_frame (PacketId 7) [1] 0) () good_world = Some (ct', h', w') \<and>
    ct_state ct' = Connected \<and> state_step Connecting (ct_state ct')"
proof -
  obtain ct' h' w' where run: "Client_handle_packet plain_client_protocol plain_client_handler (two_servers Connecting)
      peer_addr (part_frame (PacketId 7) [1] 0) () good_world = Some (ct', h', w')" "ct_state ct' = Connected"
    using two_servers_one_byte [of peer_addr Connecting] by auto
  with datagram_moves_state [OF run(1) two_servers_wf(1)] show ?thesis by auto
qed

lemma find_listener:
  assumes "distinct (addrs ls)"
  shows "find (listens_to a) ls = Some l \<longleftrightarrow> l \<in> set ls \<and> sl_server_addr l = a"
  using assms by (induction ls) (auto simp: listens_to_def)

lemma find_listener_cong:
  assumes "distinct (addrs ls)" "distinct (addrs ls')"
    and "\<And>l. sl_server_addr l = a \<Longrightarrow> l \<in> set ls \<longleftrightarrow> l \<in> set ls'"
  shows "find (listens_to a) ls = find (listens_to a) ls'"
proof (rule option.expand)
  show "(find (listens_to a) ls = None) = (find (listens_to a) ls' = None)"
    using assms by (auto simp: find_None_iff listens_to_def)
  show "the (find (listens_to a) ls) = the (find (listens_to a) ls')"
    if "find (listens_to a) ls \<noteq> None" "find (listens_to a) ls' \<noteq> None"
    using that find_listener [OF assms(1), of a] find_listener [OF assms(2), of a] assms(3)
    by (metis not_None_eq)
qed

text \<open>\<open>forget\<close> removes exactly the listener of the given address, although it moves the last
  listener into the gap: the client still knows the compatibility of every other server, and its
  state does not change.\<close>

lemma forget_removes_exactly_one:
  assumes "client_wf ct" "Client_forget ct a = Some (Inr (), ct')"
  shows "Client_compatibility ct' a = None \<and> ct_state ct' = ct_state ct \<and>
    (\<forall>b. b \<noteq> a \<longrightarrow> Client_compatibility ct' b = Client_compatibility ct b)"
proof -
  have d: "distinct (addrs (ct_listeners ct))" using assms(1) by (simp add: client_wf_def)
  obtain i ls where i: "position (listens_to a) (ct_listeners ct) = Some i"
    "swap_remove (ct_listeners ct) i = Some ls" "ct' = ct\<lparr>ct_listeners := ls\<rparr>"
    using assms(2) by (auto simp: Client_forget_def bind_eq_Some_conv split: option.split_asm if_split_asm)
  note p = position_listens_to [OF i(1)]
  have s: "set ls = set (ct_listeners ct) - {ct_listeners ct ! i}" "distinct (addrs ls)"
    using swap_remove_set [OF i(2) d] by simp_all
  have "l = ct_listeners ct ! i" if "l \<in> set (ct_listeners ct)" "sl_server_addr l = a" for l
    using that p d by (metis distinct_map inj_onD nth_mem)
  then have "find (listens_to a) ls = None" by (auto simp: find_None_iff listens_to_def s(1))
  moreover have "find (listens_to b) ls = find (listens_to b) (ct_listeners ct)" if "b \<noteq> a" for b
    using that p(2) by (intro find_listener_cong s(2) d) (auto simp: s(1))
  ultimately show ?thesis by (simp add: i(3) Client_compatibility_def)
qed

section \<open>Timeouts\<close>

text \<open>C31. The timeout at the end of an update, with the clock readings between \<open>t0\<close> and \<open>t1\<close>: every
  server that had been silent for longer than the timeout at \<open>t0\<close> is removed and the client is
  then disconnected, whichever of the servers it was; servers that were not silent that long at
  \<open>t1\<close> stay, and if that is all of them neither listeners nor state change.\<close>

theorem silent_servers_time_out:
  assumes "Client_timeout_connection handler ct h w = (ct', h', w')" "cc_timeout (ct_config ct) = Some d"
    and "\<forall>k. t0 \<le> clock w k \<and> clock w k \<le> t1"
  shows "set (ct_listeners ct') \<subseteq> {l \<in> set (ct_listeners ct). \<not> silent d t0 l} \<and>
    {l \<in> set (ct_listeners ct). \<not> silent d t1 l} \<subseteq> set (ct_listeners ct') \<and>
    ((\<exists>l \<in> set (ct_listeners ct). silent d t0 l) \<longrightarrow> ct_state ct' = Disconnected) \<and>
    ((\<forall>l \<in> set (ct_listeners ct). \<not> silent d t1 l) \<longrightarrow> ct' = ct)"
proof -
  obtain ls st h1 w1 where t: "timeout_listeners handler (ct_config ct) (ct_state ct) (ct_listeners ct) h w = (ls, st, h1, w1)"
    by (metis prod_cases4)
  then have ct': "ct' = ct\<lparr>ct_listeners := ls, ct_state := st\<rparr>"
    using assms(1) by (simp add: Client_timeout_connection_def)
  note s = timeout_listeners_silent [OF t assms(2), of t0 t1]
  show ?thesis using s assms(3) by (auto simp: ct')
qed

theorem silent_servers_time_out_witness:
  "ct_state (fst (Client_timeout_connection plain_client_handler (two_servers Connected) ()
     (good_world\<lparr>clock := \<lambda>_. 20000000000\<rparr>))) = Disconnected"
proof -
  let ?w = "good_world\<lparr>clock := \<lambda>_. 20000000000\<rparr>"
  obtain ct' h' w' where t: "Client_timeout_connection plain_client_handler (two_servers Connected) () ?w = (ct', h', w')"
    by (metis prod_cases3)
  have d: "cc_timeout (ct_config (two_servers Connected)) = Some 10000000000"
    by (simp add: two_servers_def ClientConfig_default_def Duration_from_secs_def)
  have "\<exists>l \<in> set (ct_listeners (two_servers Connected)). silent 10000000000 20000000000 l"
    by (simp add: two_servers_def silent_def)
  with silent_servers_time_out [OF t d, of 20000000000 20000000000] t show ?thesis by simp
qed

section \<open>Operations that break the rule of the first listener\<close>

text \<open>C40. \<open>refresh_all\<close> is allowed during a connection and makes the connected server pending again,
  although the client stays connected: the next \<open>send\<close> then panics.\<close>

theorem refresh_while_connected_panics:
  assumes "ct_state ct = Connected" "ct_listeners ct \<noteq> []" "Client_refresh_all ct w = Some (Inr (), ct', w')"
  shows "ct_state ct' = Connected \<and> Client_send pr ct' x w2 = None"
proof -
  obtain l ls where l: "ct_listeners ct = l # ls" using assms(2) by (cases "ct_listeners ct") auto
  from assms(3) obtain ls' where r: "refresh_listeners (l # ls) w = Some (Inr (), ls', w')" "ct' = ct\<lparr>ct_listeners := ls'\<rparr>"
    by (auto simp: Client_refresh_all_def l bind_eq_Some_conv)
  then obtain v ls1 where "ls' = l\<lparr>sl_state := PendingVersion v\<rparr> # ls1"
    by (auto simp: ServerListener_refresh_def run_simps dest!: pending_version_query_state)
  with r(2) assms(1) show ?thesis by (simp add: Client_send_def)
qed

theorem refresh_while_connected_panics_witness:
  "\<exists>ct' w'. Client_refresh_all (two_servers Connected) good_world = Some (Inr (), ct', w') \<and>
     Client_send plain_client_protocol ct' () w' = None"
proof -
  have q: "pending_version_query a w = Some (Inr (PendingVersion (Some (clock w (ticks w)))),
      w\<lparr>sends := Suc (sends w), sent := sent w @ [(a, [])], ticks := Suc (ticks w)\<rparr>)"
    if "send_to w = send_to good_world" for a w
    using udp_good_world [OF that, of a "[]"]
    by (simp add: pending_version_query_def send_version_query_def Instant_now_def)
  obtain ct' w' where r: "Client_refresh_all (two_servers Connected) good_world = Some (Inr (), ct', w')"
    by (simp add: Client_refresh_all_def two_servers_def ServerListener_refresh_def q)
  have "ct_listeners (two_servers Connected) \<noteq> []" by (simp add: two_servers_def)
  from refresh_while_connected_panics [OF two_servers_sel this r, of plain_client_protocol "()" w'] r
  show ?thesis by blast
qed

text \<open>Connecting to a server that is not the first listener cannot succeed: no datagram from that
  server changes the client's state, not even the one that completes its accept packet.\<close>

lemma connect_to_later_listener_ignored:
  assumes "client_wf ct" "ct_listeners ct = l # ls" "a \<noteq> sl_server_addr l" "ct_state ct = Connecting"
    and "Client_handle_packet pr handler ct a buf h w = Some (ct', h', w')"
  shows "ct_state ct' = Connecting"
  using Client_handle_packet_state(2) [OF assms(5,1)] assms(2-4) by auto

section \<open>No panics\<close>

text \<open>C26. The client handles any datagram from any address without a panic, if the buffers it keeps
  for that server can take it: no part of the datagram lies below the window of its packet.\<close>

theorem client_handles_any_datagram:
  assumes "whole_datagrams w"
    and "\<forall>l \<in> set (ct_listeners ct). \<forall>b t. sl_server_addr l = a \<longrightarrow> sl_state l = Compatible b t \<longrightarrow> buffers_safe b buf"
  shows "Client_handle_packet pr handler ct a buf h w \<noteq> None"
  using Client_handle_packet_total [OF assms, of pr handler h] by auto

theorem client_handles_any_datagram_witness:
  "\<forall>buf. Client_handle_packet plain_client_protocol plain_client_handler (two_servers Connected) peer_addr buf () good_world
     \<noteq> None"
proof
  fix buf
  show "Client_handle_packet plain_client_protocol plain_client_handler (two_servers Connected) peer_addr buf () good_world
     \<noteq> None"
    by (rule client_handles_any_datagram) (simp_all add: two_servers_def)
qed

text \<open>C28. An update of the client ends and returns, however many datagrams have arrived and with
  whatever content: the passes over the listeners and the loop over the datagrams terminate and
  nothing in them panics. Two conditions keep clear of the panic on parts below the window: no
  datagram is a part with a sequence index of 255 or more, and no packet that the client is
  reassembling has received such a part before, so that no window has moved. The second condition
  holds in a new client, and again in the state the update returns. The outgoing packets must be
  far from overflowing their count of missed acknowledgements.\<close>

theorem client_update_returns:
  assumes "whole_datagrams w" "client_small ct"
    and "\<forall>l \<in> set (ct_listeners ct). state_resendable (sl_state l)" "inbox_small inbox"
  shows "(\<exists>ct' h' w'. Client_update pr handler ct inbox h w = Some (ct', h', w') \<and> client_small ct') \<and>
    (\<forall>b n config (ct0 :: 'ce Client). Client_with_config b n config = Inr ct0 \<longrightarrow> client_small ct0)"
  using Client_update_small_total [OF assms, of pr handler h] Client_with_config_small by blast

theorem client_update_returns_witness:
  "\<exists>ct' h' w'. Client_update plain_client_protocol plain_client_handler (two_servers Connecting)
      [Inr (peer_addr, done_bytes (PacketId 7)), Inr (other_addr, []), Inl WouldBlock] () good_world
      = Some (ct', h', w') \<and> client_small ct'"
proof -
  let ?inbox = "[Inr (peer_addr, done_bytes (PacketId 7)), Inr (other_addr, []), Inl WouldBlock] :: inbox"
  have i: "inbox_small ?inbox"
    by (auto simp: inbox_small_def small_datagram_def done_bytes_def)
  have s: "client_small (two_servers Connecting)"
    "\<forall>l \<in> set (ct_listeners (two_servers Connecting)). state_resendable (sl_state l)"
    by (simp_all add: client_small_def two_servers_def state_resendable_def)
  from client_update_returns [OF good_world_whole s i, of plain_client_protocol plain_client_handler "()"]
  show ?thesis by blast
qed

text \<open>A listener whose version query the socket could not take is never asked again: every later
  update leaves it as it is and sends nothing, whatever time has passed.\<close>

lemma blocked_version_query_stuck:
  assumes "udp a [] w = Some (Inr False, w1)"
  shows "\<exists>l :: 'ce ServerListener. ServerListener_new a w = Some (Inr l, w1) \<and>
    (\<forall>(handler :: 'h ConnectionHandler) config state h w2.
       ServerListener_update handler config l state h w2 = Some (True, l, state, h, w2))"
  using assms
  by (simp add: ServerListener_new_def pending_version_query_def send_version_query_def ServerListener_update_def)

end
