(* ===== verification/Display.thy ===== *)
theory Display
  imports Net
begin

text \<open>
  How values are rendered as text: the \<open>Display\<close> and \<open>Debug\<close> implementations that the logging
  handlers use. \<open>thiserror\<close> derives \<open>Display\<close> from the format strings at the error types, and
  \<open>derive(Debug)\<close> writes names and entries; addresses are rendered as the standard library does. The
  text of an I/O error, of a validation error and of a UUID comes from outside and is a parameter.
\<close>

section \<open>Numbers\<close>

fun digits :: "nat \<Rightarrow> nat \<Rightarrow> nat list" where
  "digits base n = (if base < 2 \<or> n < base then [n] else digits base (n div base) @ [n mod base])"

declare digits.simps [simp del]

definition digit_char :: "nat \<Rightarrow> char" where
  "digit_char d = (if d < 10 then char_of (48 + d) else char_of (87 + d))"

definition decimal :: "nat \<Rightarrow> string" where
  "decimal n = map digit_char (digits 10 n)"

definition lower_hex :: "nat \<Rightarrow> string" where
  "lower_hex n = map digit_char (digits 16 n)"

definition debug_bool :: "bool \<Rightarrow> string" where
  "debug_bool b = (if b then ''true'' else ''false'')"

section \<open>Addresses\<close>

definition octets :: "32 word \<Rightarrow> nat list" where
  "octets ip = map (\<lambda>i. unat ip div 256 ^ (3 - i) mod 256) [0..<4]"

definition segments :: "128 word \<Rightarrow> nat list" where
  "segments ip = map (\<lambda>i. unat ip div 65536 ^ (7 - i) mod 65536) [0..<8]"

fun join :: "string \<Rightarrow> string list \<Rightarrow> string" where
  "join sep [] = ''''"
| "join sep [s] = s"
| "join sep (s # ss) = s @ sep @ join sep ss"

definition display_v4 :: "nat list \<Rightarrow> string" where
  "display_v4 os = join ''.'' (map decimal os)"

text \<open>The first longest run of zero segments, as start and length.\<close>

fun zero_run :: "nat \<Rightarrow> nat list \<Rightarrow> nat \<times> nat \<Rightarrow> nat \<times> nat \<Rightarrow> nat \<times> nat" where
  "zero_run i [] current longest = longest"
| "zero_run i (s # ss) current longest =
     (if s = 0
      then let current = (if snd current = 0 then (i, 1) else (fst current, snd current + 1))
           in zero_run (i + 1) ss current (if snd current > snd longest then current else longest)
      else zero_run (i + 1) ss (0, 0) longest)"

definition display_v6 :: "nat list \<Rightarrow> string" where
  "display_v6 ss =
     (if take 6 ss = [0, 0, 0, 0, 0, 65535]
      then ''::ffff:'' @ display_v4 (concat (map (\<lambda>s. [s div 256, s mod 256]) (drop 6 ss)))
      else let (start, len) = zero_run 0 ss (0, 0) (0, 0); hex = (\<lambda>ss. join '':'' (map lower_hex ss))
           in if len > 1 then hex (take start ss) @ ''::'' @ hex (drop (start + len) ss) else hex ss)"

definition display_addr :: "SocketAddr \<Rightarrow> string" where
  "display_addr addr =
     (case addr of
        V4 ip port \<Rightarrow> display_v4 (octets ip) @ '':'' @ decimal (unat port)
      | V6 ip port _ scope \<Rightarrow>
          ''['' @ display_v6 (segments ip) @ (if scope = 0 then '''' else ''%'' @ decimal (unat scope)) @
          '']:'' @ decimal (unat port))"

section \<open>Derived \<open>Debug\<close>\<close>

definition debug_tuple :: "string \<Rightarrow> string list \<Rightarrow> string" where
  "debug_tuple name entries = name @ ''('' @ join '', '' entries @ '')''"

definition debug_struct :: "string \<Rightarrow> (string \<times> string) list \<Rightarrow> string" where
  "debug_struct name entries =
     name @ '' { '' @ join '', '' (map (\<lambda>(field, value). field @ '': '' @ value) entries) @ '' }''"

definition debug_PartInfo :: "PartInfo \<Rightarrow> string" where
  "debug_PartInfo info = (case info of PartPending \<Rightarrow> ''Pending'' | PartReassembled \<Rightarrow> ''Reassembled''
     | PartDuplicate \<Rightarrow> ''Duplicate'')"

definition debug_RawPacket :: "RawPacket \<Rightarrow> string" where
  "debug_RawPacket packet =
     (case packet of
        RawPart sender_addr info \<Rightarrow>
          debug_struct ''Part'' [(''sender_addr'', display_addr sender_addr), (''info'', debug_PartInfo info)]
      | RawDone sender_addr known_packet \<Rightarrow>
          debug_struct ''Done'' [(''sender_addr'', display_addr sender_addr),
            (''known_packet'', debug_bool known_packet)]
      | RawAck receiver_addr duplicate \<Rightarrow>
          debug_struct ''Ack'' [(''receiver_addr'', display_addr receiver_addr),
            (''duplicate'', debug_bool duplicate)])"

text \<open>\<open>impl Debug for PacketBuffer\<close>; the field \<open>data\<close> is the dereferenced slice.\<close>

definition debug_list :: "string list \<Rightarrow> string" where
  "debug_list elements = ''['' @ join '', '' elements @ '']''"

definition debug_PacketBuffer :: "PacketBuffer \<Rightarrow> string option" where
  "debug_PacketBuffer self = do {
     data \<leftarrow> PacketBuffer_deref self;
     Some (debug_struct ''PacketBuffer'' [(''acked'', debug_bool (pb_acked self)),
       (''data'', debug_list (map (\<lambda>b. decimal (unat b)) data))])
   }"

section \<open>Errors\<close>

record foreign_formats =
  ff_io_display :: "io_error \<Rightarrow> string"
  ff_io_debug :: "io_error \<Rightarrow> string"
  ff_validation :: "validation_error \<Rightarrow> string"
  ff_uuid :: "Uuid \<Rightarrow> string"

definition debug_PacketId :: "foreign_formats \<Rightarrow> PacketId \<Rightarrow> string" where
  "debug_PacketId ff i = debug_tuple ''PacketId'' [ff_uuid ff (packet_uuid i)]"

definition debug_SeqIndexOutOfRange :: "SeqIndexOutOfRange \<Rightarrow> string" where
  "debug_SeqIndexOutOfRange e = (case e of SeqIndexOutOfRange seq_index seq_max \<Rightarrow>
     debug_struct ''SeqIndexOutOfRange'' [(''seq_index'', decimal (unat seq_index)), (''seq_max'', decimal (unat seq_max))])"

definition debug_SeqIndexAckedBeforeSent :: "SeqIndexAckedBeforeSent \<Rightarrow> string" where
  "debug_SeqIndexAckedBeforeSent e = (case e of SeqIndexAckedBeforeSent seq_index \<Rightarrow>
     debug_struct ''SeqIndexAckedBeforeSent'' [(''seq_index'', decimal (unat seq_index))])"

definition debug_PacketAckErrorKind :: "PacketAckErrorKind \<Rightarrow> string" where
  "debug_PacketAckErrorKind kind =
     (case kind of
        InvalidPacketId \<Rightarrow> ''InvalidPacketId''
      | AckSeqIndexOutOfRange e \<Rightarrow> debug_tuple ''SeqIndexOutOfRange'' [debug_SeqIndexOutOfRange e]
      | AckSeqIndexAckedBeforeSent e \<Rightarrow>
          debug_tuple ''SeqIndexAckedBeforeSent'' [debug_SeqIndexAckedBeforeSent e])"

definition debug_PacketAckError :: "foreign_formats \<Rightarrow> PacketAckError \<Rightarrow> string" where
  "debug_PacketAckError ff e = (case e of PacketAckError i kind \<Rightarrow>
     debug_struct ''PacketAckError'' [(''id'', debug_PacketId ff i), (''kind'', debug_PacketAckErrorKind kind)])"

definition debug_PacketReceiveErrorKind :: "foreign_formats \<Rightarrow> PacketReceiveErrorKind \<Rightarrow> string" where
  "debug_PacketReceiveErrorKind ff kind =
     (case kind of
        Mismatch \<Rightarrow> ''Mismatch''
      | ReceiveSeqIndexOutOfRange e \<Rightarrow> debug_tuple ''SeqIndexOutOfRange'' [debug_SeqIndexOutOfRange e]
      | ReceiveIo e \<Rightarrow> debug_tuple ''Io'' [ff_io_debug ff e])"

definition debug_PacketReceiveError :: "foreign_formats \<Rightarrow> PacketReceiveError \<Rightarrow> string" where
  "debug_PacketReceiveError ff e = (case e of PacketReceiveError i kind \<Rightarrow>
     debug_struct ''PacketReceiveError''
       [(''id'', debug_PacketId ff i), (''kind'', debug_PacketReceiveErrorKind ff kind)])"

definition debug_HandlePacketError :: "foreign_formats \<Rightarrow> HandlePacketError \<Rightarrow> string" where
  "debug_HandlePacketError ff e =
     (case e of
        HandleEmpty \<Rightarrow> ''Empty''
      | HandleMalformed \<Rightarrow> ''Malformed''
      | HandleReceive e \<Rightarrow> debug_tuple ''Receive'' [debug_PacketReceiveError ff e]
      | HandleAck e \<Rightarrow> debug_tuple ''Ack'' [debug_PacketAckError ff e]
      | HandleDone (InvalidDonePacketId i) \<Rightarrow>
          debug_tuple ''Done'' [debug_struct ''InvalidDonePacketId'' [(''id'', debug_PacketId ff i)]]
      | HandleIo e \<Rightarrow> debug_tuple ''Io'' [ff_io_debug ff e]
      | HandleUnexpectedKind kind \<Rightarrow> debug_tuple ''UnexpectedKind'' [decimal (unat kind)]
      | HandleValidation \<Rightarrow> ''Validation'')"

definition display_HandlerError :: "foreign_formats \<Rightarrow> HandlerError \<Rightarrow> string" where
  "display_HandlerError ff e =
     (case e of
        ErrorRecv error \<Rightarrow> ''recv failed: '' @ ff_io_display ff error
      | ErrorSend receiver_addr error \<Rightarrow>
          ''send to '' @ display_addr receiver_addr @ '' failed: '' @ ff_io_display ff error
      | ErrorPacketValidation sender_addr error \<Rightarrow>
          ''packet from '' @ display_addr sender_addr @ '' failed validation: '' @ ff_validation ff error
      | ErrorHandle sender_addr error \<Rightarrow>
          ''packet from '' @ display_addr sender_addr @ '' could not be handled: '' @ debug_HandlePacketError ff error
      | ErrorTimeout peer_addr \<Rightarrow> display_addr peer_addr @ '' timed out'')"

end
