(* ===== verification/Log.thy ===== *)
theory Log
  imports Display Server Client
begin

text \<open>
  \<open>BasicLogConnectionHandler\<close> of \<^verbatim>\<open>net.rs\<close> as a handler for server and client: it answers like
  \<open>DefaultConnectionHandler\<close> and prints a line for every callback. Its state is what has been
  printed; the \<open>Debug\<close> implementations of the user's packets are a parameter.
\<close>

section \<open>Printing\<close>

type_synonym stdout = "string list"

definition println :: "string \<Rightarrow> stdout \<Rightarrow> stdout" where
  "println line out = out @ [line]"

text \<open>The symbols of the messages, in UTF-8.\<close>

definition ARROW :: string where "ARROW = [CHR 0xE2, CHR 0x96, CHR 0xB6]"
definition RETURN :: string where "RETURN = [CHR 0xE2, CHR 0x86, CHR 0xA9]"
definition CROSS :: string where "CROSS = [CHR 0xE2, CHR 0x9D, CHR 0x8C]"

definition BasicLogConnectionHandler :: "foreign_formats \<Rightarrow> stdout ConnectionHandler" where
  "BasicLogConnectionHandler ff =
     \<lparr>ch_raw_packet = (\<lambda>packet. println (''raw_packet: '' @ debug_RawPacket packet)),
      ch_error = (\<lambda>error. println (display_HandlerError ff error))\<rparr>"

section \<open>Server\<close>

definition display_UnexpectedClientPacket :: "UnexpectedClientPacket \<Rightarrow> string" where
  "display_UnexpectedClientPacket unexpected =
     (case unexpected of
        Client_UnknownCompatibility \<Rightarrow> ''client can'' @ [CHR 0x27] @ ''t know if it is compatible''
      | Client_NotConnected \<Rightarrow> ''not connected to this client''
      | Client_AlreadyConnected \<Rightarrow> ''already connected to this client'')"

definition debug_Connect :: "('accept \<Rightarrow> string) \<Rightarrow> ('reject \<Rightarrow> string) \<Rightarrow> ('accept, 'reject) Connect \<Rightarrow> string" where
  "debug_Connect debug_accept debug_reject self =
     (case self of
        Connect_Accept arg0 \<Rightarrow> debug_tuple ''Accept'' [debug_accept arg0]
      | Connect_Reject arg0 \<Rightarrow> debug_tuple ''Reject'' [debug_reject arg0])"

record ('version, 'query, 'status, 'connect, 'accept, 'disconnect, 'user) server_formats =
  sf_version :: "'version \<Rightarrow> string"
  sf_query :: "'query \<Rightarrow> string"
  sf_status :: "'status \<Rightarrow> string"
  sf_connect :: "'connect \<Rightarrow> string"
  sf_accept :: "'accept \<Rightarrow> string"
  sf_disconnect :: "'disconnect \<Rightarrow> string"
  sf_packet :: "'user \<Rightarrow> string"

definition BasicLogServerHandler ::
    "foreign_formats \<Rightarrow> ('version, 'query, 'status, 'connect, 'accept, 'disconnect, 'user) server_formats
      \<Rightarrow> 'version \<Rightarrow> 'status \<Rightarrow> 'accept
      \<Rightarrow> (stdout, 'version, 'query, 'status, 'connect, 'accept, 'reject, 'disconnect, 'user) ServerHandler" where
  "BasicLogServerHandler ff sf version status accept =
     \<lparr>ch_raw_packet = ch_raw_packet (BasicLogConnectionHandler ff),
      ch_error = ch_error (BasicLogConnectionHandler ff),
      sh_version = (\<lambda>out. (version, println (''server version: '' @ sf_version sf version) out)),
      sh_listen = (\<lambda>_ out. out),
      sh_query = (\<lambda>client_addr query out.
        let out = println (display_addr client_addr @ '' sent status query: '' @ sf_query sf query) out
        in (status, println (ARROW @ '' responding with status: '' @ sf_status sf status) out)),
      sh_connect = (\<lambda>client_addr connect out.
        let out = println (display_addr client_addr @ '' wants to connect with: '' @ sf_connect sf connect) out
        in (Connect_Accept accept, println (ARROW @ '' accepted with: '' @ sf_accept sf accept) out)),
      sh_disconnect = (\<lambda>client_addr disconnect.
        println (display_addr client_addr @ '' disconnected: '' @ sf_disconnect sf disconnect)),
      sh_ping = (\<lambda>client_addr. println (''sent ping to '' @ display_addr client_addr)),
      sh_pong = (\<lambda>client_addr valid.
        println ((if valid then RETURN @ '' received'' else CROSS @ '' invalid'') @ '' pong from '' @
          display_addr client_addr)),
      sh_packet = (\<lambda>client_addr packet.
        println (display_addr client_addr @ '' sent packet: '' @ sf_packet sf packet)),
      sh_unexpected = (\<lambda>client_addr unexpected.
        println (display_addr client_addr @ '' sent unexpected packet: '' @
          display_UnexpectedClientPacket unexpected))\<rparr>"

section \<open>Client\<close>

definition display_UnexpectedServerPacket :: "UnexpectedServerPacket \<Rightarrow> string" where
  "display_UnexpectedServerPacket unexpected =
     (case unexpected of
        Server_UnknownServer \<Rightarrow> ''not listening to this server''
      | Server_NotConnected \<Rightarrow> ''not connected to this server''
      | Server_Incompatible \<Rightarrow> ''incompatible with this server''
      | Server_EmptyPacket \<Rightarrow> ''empty packet''
      | Server_PendingCompatibility \<Rightarrow> ''packet before compatible check''
      | Server_MalformedVersion \<Rightarrow> ''malformed version packet'')"

record ('version, 'status, 'accept, 'reject, 'kick, 'user) client_formats =
  kf_version :: "'version \<Rightarrow> string"
  kf_status :: "'status \<Rightarrow> string"
  kf_accept :: "'accept \<Rightarrow> string"
  kf_reject :: "'reject \<Rightarrow> string"
  kf_kick :: "'kick \<Rightarrow> string"
  kf_packet :: "'user \<Rightarrow> string"

definition BasicLogClientHandler ::
    "foreign_formats \<Rightarrow> ('version, 'status, 'accept, 'reject, 'kick, 'user) client_formats
      \<Rightarrow> (stdout, 'version, 'ce, 'status, 'accept, 'reject, 'kick, 'user) ClientHandler" where
  "BasicLogClientHandler ff kf =
     \<lparr>ch_raw_packet = ch_raw_packet (BasicLogConnectionHandler ff),
      ch_error = ch_error (BasicLogConnectionHandler ff),
      kh_compatibility = (\<lambda>version out.
        (Inr (), println (''got compatible version: '' @ kf_version kf version) out)),
      kh_status = (\<lambda>server_addr status.
        println (''status of '' @ display_addr server_addr @ '': '' @ kf_status kf status)),
      kh_accept = (\<lambda>accept. println (''got accepted: '' @ kf_accept kf accept)),
      kh_reject = (\<lambda>reject. println (''got rejected: '' @ kf_reject kf reject)),
      kh_kick = (\<lambda>kick. println (''got kicked: '' @ kf_kick kf kick)),
      kh_ping = println ''got ping, responding with pong'',
      kh_packet = (\<lambda>packet. println (''got packet: '' @ kf_packet kf packet)),
      kh_unexpected = (\<lambda>server_addr unexpected.
        println (display_addr server_addr @ '' sent unexpected packet: '' @
          display_UnexpectedServerPacket unexpected))\<rparr>"

section \<open>The state as text\<close>

text \<open>The \<open>Debug\<close> implementations of the crate's structs that are written by hand. The text of their
  fields with derived implementations, of sockets and of points in time is a parameter.\<close>

definition debug_option :: "('a \<Rightarrow> string) \<Rightarrow> 'a option \<Rightarrow> string" where
  "debug_option debug x = (case x of None \<Rightarrow> ''None'' | Some x \<Rightarrow> debug_tuple ''Some'' [debug x])"

definition debug_PacketBuffers ::
    "(SendPacketBuffer \<Rightarrow> string) \<Rightarrow> (ReceivePacketBuffer \<Rightarrow> string) \<Rightarrow> PacketBuffers \<Rightarrow> string" where
  "debug_PacketBuffers debug_send debug_receive self =
     debug_struct ''PacketBuffers'' [(''send_buffer'', debug_send (pbs_send_buffer self)),
       (''receive_buffer'', debug_receive (pbs_receive_buffer self))]"

definition debug_ActivePing :: "foreign_formats \<Rightarrow> (Instant \<Rightarrow> string) \<Rightarrow> ActivePing \<Rightarrow> string" where
  "debug_ActivePing ff debug_instant self =
     debug_struct ''ActivePing'' [(''ping_id'', ff_uuid ff (ap_ping_id self)), (''ping'', debug_instant (ap_ping self))]"

definition debug_ClientConnection ::
    "foreign_formats \<Rightarrow> (Instant \<Rightarrow> string) \<Rightarrow> (PacketBuffers \<Rightarrow> string) \<Rightarrow> ClientConnection \<Rightarrow> string" where
  "debug_ClientConnection ff debug_instant debug_buffers self =
     debug_struct ''ClientConnection'' [(''client_addr'', display_addr (cl_client_addr self)),
       (''buffers'', debug_buffers (cl_buffers self)),
       (''active_ping'', debug_option (debug_ActivePing ff debug_instant) (cl_active_ping self)),
       (''last_ping'', debug_option debug_instant (cl_last_pong self)),
       (''missed_pings'', decimal (cl_missed_pongs self))]"

definition debug_map :: "('k \<Rightarrow> string) \<Rightarrow> ('v \<Rightarrow> string) \<Rightarrow> ('k \<times> 'v) list \<Rightarrow> string" where
  "debug_map debug_key debug_value entries =
     ''{'' @ join '', '' (map (\<lambda>(k, v). debug_key k @ '': '' @ debug_value v) entries) @ ''}''"

definition debug_Server ::
    "foreign_formats \<Rightarrow> (Instant \<Rightarrow> string) \<Rightarrow> (PacketBuffers \<Rightarrow> string) \<Rightarrow> (ServerConfig \<Rightarrow> string) \<Rightarrow> string \<Rightarrow> Server \<Rightarrow> string" where
  "debug_Server ff debug_instant debug_buffers debug_config debug_socket self =
     debug_struct ''Server'' [(''config'', debug_config (sv_config self)), (''socket'', debug_socket),
       (''listeners'', debug_map display_addr debug_buffers (sv_listeners self)),
       (''clients'', debug_list (map (debug_option (debug_ClientConnection ff debug_instant debug_buffers)) (sv_clients self)))]"

end
