(* ===== verification/Handler_Abs.thy ===== *)
theory Handler_Abs
  imports Log
begin

text \<open>
  What a handler is told does not influence the protocol beyond its answers. An abstraction \<open>f\<close> from
  one handler to another commutes with every callback; then every operation of server and client
  commutes with it, so both handlers see the same state, the same network and the same panics.
\<close>

section \<open>Shared callbacks\<close>

locale handler_abs =
  fixes handler1 :: "('h1, 'm1) ConnectionHandler_scheme" and handler2 :: "('h2, 'm2) ConnectionHandler_scheme"
    and f :: "'h1 \<Rightarrow> 'h2"
  assumes raw_packet: "f (ch_raw_packet handler1 p h) = ch_raw_packet handler2 p (f h)"
    and error: "f (ch_error handler1 e h) = ch_error handler2 e (f h)"
begin

lemma recv_abs:
  "recv handler2 inbox pb (f h) = (case recv handler1 inbox pb h of (d, rest, pb', h') \<Rightarrow> (d, rest, pb', f h'))"
  by (auto simp: recv_def error Let_def split: list.split sum.split)

lemma update_client_buffers_abs:
  "update_client_buffers cf handler2 i n cs (f h) w =
     map_option (\<lambda>(cs, n, h, w). (cs, n, f h, w)) (update_client_buffers cf handler1 i n cs h w)"
proof (induction cs arbitrary: i n h w)
  case Nil
  then show ?case by simp
next
  case (Cons e cs)
  show ?case
  proof (cases e)
    case None
    with Cons.IH show ?thesis by (auto split: bind_split)
  next
    case (Some c)
    show ?thesis
    proof (cases "PacketBuffers_update (cl_buffers c) (cf_resend_delay cf) (cf_max_missed_acks cf)
        (cf_receive_timeout cf) (udp (cl_client_addr c)) w")
      case None
      with Some show ?thesis by simp
    next
      case (Some x)
      obtain r b w1 where "x = (r, b, w1)" by (cases x)
      with Some \<open>e = Some c\<close> Cons.IH show ?thesis by (cases r) (auto simp: error [symmetric] split: bind_split)
    qed
  qed
qed

lemma Server_handle_buffers_abs:
  "Server_handle_buffers pr handler2 b buf a (f h) w =
     map_option (\<lambda>(p, b, h, w). (p, b, f h, w)) (Server_handle_buffers pr handler1 b buf a h w)"
proof (cases "PacketBuffers_handle b buf (udp a) w")
  case None
  then show ?thesis by (simp add: Server_handle_buffers_def)
next
  case (Some x)
  obtain r b1 w1 where "x = (r, b1, w1)" by (cases x)
  with Some show ?thesis
    by (auto simp: Server_handle_buffers_def raw_packet error Let_def split: sum.split PacketHandling.split ReceivedPacket.split)
qed

lemma send_or_report_abs:
  "send_or_report pr handler2 cf b p a (f h) w =
     map_option (\<lambda>(d, b, h, w). (d, b, f h, w)) (send_or_report pr handler1 cf b p a h w)"
  by (auto simp: send_or_report_def error split: bind_split sum.split)

end

section \<open>The server\<close>

locale server_handler_abs = handler_abs handler1 handler2 f
  for handler1 :: "('h1, 'version, 'query, 'status, 'connect, 'accept, 'reject, 'disconnect, 'user) ServerHandler"
    and handler2 :: "('h2, 'version, 'query, 'status, 'connect, 'accept, 'reject, 'disconnect, 'user) ServerHandler"
    and f :: "'h1 \<Rightarrow> 'h2" +
  assumes version: "sh_version handler2 (f h) = map_prod id f (sh_version handler1 h)"
    and query: "sh_query handler2 a q (f h) = map_prod id f (sh_query handler1 a q h)"
    and connect: "sh_connect handler2 a c (f h) = map_prod id f (sh_connect handler1 a c h)"
    and disconnect: "f (sh_disconnect handler1 a d h) = sh_disconnect handler2 a d (f h)"
    and ping: "f (sh_ping handler1 a h) = sh_ping handler2 a (f h)"
    and pong: "f (sh_pong handler1 a v h) = sh_pong handler2 a v (f h)"
    and packet: "f (sh_packet handler1 a u h) = sh_packet handler2 a u (f h)"
    and unexpected: "f (sh_unexpected handler1 a x h) = sh_unexpected handler2 a x (f h)"
begin

lemma Server_send_version_abs:
  "Server_send_version pr handler2 pb a (f h) w =
     map_option (\<lambda>(r, pb, h, w). (r, pb, f h, w)) (Server_send_version pr handler1 pb a h w)"
  by (cases "sh_version handler1 h") (auto simp: Server_send_version_def version split_def Let_def split: bind_split)

lemma handle_version_request_abs:
  "Server_handle_version_request pr handler2 sv pb a l (f h) w =
     map_option (\<lambda>(sv, pb, h, w). (sv, pb, f h, w)) (Server_handle_version_request pr handler1 sv pb a l h w)"
  by (auto simp: Server_handle_version_request_def Server_send_version_abs error split: bind_split sum.split)

lemma Server_handle_pong_abs:
  "Server_handle_pong handler2 c buf (f h) w = (case Server_handle_pong handler1 c buf h w of (c, h, w) \<Rightarrow> (c, f h, w))"
  by (auto simp: Server_handle_pong_def pong error split: option.split prod.split)

lemma Server_handle_client_abs:
  "Server_handle_client pr handler2 sv i c a buf (f h) w =
     map_option (\<lambda>(sv, h, w). (sv, f h, w)) (Server_handle_client pr handler1 sv i c a buf h w)"
proof (cases "PacketKind_try_from (hd buf) = Some Kind_Ping")
  case True
  then show ?thesis by (simp add: Server_handle_client_def Server_handle_pong_abs split: prod.split)
next
  case False
  show ?thesis
  proof (cases "Server_handle_buffers pr handler1 (cl_buffers c) buf a h w")
    case None
    with False show ?thesis by (simp add: Server_handle_client_def Server_handle_buffers_abs)
  next
    case (Some x)
    obtain p b h1 w1 where "x = (p, b, h1, w1)" by (cases x)
    with False Some show ?thesis
      by (cases p; cases "the p")
        (auto simp: Server_handle_client_def Server_handle_buffers_abs send_or_report_abs query disconnect packet
          unexpected split_def Let_def split: bind_split)
  qed
qed

lemma Server_handle_listener_abs:
  "Server_handle_listener pr handler2 sv b a buf (f h) w =
     map_option (\<lambda>(sv, h, w). (sv, f h, w)) (Server_handle_listener pr handler1 sv b a buf h w)"
proof (cases "Server_handle_buffers pr handler1 b buf a h w")
  case None
  then show ?thesis by (simp add: Server_handle_listener_def Server_handle_buffers_abs)
next
  case (Some x)
  obtain p b1 h1 w1 where "x = (p, b1, h1, w1)" by (cases x)
  with Some show ?thesis
    by (cases p; cases "the p")
      (auto simp: Server_handle_listener_def Server_handle_buffers_abs send_or_report_abs query connect
        unexpected split_def Let_def split: bind_split Connect.split)
qed

lemma Server_handle_packet_abs:
  "Server_handle_packet pr handler2 sv a buf pb (f h) w =
     map_option (\<lambda>(sv, pb, h, w). (sv, pb, f h, w)) (Server_handle_packet pr handler1 sv a buf pb h w)"
  by (auto simp: Server_handle_packet_def handle_version_request_abs Server_handle_client_abs
      Server_handle_listener_abs unexpected split: option.split bind_split)

lemma handle_packets_loop_abs:
  "handle_packets_loop pr handler2 sv inbox pb (f h) w =
     map_option (\<lambda>(sv, h, w). (sv, f h, w)) (handle_packets_loop pr handler1 sv inbox pb h w)"
proof (induction inbox arbitrary: sv pb h w rule: length_induct)
  case (1 inbox)
  obtain d rest pb1 h1 where r: "recv handler1 inbox pb h = (d, rest, pb1, h1)" by (metis prod_cases4)
  show ?case
  proof (cases d)
    case None
    with r show ?thesis by (simp add: handle_packets_loop.simps recv_abs)
  next
    case (Some x)
    obtain a buf where x: "d = Some (a, buf)" using Some by (cases x) simp
    with r recv_shorter [of handler1 inbox pb h "(a, buf)" rest pb1 h1] "1.IH" show ?thesis
      by (auto simp: handle_packets_loop.simps [of pr handler1 sv inbox] handle_packets_loop.simps [of pr handler2 sv inbox]
          recv_abs Server_handle_packet_abs split: bind_split)
  qed
qed

lemma send_ping_abs:
  "send_ping cf handler2 c (f h) w = map_option (\<lambda>(c, h, w). (c, f h, w)) (send_ping cf handler1 c h w)"
  by (auto simp: send_ping_def error ping Let_def split_def split: bind_split sum.split option.split)

lemma send_pings_loop_abs:
  "send_pings_loop cf handler2 cs (f h) w =
     map_option (\<lambda>(cs, h, w). (cs, f h, w)) (send_pings_loop cf handler1 cs h w)"
proof (induction cs arbitrary: h w)
  case (Cons e cs)
  then show ?case by (cases e) (auto simp: send_ping_abs split: bind_split)
qed simp

lemma Server_update_abs:
  "Server_update pr handler2 sv inbox (f h) w =
     map_option (\<lambda>(sv, h, w). (sv, f h, w)) (Server_update pr handler1 sv inbox h w)"
  by (auto simp: Server_update_def Server_update_buffers_def Server_handle_packets_def Server_send_pings_def
      update_client_buffers_abs handle_packets_loop_abs send_pings_loop_abs split: bind_split)

end

section \<open>The client\<close>

context handler_abs
begin

lemma ServerListener_update_abs:
  "ServerListener_update handler2 cf l st (f h) w =
     map_option (\<lambda>(k, l, st, h, w). (k, l, st, f h, w)) (ServerListener_update handler1 cf l st h w)"
  by (auto simp: ServerListener_update_def error Let_def split_def
      split: ServerState.split bind_split sum.split option.split)

lemma update_listeners_abs:
  "update_listeners handler2 cf c st ls (f h) w =
     map_option (\<lambda>(ls, st, h, w). (ls, st, f h, w)) (update_listeners handler1 cf c st ls h w)"
proof (induction ls arbitrary: c st h w)
  case (Cons l ls)
  then show ?case by (auto simp: ServerListener_update_abs Let_def split_def split: bind_split)
qed simp

lemma timeout_listeners_abs:
  "timeout_listeners handler2 cf st ls (f h) w =
     (case timeout_listeners handler1 cf st ls h w of (ls, st, h, w) \<Rightarrow> (ls, st, f h, w))"
proof (induction ls arbitrary: st h w)
  case (Cons l ls)
  then show ?case
    by (cases "sl_state l"; cases "cc_timeout cf") (simp_all add: Let_def split_def error [symmetric])
qed simp

end

locale client_handler_abs = handler_abs handler1 handler2 f
  for handler1 :: "('h1, 'version, 'ce, 'status, 'accept, 'reject, 'kick, 'server) ClientHandler"
    and handler2 :: "('h2, 'version, 'ce, 'status, 'accept, 'reject, 'kick, 'server) ClientHandler"
    and f :: "'h1 \<Rightarrow> 'h2" +
  assumes compatibility: "kh_compatibility handler2 v (f h) = map_prod id f (kh_compatibility handler1 v h)"
    and status: "f (kh_status handler1 a s h) = kh_status handler2 a s (f h)"
    and accept: "f (kh_accept handler1 x h) = kh_accept handler2 x (f h)"
    and reject: "f (kh_reject handler1 r h) = kh_reject handler2 r (f h)"
    and kick: "f (kh_kick handler1 k h) = kh_kick handler2 k (f h)"
    and ping: "f (kh_ping handler1 h) = kh_ping handler2 (f h)"
    and packet: "f (kh_packet handler1 u h) = kh_packet handler2 u (f h)"
    and unexpected: "f (kh_unexpected handler1 a y h) = kh_unexpected handler2 a y (f h)"
begin

lemma handle_connection_packet_abs:
  "Client_handle_connection_packet handler2 st c a p (f h) =
     map_prod id f (Client_handle_connection_packet handler1 st c a p h)"
  by (auto simp: Client_handle_connection_packet_def status accept reject kick packet unexpected
      split: ServerConnectionPacket.split)

lemma Client_handle_pending_abs:
  "Client_handle_pending pr handler2 ct i a buf (f h) w =
     (case Client_handle_pending pr handler1 ct i a buf h w of (ct, h, w) \<Rightarrow> (ct, f h, w))"
  by (auto simp: Client_handle_pending_def unexpected compatibility Let_def split_def split: list.split sum.split)

lemma Client_handle_compatible_abs:
  "Client_handle_compatible pr handler2 ct i c b a buf (f h) w =
     map_option (\<lambda>(ct, h, w). (ct, f h, w)) (Client_handle_compatible pr handler1 ct i c b a buf h w)"
proof (cases "c \<and> buf \<noteq> [] \<and> PacketKind_try_from (hd buf) = Some Kind_Ping")
  case True
  then show ?thesis
    by (auto simp: Client_handle_compatible_def ping error Let_def split_def split: bind_split sum.split)
next
  case False
  obtain now w1 where "Instant_now w = (now, w1)" by (cases "Instant_now w")
  with False show ?thesis
    by (auto simp: Client_handle_compatible_def raw_packet [symmetric] error [symmetric]
        handle_connection_packet_abs Let_def split_def
        split: bind_split sum.split PacketHandling.split ReceivedPacket.split)
qed

lemma Client_handle_packet_abs:
  "Client_handle_packet pr handler2 ct a buf (f h) w =
     map_option (\<lambda>(ct, h, w). (ct, f h, w)) (Client_handle_packet pr handler1 ct a buf h w)"
  by (auto simp: Client_handle_packet_def Client_handle_pending_abs Client_handle_compatible_abs unexpected Let_def
      split: option.split ServerState.split)

lemma client_packets_loop_abs:
  "client_packets_loop pr handler2 ct inbox pb (f h) w =
     map_option (\<lambda>(ct, h, w). (ct, f h, w)) (client_packets_loop pr handler1 ct inbox pb h w)"
proof (induction inbox arbitrary: ct pb h w rule: length_induct)
  case (1 inbox)
  obtain d rest pb1 h1 where r: "recv handler1 inbox pb h = (d, rest, pb1, h1)" by (metis prod_cases4)
  show ?case
  proof (cases d)
    case None
    with r show ?thesis by (simp add: client_packets_loop.simps recv_abs)
  next
    case (Some x)
    obtain a buf where x: "d = Some (a, buf)" using Some by (cases x) simp
    with r recv_shorter [of handler1 inbox pb h "(a, buf)" rest pb1 h1] "1.IH" show ?thesis
      by (auto simp: client_packets_loop.simps [of pr handler1 ct inbox] client_packets_loop.simps [of pr handler2 ct inbox]
          recv_abs Client_handle_packet_abs split: bind_split)
  qed
qed

lemma Client_update_abs:
  "Client_update pr handler2 ct inbox (f h) w =
     map_option (\<lambda>(ct, h, w). (ct, f h, w)) (Client_update pr handler1 ct inbox h w)"
  by (auto simp: Client_update_def Client_timeout_connection_def update_listeners_abs client_packets_loop_abs
      timeout_listeners_abs Let_def split_def split: bind_split)

end

section \<open>The logging handlers\<close>

text \<open>Forgetting what has been printed turns a logging handler into the default one.\<close>

interpretation log_server: server_handler_abs "BasicLogServerHandler ff sf version status accept"
    "DefaultServerHandler version status accept" "\<lambda>_. ()"
  for ff sf version status accept
  by unfold_locales (auto simp: BasicLogServerHandler_def DefaultServerHandler_def Let_def)

interpretation log_client: client_handler_abs "BasicLogClientHandler ff kf" DefaultClientHandler "\<lambda>_. ()"
  for ff kf
  by unfold_locales (auto simp: BasicLogClientHandler_def DefaultClientHandler_def)

text \<open>What has been printed before stays, in front of what a call prints.\<close>

interpretation append_server: server_handler_abs "BasicLogServerHandler ff sf version status accept"
    "BasicLogServerHandler ff sf version status accept" "(@) out"
  for ff sf version status accept out
  by unfold_locales (auto simp: BasicLogServerHandler_def BasicLogConnectionHandler_def println_def Let_def)

interpretation append_client: client_handler_abs "BasicLogClientHandler ff kf" "BasicLogClientHandler ff kf" "(@) out"
  for ff kf out
  by unfold_locales (auto simp: BasicLogClientHandler_def BasicLogConnectionHandler_def println_def)

end
