(* ===== verification/Authentic.thy ===== *)
theory Authentic
  imports Link Handler_Abs Server_Spec Client_Spec
begin

text \<open>
  Where the packets come from that a server or a client hands to its handler. \<open>M a\<close> are the packets,
  by id, that the peer at address \<open>a\<close> was asked to send. Whatever arrives, if the parts among it are
  parts of these packets, then the handler only gets packets of them; acknowledgements, pings,
  \<open>Done\<close> and malformed datagrams may be made up by anyone.
\<close>

section \<open>Packet buffers\<close>

definition authentic :: "(PacketId \<rightharpoonup> u8 list) \<Rightarrow> PacketBuffers \<Rightarrow> bool" where
  "authentic M b \<longleftrightarrow> recv_wf (pbs_receive_buffer b) \<and>
     (\<forall>i x. incoming b i = Some x \<longrightarrow> (\<exists>bs S. M i = Some bs \<and> receiving bs S (Some x)))"

definition is_part :: "u8 list \<Rightarrow> bool" where
  "is_part d \<longleftrightarrow> d \<noteq> [] \<and> (PacketKind_try_from (hd d) = Some Kind_Part \<or> PacketKind_try_from (hd d) = Some Kind_LastPart)"

definition part_authentic :: "(PacketId \<rightharpoonup> u8 list) \<Rightarrow> u8 list \<Rightarrow> bool" where
  "part_authentic M d \<longleftrightarrow> (is_part d \<longrightarrow>
     (\<exists>i bs. M i = Some bs \<and> length bs \<le> 491 * (2 ^ 32 - 1) \<and> d \<in> packet_frames i bs))"

lemma authentic_new [simp]: "authentic M (PacketBuffers_new n)"
  by (simp add: authentic_def PacketBuffers_new_def ReceivePacketBuffer_default_def recv_wf_def btree.invar_empty BTreeMap_get_def)

lemma authentic_send:
  assumes "PacketBuffers_send b ws t s w = Some (r, b', w')" "authentic M b" shows "authentic M b'"
proof -
  have "pbs_receive_buffer b' = pbs_receive_buffer b" using assms(1) by (auto simp: PacketBuffers_send_def bind_eq_Some_conv)
  with assms(2) show ?thesis by (simp add: authentic_def)
qed

lemma authentic_entries:
  assumes "authentic M b" "recv_wf (pbs_receive_buffer b')" "entries_of b' \<subseteq> entries_of b"
  shows "authentic M b'"
  using assms entries_get [of b] entries_get [of b'] unfolding authentic_def by blast

lemma authentic_update:
  assumes "PacketBuffers_update b d m rt (udp a) w = Some (r, b', w')" "authentic M b" shows "authentic M b'"
proof (rule authentic_entries [OF assms(2)])
  from assms(1) obtain b1 w1 sb where t: "PacketBuffers_timeout_packets b m rt w = Some (b1, w1)" "b' = b1\<lparr>pbs_send_buffer := sb\<rparr>"
    by (auto simp: PacketBuffers_update_def PacketBuffers_send_pending_def run_simps)
  with assms(2) PacketBuffers_timeout_packets_spec [of b m rt w] show "recv_wf (pbs_receive_buffer b')"
    by (auto simp: authentic_def)
  show "entries_of b' \<subseteq> entries_of b" using timeout_packets_subset(3) [OF t(1)] t(2) by simp
qed

text \<open>A datagram that is no part delivers nothing and starts no packet.\<close>

lemma handle_no_part:
  assumes "PacketBuffers_handle b d s w = Some (r, b', w')" "\<not> is_part d" "authentic M b"
  shows "authentic M b'" "r \<noteq> Inr (HandlingReceived x)"
proof -
  let ?rb = "pbs_receive_buffer b"
  have recv: "y \<noteq> Inr (ReceivedAck z) \<and> (rb = ?rb \<or> (\<exists>i. rb = ?rb\<lparr>rb_packets := BTreeMap_remove i (rb_packets ?rb)\<rparr>))"
    if "ReceivePacketBuffer_handle ?rb d s w = Some (y, rb, w1)" for y z rb w1
    using that assms(2)
    by (auto simp: ReceivePacketBuffer_handle_def ReceivePacketBuffer_done_def is_part_def run_simps
        split: list.split_asm if_split_asm)
  have "pbs_receive_buffer b' = ?rb \<or> (\<exists>i. pbs_receive_buffer b' = ?rb\<lparr>rb_packets := BTreeMap_remove i (rb_packets ?rb)\<rparr>)"
    "r \<noteq> Inr (HandlingReceived x)"
    using assms(1)
    by (auto simp: PacketBuffers_handle_def run_simps case_handling_eq_Some dest!: recv split: if_split_asm)
  then show "authentic M b'" "r \<noteq> Inr (HandlingReceived x)"
    using assms(3) by (auto simp: authentic_def recv_wf_def btree.invar_remove btree.get_remove split: if_split_asm)
qed

lemma handle_recv_wf:
  assumes "PacketBuffers_handle b d s w = Some (r, b', w')" "recv_wf (pbs_receive_buffer b)"
  shows "recv_wf (pbs_receive_buffer b')"
proof (cases "b' = b")
  case False
  with assms(1) show ?thesis by (rule handle_changes) (use handle_wf [OF assms(2)] in simp_all)
qed (use assms(2) in simp)

lemma authentic_handle:
  assumes "PacketBuffers_handle b d (udp a) w = Some (r, b', w')" "authentic M b" "part_authentic M d"
  shows "authentic M b' \<and> (\<forall>bs. r = Inr (HandlingReceived (Reassembled bs)) \<longrightarrow> bs \<in> ran M)"
proof (cases "is_part d")
  case False
  with handle_no_part [OF assms(1) False assms(2)] show ?thesis by blast
next
  case True
  then obtain i bs idx where d: "M i = Some bs" "length bs \<le> 491 * (2 ^ 32 - 1)" "d = part_frame i bs idx" "idx < length (chunks bs)"
    using assms(3) by (auto simp: part_authentic_def packet_frames_def)
  have n: "length (chunks bs) < 2 ^ 32" using part_count_bound [OF d(2)] by (simp add: length_chunks)
  have wf: "recv_wf (pbs_receive_buffer b)" using assms(2) by (simp add: authentic_def)
  have "\<exists>S. receiving bs S (incoming b i)"
  proof (cases "incoming b i")
    case None
    then show ?thesis by (intro exI [of _ "{}"]) (simp add: receiving_def)
  next
    case (Some x)
    then obtain bs' S where "M i = Some bs'" "receiving bs' S (Some x)" using assms(2) unfolding authentic_def by blast
    with Some d(1) show ?thesis by (intro exI [of _ S]) simp
  qed
  then obtain S where S: "receiving bs S (incoming b i)" ..
  obtain rb where rb: "b' = b\<lparr>pbs_receive_buffer := rb\<rparr>" "receiving bs (insert idx S) (BTreeMap_get (rb_packets rb) i)"
    "\<And>j. j \<noteq> i \<Longrightarrow> BTreeMap_get (rb_packets rb) j = incoming b j"
    "r = Inr (HandlingReceived (outcome bs S idx)) \<or> (\<exists>x. r = Inl (HandleReceive (PacketReceiveError i (ReceiveIo x))))"
    by (rule handle_part_effect [OF assms(1) [unfolded d(3)] wf S d(4) n]) blast
  have "recv_wf (pbs_receive_buffer b')" using handle_recv_wf [OF assms(1) wf] .
  moreover have "\<exists>bs S. M j = Some bs \<and> receiving bs S (Some x)" if "incoming b' j = Some x" for j x
  proof (cases "j = i")
    case True
    with that rb(1,2) d(1) show ?thesis by (intro exI [of _ bs] exI [of _ "insert idx S"]) simp
  next
    case False
    then have "incoming b j = Some x" using that rb(1,3) by simp
    with assms(2) show ?thesis unfolding authentic_def by blast
  qed
  ultimately have "authentic M b'" by (simp add: authentic_def)
  moreover have "x \<in> ran M" if "r = Inr (HandlingReceived (Reassembled x))" for x
    using that rb(4) ranI [of M, OF d(1)] by (auto simp: outcome_def split: if_split_asm)
  ultimately show ?thesis by blast
qed

section \<open>Handlers\<close>

text \<open>A packet that the peer at \<open>a\<close> was asked to send.\<close>

definition from_peer ::
    "(SocketAddr \<Rightarrow> PacketId \<rightharpoonup> u8 list) \<Rightarrow> ('version, 'out, 'in) Protocol \<Rightarrow> SocketAddr \<Rightarrow> 'in \<Rightarrow> bool" where
  "from_peer M pr a p \<longleftrightarrow> (\<exists>bs \<in> ran (M a). pr_check_archived_root pr bs = Inr p)"

text \<open>A property \<open>P\<close> of the handler's state that the callbacks of both sides keep.\<close>

locale handler_keeps =
  fixes handler :: "('h, 'm) ConnectionHandler_scheme" and P :: "'h \<Rightarrow> bool"
  assumes raw_packet: "P h \<Longrightarrow> P (ch_raw_packet handler p h)"
    and error: "P h \<Longrightarrow> P (ch_error handler e h)"
begin

lemma recv_keeps:
  assumes "recv handler inbox pb h = (d, rest, pb', h')" "P h" shows "P h'"
  using assms by (auto simp: recv_def Let_def error split: list.split_asm sum.split_asm)

lemma Server_handle_buffers_keeps:
  assumes "Server_handle_buffers pr handler b buf a h w = Some (p, b', h', w')"
    and "authentic (M a) b" "part_authentic (M a) buf" "P h"
  shows "authentic (M a) b' \<and> P h' \<and> (\<forall>x. p = Some x \<longrightarrow> from_peer M pr a x)"
proof -
  obtain r b1 w1 where h: "PacketBuffers_handle b buf (udp a) w = Some (r, b1, w1)"
    using assms(1) by (auto simp: Server_handle_buffers_def bind_eq_Some_conv)
  have b1: "authentic (M a) b1" "\<And>bs. r = Inr (HandlingReceived (Reassembled bs)) \<Longrightarrow> bs \<in> ran (M a)"
    using authentic_handle [OF h assms(2,3)] by blast+
  show ?thesis
    using assms(1,4) b1 h
    by (auto simp: Server_handle_buffers_def from_peer_def Let_def raw_packet error
        split: sum.split_asm PacketHandling.split_asm ReceivedPacket.split_asm)
qed

lemma send_or_report_keeps:
  assumes "send_or_report pr handler cf b p a h w = Some (failed, b', h', w')" "authentic N b" "P h"
  shows "authentic N b' \<and> P h'"
  using assms by (auto simp: send_or_report_def run_simps error dest: authentic_send)

end

context handler_keeps
begin

lemma update_client_buffers_keeps:
  assumes "update_client_buffers cf handler i f cs h w = Some (cs', f', h', w')" "P h"
    and "\<forall>c. Some c \<in> set cs \<longrightarrow> authentic (N (cl_client_addr c)) (cl_buffers c)"
  shows "P h' \<and> (\<forall>c. Some c \<in> set cs' \<longrightarrow> authentic (N (cl_client_addr c)) (cl_buffers c))"
  using assms
proof (induction cs arbitrary: i f h w cs')
  case (Cons e cs)
  show ?case
  proof (cases e)
    case None
    with Cons show ?thesis by (fastforce simp: bind_eq_Some_conv)
  next
    case (Some c)
    obtain r b w1 where u: "PacketBuffers_update (cl_buffers c) (cf_resend_delay cf) (cf_max_missed_acks cf)
        (cf_receive_timeout cf) (udp (cl_client_addr c)) w = Some (r, b, w1)"
      using Cons.prems(1) Some by (auto simp: bind_eq_Some_conv)
    have "authentic (N (cl_client_addr c)) b" using authentic_update [OF u] Cons.prems(3) Some by simp
    with Cons u Some show ?thesis by (cases r) (fastforce simp: bind_eq_Some_conv error)+
  qed
qed simp

end

text \<open>What arrives, cut to the size of the receive buffer.\<close>

definition inbox_authentic :: "(SocketAddr \<Rightarrow> PacketId \<rightharpoonup> u8 list) \<Rightarrow> inbox \<Rightarrow> bool" where
  "inbox_authentic M inbox \<longleftrightarrow> (\<forall>a d. Inr (a, d) \<in> set inbox \<longrightarrow> part_authentic (M a) (take PACKET_BUFFER_SIZE d))"

lemma recv_authentic:
  assumes "recv handler inbox pb h = (Some (a, buf), rest, pb', h')" "inbox_authentic M inbox" "length pb = PACKET_BUFFER_SIZE"
  shows "part_authentic (M a) buf" "inbox_authentic M rest" "length pb' = PACKET_BUFFER_SIZE"
  using assms recv_buffer [of handler inbox pb h]
  by (auto simp: recv_def inbox_authentic_def Let_def split: list.split_asm sum.split_asm)

section \<open>The server\<close>

definition server_authentic :: "(SocketAddr \<Rightarrow> PacketId \<rightharpoonup> u8 list) \<Rightarrow> Server \<Rightarrow> bool" where
  "server_authentic M sv \<longleftrightarrow> (\<forall>(a, b) \<in> set (sv_listeners sv). authentic (M a) b) \<and>
     (\<forall>c. Some c \<in> set (sv_clients sv) \<longrightarrow> authentic (M (cl_client_addr c)) (cl_buffers c))"

lemma server_authentic_listener:
  assumes "server_authentic M sv" "BTreeMap_get (sv_listeners sv) a = Some b" shows "authentic (M a) b"
  using assms by (auto simp: server_authentic_def BTreeMap_get_def dest: map_of_SomeD)

lemma server_authentic_insert:
  assumes "server_authentic M sv" "authentic (M a) b"
  shows "server_authentic M (sv\<lparr>sv_listeners := BTreeMap_insert a b (sv_listeners sv)\<rparr>)"
  using assms by (auto simp: server_authentic_def dest!: set_BTreeMap_insertD)

lemma server_authentic_slot:
  assumes "server_authentic M sv" "\<And>c. e = Some c \<Longrightarrow> authentic (M (cl_client_addr c)) (cl_buffers c)"
  shows "server_authentic M (sv\<lparr>sv_clients := (sv_clients sv)[i := e]\<rparr>)"
  using assms by (auto simp: server_authentic_def dest!: subsetD [OF set_update_subset_insert])

lemma server_authentic_remove:
  "server_authentic M sv \<Longrightarrow> server_authentic M (sv\<lparr>sv_listeners := BTreeMap_remove a (sv_listeners sv)\<rparr>)"
  by (auto simp: server_authentic_def BTreeMap_remove_def)

lemma server_authentic_free_slot:
  "server_authentic M sv \<Longrightarrow> server_authentic M (sv\<lparr>sv_clients := snd (Server_get_or_add_free_slot (sv_clients sv))\<rparr>)"
  by (auto simp: server_authentic_def Server_get_or_add_free_slot_def split: option.split)

lemma handle_packet_same_buffer:
  assumes "Server_handle_packet pr handler sv a buf pb h w = Some (sv', pb', h', w')" "protocol_ok pr"
    and "length pb = PACKET_BUFFER_SIZE"
  shows "length pb' = PACKET_BUFFER_SIZE"
proof (cases "buf = []")
  case False
  with assms(1,3) show ?thesis by (auto simp: Server_handle_packet_def bind_eq_Some_conv split: option.split_asm)
next
  case True
  obtain x xs where pb: "pb = x # xs" "length xs = PACKET_DATA_SIZE"
    using assms(3) by (cases pb) (auto simp: PACKET_DATA_SIZE_def PACKET_BUFFER_SIZE_def)
  have written: "length (snd (pr_version_write pr v xs)) = PACKET_DATA_SIZE" for v
    using assms(2) pb(2) unfolding protocol_ok_def by metis
  have "length pb1 = PACKET_BUFFER_SIZE" if "Server_send_version pr handler pb a h w = Some (r, pb1, h1, w1)" for r pb1 h1 w1
  proof -
    have "pb1 = PacketKind_into Kind_Version # snd (pr_version_write pr (fst (sh_version handler h)) xs)"
      using that by (auto simp: Server_send_version_def pb(1) index_set_def Let_def split_def bind_eq_Some_conv)
    then show ?thesis using written by (simp add: PACKET_DATA_SIZE_def PACKET_BUFFER_SIZE_def)
  qed
  moreover obtain r h1 w1 where "Server_send_version pr handler pb a h w = Some (r, pb', h1, w1)"
    using assms(1) True
    by (auto simp: Server_handle_packet_def Server_handle_version_request_def run_simps split: if_split_asm)
  ultimately show ?thesis by blast
qed

text \<open>The addresses of the clients.\<close>

definition client_addrs :: "Server \<Rightarrow> SocketAddr set" where
  "client_addrs sv = {a. Some a \<in> set (slots (sv_clients sv))}"

lemma client_addrs_listeners [simp]: "client_addrs (sv\<lparr>sv_listeners := ls\<rparr>) = client_addrs sv"
  by (simp add: client_addrs_def)

lemma client_addrs_same:
  assumes "i < length (sv_clients sv)" "sv_clients sv ! i = Some c" "cl_client_addr c' = cl_client_addr c"
  shows "client_addrs (sv\<lparr>sv_clients := (sv_clients sv)[i := Some c']\<rparr>) = client_addrs sv"
  using slots_update_same [OF assms] by (simp add: client_addrs_def)

lemma client_addrs_leave:
  assumes "server_wf sv" "i < length (sv_clients sv)" "sv_clients sv ! i = Some c"
  shows "client_addrs (sv\<lparr>sv_clients := (sv_clients sv)[i := None], sv_listeners := ls\<rparr>) = client_addrs sv - {cl_client_addr c}"
proof -
  have "slots (sv_clients sv) ! i = Some (cl_client_addr c)" using assms(2,3) by simp
  from set_update_None [OF _ _ this] assms(1,2) show ?thesis by (auto simp: client_addrs_def slots_update server_wf_def)
qed

lemma client_addrs_accept:
  assumes "Server_get_or_add_free_slot (sv_clients sv) = (i, cs)"
  shows "client_addrs (sv\<lparr>sv_listeners := ls, sv_clients := cs[i := Some (ClientConnection_new a b)]\<rparr>) \<subseteq> insert a (client_addrs sv)"
proof -
  have "set (slots cs) \<subseteq> insert None (set (slots (sv_clients sv)))"
    using get_or_add_free_slot(3) [OF assms] by (auto simp: slots_def)
  then show ?thesis
    using set_update_subset_insert [of "slots cs" i "Some a"]
    by (auto simp: client_addrs_def slots_update ClientConnection_new_def)
qed

lemma client_addrs_kept: "list_all2 slot_kept (sv_clients sv) cs \<Longrightarrow> client_addrs (sv\<lparr>sv_clients := cs\<rparr>) \<subseteq> client_addrs sv"
  using refresh_slots(1) by (auto simp: client_addrs_def)

lemma client_addrs_take: "client_addrs (sv\<lparr>sv_clients := take n cs\<rparr>) \<subseteq> client_addrs (sv\<lparr>sv_clients := cs\<rparr>)"
  by (auto simp: client_addrs_def slots_def take_map [symmetric] dest: in_set_takeD)

text \<open>A property \<open>P\<close> of the set of clients and the handler's state: a client may get lost at any time and
  is added when the handler accepts it; the callbacks with a packet keep \<open>P\<close> for packets that the
  peer was asked to send, user packets and disconnects for clients only.\<close>

locale server_handler_keeps =
  fixes handler :: "('h, 'version, 'query, 'status, 'connect, 'accept, 'reject, 'disconnect, 'user) ServerHandler"
    and P :: "SocketAddr set \<Rightarrow> 'h \<Rightarrow> bool" and M :: "SocketAddr \<Rightarrow> PacketId \<rightharpoonup> u8 list"
    and pr :: "('version, 'query, 'status, 'connect, 'accept, 'reject, 'kick, 'disconnect, 'server, 'user) ServerProtocol"
  assumes raw_packet: "P C h \<Longrightarrow> P C (ch_raw_packet handler p h)"
    and error: "P C h \<Longrightarrow> P C (ch_error handler e h)"
    and lost: "P C h \<Longrightarrow> C' \<subseteq> C \<Longrightarrow> P C' h"
    and version: "P C h \<Longrightarrow> P C (snd (sh_version handler h))"
    and query: "P C h \<Longrightarrow> from_peer M pr a (CC_Query q) \<Longrightarrow> P C (snd (sh_query handler a q h))"
    and accept: "P C h \<Longrightarrow> from_peer M pr a (CC_Connect c) \<Longrightarrow> sh_connect handler a c h = (Connect_Accept y, h') \<Longrightarrow> P (insert a C) h'"
    and reject: "P C h \<Longrightarrow> from_peer M pr a (CC_Connect c) \<Longrightarrow> sh_connect handler a c h = (Connect_Reject r, h') \<Longrightarrow> P C h'"
    and disconnect: "P C h \<Longrightarrow> a \<in> C \<Longrightarrow> from_peer M pr a (CC_Disconnect d) \<Longrightarrow> P (C - {a}) (sh_disconnect handler a d h)"
    and packet: "P C h \<Longrightarrow> a \<in> C \<Longrightarrow> from_peer M pr a (CC_User u) \<Longrightarrow> P C (sh_packet handler a u h)"
    and ping: "P C h \<Longrightarrow> P C (sh_ping handler a h)"
    and pong: "P C h \<Longrightarrow> P C (sh_pong handler a v h)"
    and unexpected: "P C h \<Longrightarrow> P C (sh_unexpected handler a x h)"

sublocale server_handler_keeps \<subseteq> any: handler_keeps handler "P C" for C
  by unfold_locales (rule raw_packet error; assumption)+

context server_handler_keeps
begin

lemma handle_version_request_keeps:
  assumes "Server_handle_version_request pr handler sv pb a l h w = Some (sv', pb', h', w')" "server_authentic M sv"
    and "P (client_addrs sv) h"
  shows "server_authentic M sv' \<and> P (client_addrs sv') h'"
proof -
  obtain v h1 where v: "sh_version handler h = (v, h1)" by (cases "sh_version handler h")
  then have "P (client_addrs sv) h1" using version [OF assms(3)] by simp
  with assms v show ?thesis
    by (auto simp: Server_handle_version_request_def Server_send_version_def run_simps error
        intro: server_authentic_insert split: if_split_asm prod.split_asm)
qed

lemma Server_handle_pong_keeps:
  assumes "Server_handle_pong handler c buf h w = (c', h', w')" "P C h"
  shows "P C h' \<and> cl_client_addr c' = cl_client_addr c \<and> cl_buffers c' = cl_buffers c"
  using assms by (auto simp: Server_handle_pong_def Instant_now_def pong error split: option.split_asm if_split_asm)

text \<open>The packet of a client, and what becomes of the client.\<close>

lemma Server_handle_client_packet_keeps:
  assumes "Server_handle_client pr handler sv i c a buf h w = Some (sv', h', w')" "PacketKind_try_from (hd buf) \<noteq> Some Kind_Ping"
    and "P C h" "a \<in> C" "authentic (M a) (cl_buffers c)" "cl_client_addr c = a" "part_authentic (M a) buf"
  obtains gone b where "authentic (M a) b" "P (if gone then C - {a} else C) h'"
    "sv' = (if gone then sv\<lparr>sv_clients := (sv_clients sv)[i := None], sv_listeners := BTreeMap_insert a b (sv_listeners sv)\<rparr>
       else sv\<lparr>sv_clients := (sv_clients sv)[i := Some (c\<lparr>cl_buffers := b\<rparr>)]\<rparr>)"
proof -
  obtain p b h1 w1 where b: "Server_handle_buffers pr handler (cl_buffers c) buf a h w = Some (p, b, h1, w1)"
    using assms(1,2) by (auto simp: Server_handle_client_def bind_eq_Some_conv)
  have b1: "authentic (M a) b" "P C h1" "\<And>x. p = Some x \<Longrightarrow> from_peer M pr a x"
    using any.Server_handle_buffers_keeps [where M = M, OF b assms(5,7,3)] by blast+
  have less: "P (C - {a}) h2" if "P C h2" for h2 using that by (rule lost) blast
  show thesis
  proof (cases p)
    case None
    with assms(1,2,6) b b1 show thesis by (intro that [of b False]) (auto simp: Server_handle_client_def)
  next
    case (Some x)
    note run = assms(1) [unfolded Server_handle_client_def if_not_P [OF assms(2)] b Some] and x = b1(3) [OF Some]
    show thesis
    proof (cases x)
      case (CC_Query q)
      obtain st h2 where q: "sh_query handler a q h1 = (st, h2)" by (cases "sh_query handler a q h1")
      then have h2: "P C h2" using query [OF b1(2), of a q] x CC_Query by simp
      obtain gone b2 h3 w3 where s: "send_or_report pr handler (sv_config sv) b (SC_Status st) a h2 w1 = Some (gone, b2, h3, w3)"
        using run CC_Query q by (auto simp: bind_eq_Some_conv)
      have "authentic (M a) b2" "P C h3" using any.send_or_report_keeps [OF s b1(1) h2] by blast+
      with run CC_Query q s less assms(6) show thesis by (intro that [of b2 gone]) auto
    next
      case (CC_Connect y)
      with run assms(6) b1(1) less [OF unexpected [OF b1(2)]] show thesis by (intro that [of b True]) auto
    next
      case (CC_Disconnect y)
      with run assms(6) b1(1) disconnect [OF b1(2) assms(4), of y] x show thesis by (intro that [of b True]) auto
    next
      case (CC_User y)
      with run assms(6) b1(1) packet [OF b1(2) assms(4), of y] x show thesis by (intro that [of b False]) auto
    qed
  qed
qed

lemma Server_handle_client_keeps:
  assumes "Server_handle_client pr handler sv i c a buf h w = Some (sv', h', w')" "server_authentic M sv" "P (client_addrs sv) h"
    and "server_wf sv" "i < length (sv_clients sv)" "sv_clients sv ! i = Some c" "cl_client_addr c = a" "part_authentic (M a) buf"
  shows "server_authentic M sv' \<and> P (client_addrs sv') h'"
proof -
  have b: "authentic (M a) (cl_buffers c)" using assms(2,5-7) by (metis nth_mem server_authentic_def)
  note same = client_addrs_same [OF assms(5,6)]
  show ?thesis
  proof (cases "PacketKind_try_from (hd buf) = Some Kind_Ping")
    case True
    obtain c' where c': "Server_handle_pong handler c buf h w = (c', h', w')" "sv' = sv\<lparr>sv_clients := (sv_clients sv)[i := Some c']\<rparr>"
      using assms(1) True by (auto simp: Server_handle_client_def split: prod.split_asm)
    note k = Server_handle_pong_keeps [OF c'(1) assms(3)]
    have "server_authentic M sv'" unfolding c'(2) by (rule server_authentic_slot [OF assms(2)]) (use k b assms(7) in auto)
    with k same [of c'] show ?thesis by (simp add: c'(2))
  next
    case False
    have a: "a \<in> client_addrs sv" using assms(5-7) nth_mem [of i "slots (sv_clients sv)"] by (simp add: client_addrs_def)
    obtain gone b2 where k: "authentic (M a) b2" "P (if gone then client_addrs sv - {a} else client_addrs sv) h'"
      "sv' = (if gone then sv\<lparr>sv_clients := (sv_clients sv)[i := None], sv_listeners := BTreeMap_insert a b2 (sv_listeners sv)\<rparr>
         else sv\<lparr>sv_clients := (sv_clients sv)[i := Some (c\<lparr>cl_buffers := b2\<rparr>)]\<rparr>)"
      by (rule Server_handle_client_packet_keeps [OF assms(1) False assms(3) a b assms(7,8)])
    show ?thesis
    proof (cases gone)
      case True
      with k client_addrs_leave [OF assms(4-6)] assms(7)
        server_authentic_insert [OF server_authentic_slot [OF assms(2), of None i], of a b2] show ?thesis by simp
    next
      case False
      with k same [of "c\<lparr>cl_buffers := b2\<rparr>"] assms(7) server_authentic_slot [OF assms(2), of "Some (c\<lparr>cl_buffers := b2\<rparr>)" i]
      show ?thesis by simp
    qed
  qed
qed

lemma accept_keeps:
  assumes "Server_handle_listener pr handler sv b a buf h w = Some (sv', h', w')"
    and "Server_handle_buffers pr handler b buf a h w = Some (Some (CC_Connect y), b1, h1, w1)"
    and "server_authentic M sv" "authentic (M a) b1" "P (client_addrs sv) h1" "from_peer M pr a (CC_Connect y)"
  shows "server_authentic M sv' \<and> P (client_addrs sv') h'"
proof -
  obtain answer h2 where q: "sh_connect handler a y h1 = (answer, h2)" by (cases "sh_connect handler a y h1")
  note run = assms(1) [unfolded Server_handle_listener_def assms(2)] and keep = server_authentic_insert [OF assms(3), of a]
  show ?thesis
  proof (cases answer)
    case (Connect_Accept x)
    have h2: "P (insert a (client_addrs sv)) h2" using accept [OF assms(5,6)] q Connect_Accept by blast
    obtain failed b2 w2 where s: "send_or_report pr handler (sv_config sv) b1 (SC_Accept x) a h2 w1 = Some (failed, b2, h', w2)"
      using run q Connect_Accept by (auto simp: bind_eq_Some_conv split: if_split_asm prod.split_asm)
    have b2: "authentic (M a) b2" "P (insert a (client_addrs sv)) h'" using any.send_or_report_keeps [OF s assms(4) h2] by blast+
    obtain k cs where free: "Server_get_or_add_free_slot (sv_clients sv) = (k, cs)"
      by (cases "Server_get_or_add_free_slot (sv_clients sv)")
    have "server_authentic M (sv\<lparr>sv_listeners := BTreeMap_remove a (sv_listeners sv), sv_clients := cs[k := Some (ClientConnection_new a b2)]\<rparr>)"
      using server_authentic_slot [OF server_authentic_free_slot [OF server_authentic_remove [OF assms(3), of a]],
          of "Some (ClientConnection_new a b2)" k] b2(1) free
      by (simp add: ClientConnection_new_def)
    moreover have "P (client_addrs (sv\<lparr>sv_listeners := BTreeMap_remove a (sv_listeners sv), sv_clients := cs[k := Some (ClientConnection_new a b2)]\<rparr>)) h'"
      using b2(2) client_addrs_accept [OF free] by (rule lost)
    moreover have "P (client_addrs sv) h'" using b2(2) by (rule lost) blast
    ultimately show ?thesis using run q Connect_Accept s keep [OF b2(1)] free by (auto split: if_split_asm)
  next
    case (Connect_Reject x)
    have h2: "P (client_addrs sv) h2" using reject [OF assms(5,6)] q Connect_Reject by blast
    with run q Connect_Reject any.send_or_report_keeps [where pr = pr, OF _ assms(4)] keep show ?thesis
      by (auto simp: bind_eq_Some_conv)
  qed
qed

lemma Server_handle_listener_keeps:
  assumes "Server_handle_listener pr handler sv b a buf h w = Some (sv', h', w')" "server_authentic M sv" "P (client_addrs sv) h"
    and "authentic (M a) b" "part_authentic (M a) buf"
  shows "server_authentic M sv' \<and> P (client_addrs sv') h'"
proof -
  obtain p b1 h1 w1 where b: "Server_handle_buffers pr handler b buf a h w = Some (p, b1, h1, w1)"
    using assms(1) by (auto simp: Server_handle_listener_def bind_eq_Some_conv)
  have b1: "authentic (M a) b1" "P (client_addrs sv) h1" "\<And>x. p = Some x \<Longrightarrow> from_peer M pr a x"
    using any.Server_handle_buffers_keeps [where M = M, OF b assms(4,5,3)] by blast+
  note keep = server_authentic_insert [OF assms(2), of a]
  show ?thesis
  proof (cases p)
    case None
    with assms(1) b b1 keep show ?thesis by (auto simp: Server_handle_listener_def)
  next
    case (Some x)
    note run = assms(1) [unfolded Server_handle_listener_def b Some] and x = b1(3) [OF Some]
    show ?thesis
    proof (cases x)
      case (CC_Query q)
      obtain st h2 where q: "sh_query handler a q h1 = (st, h2)" by (cases "sh_query handler a q h1")
      then have "P (client_addrs sv) h2" using query [OF b1(2), of a q] x CC_Query by simp
      with run CC_Query q any.send_or_report_keeps [where pr = pr, OF _ b1(1)] keep show ?thesis by (auto simp: bind_eq_Some_conv)
    next
      case (CC_Connect y)
      with accept_keeps [OF assms(1) _ assms(2) b1(1,2)] b Some x show ?thesis by blast
    next
      case (CC_Disconnect y)
      with run b1 keep show ?thesis by (auto simp: unexpected)
    next
      case (CC_User y)
      with run b1 keep show ?thesis by (auto simp: unexpected)
    qed
  qed
qed

lemma Server_handle_packet_keeps:
  assumes "Server_handle_packet pr handler sv a buf pb h w = Some (sv', pb', h', w')" "server_authentic M sv"
    and "P (client_addrs sv) h" "part_authentic (M a) buf" "server_wf sv"
  shows "server_authentic M sv' \<and> P (client_addrs sv') h'"
proof (cases "buf = []")
  case True
  with assms handle_version_request_keeps show ?thesis by (simp add: Server_handle_packet_def)
next
  case False
  show ?thesis
  proof (cases "position (is_client a) (sv_clients sv)")
    case (Some k)
    then obtain c where c: "k < length (sv_clients sv)" "sv_clients sv ! k = Some c" "cl_client_addr c = a"
      using position_is_client by blast
    obtain w1 where "Server_handle_client pr handler sv k c a buf h w = Some (sv', h', w1)"
      using assms(1) False Some c(2) by (auto simp: Server_handle_packet_def bind_eq_Some_conv)
    then show ?thesis by (rule Server_handle_client_keeps [OF _ assms(2,3,5) c assms(4)])
  next
    case None
    with assms(1-4) False server_authentic_listener [OF assms(2)] Server_handle_listener_keeps [OF _ assms(2,3)] unexpected show ?thesis
      by (auto simp: Server_handle_packet_def bind_eq_Some_conv split: option.split_asm)
  qed
qed

lemma handle_packets_loop_keeps:
  assumes "handle_packets_loop pr handler sv inbox pb h w = Some (sv', h', w')" "server_authentic M sv" "P (client_addrs sv) h"
    and "inbox_authentic M inbox" "protocol_ok pr" "length pb = PACKET_BUFFER_SIZE" "server_wf sv"
  shows "server_authentic M sv' \<and> P (client_addrs sv') h'"
  using assms
proof (induction inbox arbitrary: sv pb h w rule: length_induct)
  case (1 inbox)
  obtain d rest pb1 h1 where r: "recv handler inbox pb h = (d, rest, pb1, h1)" by (metis prod_cases4)
  have h1: "P (client_addrs sv) h1" using any.recv_keeps [OF r "1.prems"(3)] .
  show ?case
  proof (cases d)
    case None
    with r h1 "1.prems"(1,2) show ?thesis by (simp add: handle_packets_loop.simps [of pr handler sv inbox])
  next
    case (Some x)
    obtain a buf where x: "d = Some (a, buf)" using Some by (cases x) simp
    have d: "part_authentic (M a) buf" "inbox_authentic M rest" "length pb1 = PACKET_BUFFER_SIZE"
      using recv_authentic [OF r [unfolded x] "1.prems"(4,6)] by blast+
    obtain sv2 pb2 h2 w2 where s: "Server_handle_packet pr handler sv a buf pb1 h1 w = Some (sv2, pb2, h2, w2)"
      "handle_packets_loop pr handler sv2 rest pb2 h2 w2 = Some (sv', h', w')"
      using "1.prems"(1) r x by (auto simp: handle_packets_loop.simps [of pr handler sv inbox] bind_eq_Some_conv)
    have "server_authentic M sv2 \<and> P (client_addrs sv2) h2"
      by (rule Server_handle_packet_keeps [OF s(1) "1.prems"(2) h1 d(1) "1.prems"(7)])
    moreover have "length pb2 = PACKET_BUFFER_SIZE" by (rule handle_packet_same_buffer [OF s(1) "1.prems"(5) d(3)])
    moreover have "server_wf sv2" using handle_packet_step [OF "1.prems"(7,5) s(1)] "1.prems"(7) by (rule peer_step_wf)
    ultimately show ?thesis
      using "1.IH" recv_shorter [OF r [unfolded x]] s(2) d(2) "1.prems"(5) by blast
  qed
qed

lemma send_ping_keeps:
  assumes "send_ping cf handler c h w = Some (e, h', w')" "P C h"
  shows "P C h' \<and> (\<forall>c'. e = Some c' \<longrightarrow> cl_client_addr c' = cl_client_addr c \<and> cl_buffers c' = cl_buffers c)"
  using assms
  by (auto simp: send_ping_def Let_def split_def bind_eq_Some_conv error ping split: if_split_asm sum.split_asm option.split_asm)

lemma send_pings_loop_keeps:
  assumes "send_pings_loop cf handler cs h w = Some (cs', h', w')" "P C h"
    and "\<forall>c. Some c \<in> set cs \<longrightarrow> authentic (M (cl_client_addr c)) (cl_buffers c)"
  shows "P C h' \<and> (\<forall>c. Some c \<in> set cs' \<longrightarrow> authentic (M (cl_client_addr c)) (cl_buffers c))"
  using assms
proof (induction cs arbitrary: h w cs')
  case (Cons e cs)
  show ?case
  proof (cases e)
    case None
    with Cons.prems(1) obtain cs1 where cs: "send_pings_loop cf handler cs h w = Some (cs1, h', w')" "cs' = None # cs1"
      by (auto simp: bind_eq_Some_conv)
    from Cons.IH [OF cs(1) Cons.prems(2)] Cons.prems(3) cs(2) show ?thesis by simp
  next
    case (Some c)
    with Cons.prems(1) obtain e1 h1 w1 cs1 where e: "send_ping cf handler c h w = Some (e1, h1, w1)"
      and cs: "send_pings_loop cf handler cs h1 w1 = Some (cs1, h', w')" "cs' = e1 # cs1"
      by (auto simp: bind_eq_Some_conv)
    have c: "authentic (M (cl_client_addr c)) (cl_buffers c)" using Cons.prems(3) Some by simp
    note e1 = send_ping_keeps [OF e Cons.prems(2)]
    from Cons.IH [OF cs(1)] e1 Cons.prems(3) c cs(2) show ?thesis by auto
  qed
qed simp

lemma Server_update_keeps:
  assumes "Server_update pr handler sv inbox h w = Some (sv', h', w')" "server_authentic M sv" "P (client_addrs sv) h"
    and "inbox_authentic M inbox" "protocol_ok pr" "server_wf sv"
  shows "server_authentic M sv' \<and> P (client_addrs sv') h'"
proof -
  from assms(1) obtain cs f h1 w1 sv2 h2 w2 cs3 where
    u: "update_client_buffers (sc_connection (sv_config sv)) handler 0 0 (sv_clients sv) h w = Some (cs, f, h1, w1)"
    and l: "handle_packets_loop pr handler (sv\<lparr>sv_clients := take f cs\<rparr>) inbox (replicate PACKET_BUFFER_SIZE 0) h1 w1 = Some (sv2, h2, w2)"
    and p: "send_pings_loop (sv_config sv2) handler (sv_clients sv2) h2 w2 = Some (cs3, h', w')" "sv' = sv2\<lparr>sv_clients := cs3\<rparr>"
    by (auto simp: Server_update_def Server_update_buffers_def Server_handle_packets_def Server_send_pings_def bind_eq_Some_conv)
  have buffers: "Server_update_buffers handler sv h w = Some (sv\<lparr>sv_clients := take f cs\<rparr>, h1, w1)"
    using u by (simp add: Server_update_buffers_def)
  have wf: "server_wf (sv\<lparr>sv_clients := take f cs\<rparr>)"
    using Server_update_buffers_steps [OF buffers] assms(6) by (rule server.steps_invar)
  have h1: "P (client_addrs sv) h1" "\<forall>c. Some c \<in> set cs \<longrightarrow> authentic (M (cl_client_addr c)) (cl_buffers c)"
    using any.update_client_buffers_keeps [OF u assms(3), of M] assms(2) by (simp_all add: server_authentic_def)
  have "list_all2 slot_kept (sv_clients sv) cs" using update_client_buffers_slots [OF u] by simp
  then have "client_addrs (sv\<lparr>sv_clients := take f cs\<rparr>) \<subseteq> client_addrs sv" using client_addrs_take client_addrs_kept by blast
  with h1(1) have "P (client_addrs (sv\<lparr>sv_clients := take f cs\<rparr>)) h1" by (rule lost)
  moreover have "server_authentic M (sv\<lparr>sv_clients := take f cs\<rparr>)"
    using assms(2) h1(2) by (auto simp: server_authentic_def dest: in_set_takeD)
  ultimately have sv2: "server_authentic M sv2" "P (client_addrs sv2) h2"
    using handle_packets_loop_keeps [OF l _ _ assms(4,5) _ wf] by simp_all
  have "P (client_addrs sv2) h'" "server_authentic M sv'"
    using send_pings_loop_keeps [OF p(1) sv2(2)] sv2(1) by (auto simp: p(2) server_authentic_def)
  moreover have "client_addrs sv' \<subseteq> client_addrs sv2" unfolding p(2) by (rule client_addrs_kept [OF send_pings_loop_slots [OF p(1)]])
  ultimately show ?thesis by (blast intro: lost)
qed

end

section \<open>The order of the callbacks\<close>

text \<open>A log of the packets a handler was given: sender, packet, and the answer to a connect packet. The
  log is in order if user packets and disconnects only come from clients; \<open>C\<close> are the clients before,
  and the value is the set of addresses that may be clients afterwards.\<close>

type_synonym ('query, 'connect, 'disconnect, 'user, 'accept, 'reject) server_log =
  "(SocketAddr \<times> ('query, 'connect, 'disconnect, 'user) ClientConnectionPacket \<times> ('accept, 'reject) Connect option) list"

fun admitted ::
    "SocketAddr set \<Rightarrow> ('query, 'connect, 'disconnect, 'user, 'accept, 'reject) server_log \<Rightarrow> SocketAddr set option" where
  "admitted C [] = Some C"
| "admitted C ((a, CC_Query _, _) # log) = admitted C log"
| "admitted C ((a, CC_Connect _, answer) # log) =
     admitted (case answer of Some (Connect_Accept _) \<Rightarrow> insert a C | _ \<Rightarrow> C) log"
| "admitted C ((a, CC_Disconnect _, _) # log) = (if a \<in> C then admitted (C - {a}) log else None)"
| "admitted C ((a, CC_User _, _) # log) = (if a \<in> C then admitted C log else None)"

lemma admitted_append: "admitted C (log @ log') = Option.bind (admitted C log) (\<lambda>D. admitted D log')"
  by (induction C log rule: admitted.induct) simp_all

text \<open>An auditing handler: it behaves like the given one and keeps such a log beside its state.\<close>

definition audit_server ::
    "('h, 'version, 'query, 'status, 'connect, 'accept, 'reject, 'disconnect, 'user) ServerHandler
      \<Rightarrow> ('h \<times> ('query, 'connect, 'disconnect, 'user, 'accept, 'reject) server_log,
         'version, 'query, 'status, 'connect, 'accept, 'reject, 'disconnect, 'user) ServerHandler" where
  "audit_server handler =
     \<lparr>ch_raw_packet = apfst \<circ> ch_raw_packet handler, ch_error = apfst \<circ> ch_error handler,
      sh_version = (\<lambda>(h, log). case sh_version handler h of (v, h) \<Rightarrow> (v, h, log)),
      sh_listen = apfst \<circ> sh_listen handler,
      sh_query = (\<lambda>a q (h, log). case sh_query handler a q h of (st, h) \<Rightarrow> (st, h, log @ [(a, CC_Query q, None)])),
      sh_connect = (\<lambda>a c (h, log). case sh_connect handler a c h of (x, h) \<Rightarrow> (x, h, log @ [(a, CC_Connect c, Some x)])),
      sh_disconnect = (\<lambda>a d. map_prod (sh_disconnect handler a d) (\<lambda>log. log @ [(a, CC_Disconnect d, None)])),
      sh_ping = apfst \<circ> sh_ping handler,
      sh_pong = (\<lambda>a v. apfst (sh_pong handler a v)),
      sh_packet = (\<lambda>a u. map_prod (sh_packet handler a u) (\<lambda>log. log @ [(a, CC_User u, None)])),
      sh_unexpected = (\<lambda>a x. apfst (sh_unexpected handler a x))\<rparr>"

definition server_log_ok ::
    "(SocketAddr \<Rightarrow> PacketId \<rightharpoonup> u8 list)
      \<Rightarrow> ('version, 'out, ('query, 'connect, 'disconnect, 'user) ClientConnectionPacket) Protocol \<Rightarrow> SocketAddr set
      \<Rightarrow> ('query, 'connect, 'disconnect, 'user, 'accept, 'reject) server_log \<Rightarrow> SocketAddr set \<Rightarrow> bool" where
  "server_log_ok M pr C log C' \<longleftrightarrow>
     (\<forall>x \<in> set log. from_peer M pr (fst x) (fst (snd x))) \<and> (\<exists>D. admitted C log = Some D \<and> C' \<subseteq> D)"

interpretation audited: server_handler_abs "audit_server handler" handler fst for handler
  by unfold_locales (auto simp: audit_server_def split: prod.split)

interpretation audit: server_handler_keeps "audit_server handler" "\<lambda>C (h, log). server_log_ok M pr start log C" M pr
  for handler M pr start
  by unfold_locales (auto simp: audit_server_def server_log_ok_def admitted_append split: prod.split prod.split_asm)

lemma audited_server_update:
  assumes "Server_update pr handler sv inbox h w = Some (sv', h', w')" "server_authentic M sv"
    and "inbox_authentic M inbox" "protocol_ok pr" "server_wf sv"
  shows "\<exists>log. Server_update pr (audit_server handler) sv inbox (h, []) w = Some (sv', (h', log), w') \<and>
    server_log_ok M pr (client_addrs sv) log (client_addrs sv') \<and> server_authentic M sv'"
proof -
  from assms(1) audited.Server_update_abs [of pr handler sv inbox "(h, [])" w] obtain log where
    run: "Server_update pr (audit_server handler) sv inbox (h, []) w = Some (sv', (h', log), w')"
    by (auto simp: eq_commute [of "Some _"])
  with audit.Server_update_keeps [where start = "client_addrs sv", OF run assms(2) _ assms(3-5)] show ?thesis
    by (auto simp: server_log_ok_def)
qed

text \<open>The operations that the user calls.\<close>

lemma Server_host_authentic:
  "Server_host_with_config bound nb config = Inr sv \<Longrightarrow> server_authentic M sv"
  by (auto simp: Server_host_with_config_def server_authentic_def split: sum.split_asm)

lemma Server_unlisten_authentic:
  "server_authentic M sv \<Longrightarrow> server_authentic M (snd (Server_unlisten sv a))"
  by (auto simp: Server_unlisten_def intro: server_authentic_remove)

lemma Server_unlisten_all_authentic:
  "server_authentic M sv \<Longrightarrow> server_authentic M (Server_unlisten_all sv)"
  by (auto simp: Server_unlisten_all_def server_authentic_def)

lemma ServerClient_send_authentic:
  assumes "server_authentic M sv" "Server_client sv a = Some k" "ServerClient_send_raw pr k x sv w = Some (r, sv', w')"
  shows "server_authentic M sv'"
proof -
  obtain i where pos: "position (is_client a) (sv_clients sv) = Some i" "sk_slot k = i"
    using assms(2) by (auto simp: Server_client_def)
  then obtain c where c: "i < length (sv_clients sv)" "sv_clients sv ! i = Some c" using position_is_client by blast
  from assms(3) obtain b where b: "PacketBuffers_send (cl_buffers c) (pr_serialize pr x)
      (sk_background_serialization_threshold k) (udp (sk_client_addr k)) w = Some (r, b, w')"
    "sv' = sv\<lparr>sv_clients := (sv_clients sv)[i := Some (c\<lparr>cl_buffers := b\<rparr>)]\<rparr>"
    by (auto simp: ServerClient_send_raw_def pos(2) c(2) bind_eq_Some_conv)
  have "authentic (M (cl_client_addr c)) (cl_buffers c)" using assms(1) c by (metis nth_mem server_authentic_def)
  then have "authentic (M (cl_client_addr c)) b" by (rule authentic_send [OF b(1)])
  then show ?thesis unfolding b(2) by (intro server_authentic_slot [OF assms(1)]) auto
qed

end
