(* ===== verification/Authentic_Client.thy ===== *)
theory Authentic_Client
  imports Authentic
begin

text \<open>
  The callbacks of the client: which packets it hands to its handler, and in which order. The
  contract of a handler is a property \<open>Q\<close> of its state that depends on the state of the connection.
\<close>

section \<open>Listeners\<close>

definition listeners_authentic :: "(SocketAddr \<Rightarrow> PacketId \<rightharpoonup> u8 list) \<Rightarrow> SocketAddr set \<Rightarrow> 'ce ServerListener list \<Rightarrow> bool" where
  "listeners_authentic M A ls \<longleftrightarrow> (\<forall>l \<in> set ls. sl_server_addr l \<in> A \<and>
     (\<forall>b t. sl_state l = Compatible b t \<longrightarrow> authentic (M (sl_server_addr l)) b))"

lemma listeners_authentic_simps [simp]:
  "listeners_authentic M A []"
  "listeners_authentic M A (l # ls) \<longleftrightarrow> sl_server_addr l \<in> A \<and>
     (\<forall>b t. sl_state l = Compatible b t \<longrightarrow> authentic (M (sl_server_addr l)) b) \<and> listeners_authentic M A ls"
  by (simp_all add: listeners_authentic_def)

lemma set_listener_state_authentic:
  assumes "listeners_authentic M A (ct_listeners ct)" "i < length (ct_listeners ct)"
    and "\<And>b t. st = Compatible b t \<Longrightarrow> authentic (M (sl_server_addr (ct_listeners ct ! i))) b"
  shows "listeners_authentic M A (ct_listeners (set_listener_state ct i st))"
  using assms nth_mem [OF assms(2)]
  by (auto simp: listeners_authentic_def set_listener_state_def dest!: subsetD [OF set_update_subset_insert])

locale client_handler_keeps =
  fixes handler :: "('h, 'version, 'ce, 'status, 'accept, 'reject, 'kick, 'server) ClientHandler"
    and Q :: "ClientState \<Rightarrow> 'h \<Rightarrow> bool" and M :: "SocketAddr \<Rightarrow> PacketId \<rightharpoonup> u8 list"
    and pr :: "('version, 'query, 'status, 'connect, 'accept, 'reject, 'kick, 'disconnect, 'server, 'user) ClientProtocol"
    and A :: "SocketAddr set"
  assumes raw_packet: "Q st h \<Longrightarrow> Q st (ch_raw_packet handler p h)"
    and error: "Q st h \<Longrightarrow> Q st (ch_error handler e h)"
    and lost: "Q st h \<Longrightarrow> Q Disconnected h"
    and compatibility: "Q st h \<Longrightarrow> Q st (snd (kh_compatibility handler v h))"
    and ping: "Q st h \<Longrightarrow> Q st (kh_ping handler h)"
    and unexpected: "Q st h \<Longrightarrow> Q st (kh_unexpected handler a x h)"
    and status: "Q st h \<Longrightarrow> a \<in> A \<Longrightarrow> from_peer M pr a (SC_Status s) \<Longrightarrow> Q st (kh_status handler a s h)"
    and accept: "Q Connecting h \<Longrightarrow> a \<in> A \<Longrightarrow> from_peer M pr a (SC_Accept y) \<Longrightarrow> Q Connected (kh_accept handler y h)"
    and reject: "Q Connecting h \<Longrightarrow> a \<in> A \<Longrightarrow> from_peer M pr a (SC_Reject r) \<Longrightarrow> Q Disconnected (kh_reject handler r h)"
    and kick: "Q Connected h \<Longrightarrow> a \<in> A \<Longrightarrow> from_peer M pr a (SC_Kick k) \<Longrightarrow> Q Disconnected (kh_kick handler k h)"
    and packet: "Q Connected h \<Longrightarrow> a \<in> A \<Longrightarrow> from_peer M pr a (SC_User u) \<Longrightarrow> Q Connected (kh_packet handler u h)"

sublocale client_handler_keeps \<subseteq> any: handler_keeps handler "Q st" for st
  by unfold_locales (rule raw_packet error; assumption)+

context client_handler_keeps
begin

abbreviation authentic_client :: "'ce Client \<Rightarrow> bool" where
  "authentic_client ct \<equiv> listeners_authentic M A (ct_listeners ct)"

lemma lost_error: "Q st h \<Longrightarrow> Q Disconnected (ch_error handler e h)"
  by (rule error [OF lost])

lemma ServerListener_update_keeps:
  assumes "ServerListener_update handler cf l lent h w = Some (k, l', lent', h', w')" "Q st h"
    and "lent = None \<or> lent = Some st" "listeners_authentic M A [l]"
  shows "Q (case lent' of None \<Rightarrow> st | Some s \<Rightarrow> s) h' \<and> listeners_authentic M A [l']"
proof (cases "sl_state l")
  case (PendingVersion q)
  with assms show ?thesis
    by (auto simp: ServerListener_update_def run_simps error Let_def split_def split: option.split_asm if_split_asm)
next
  case (Compatible b t)
  with assms(1) obtain r b' w1 where u: "PacketBuffers_update b (cf_resend_delay (cc_connection cf))
      (cf_max_missed_acks (cc_connection cf)) (cf_receive_timeout (cc_connection cf)) (udp (sl_server_addr l)) w = Some (r, b', w1)"
    by (auto simp: ServerListener_update_def bind_eq_Some_conv)
  have "authentic (M (sl_server_addr l)) b'" using authentic_update [OF u] assms(4) Compatible by simp
  with u Compatible assms show ?thesis
    by (cases r) (auto simp: ServerListener_update_def lost_error error)
next
  case (Incompatible e)
  with assms show ?thesis by (auto simp: ServerListener_update_def)
qed

lemma update_listeners_keeps:
  assumes "update_listeners handler cf c st ls h w = Some (ls', st', h', w')" "Q st h" "listeners_authentic M A ls"
  shows "Q st' h' \<and> listeners_authentic M A ls'"
  using assms
proof (induction ls arbitrary: c st h w ls')
  case (Cons l ls)
  from Cons.prems(1) obtain k l1 lent h1 w1 ls1 where
    l: "ServerListener_update handler cf l (if c then Some st else None) h w = Some (k, l1, lent, h1, w1)"
    and ls: "update_listeners handler cf False (case lent of None \<Rightarrow> st | Some s \<Rightarrow> s) ls h1 w1 = Some (ls1, st', h', w')"
      "ls' = (if k then l1 # ls1 else ls1)"
    by (auto simp: bind_eq_Some_conv Let_def)
  have l1: "Q (case lent of None \<Rightarrow> st | Some s \<Rightarrow> s) h1 \<and> listeners_authentic M A [l1]"
    by (rule ServerListener_update_keeps [OF l Cons.prems(2)]) (use Cons.prems(3) in auto)
  with Cons.IH [OF ls(1)] Cons.prems(3) ls(2) show ?case by auto
qed simp

lemma handle_connection_packet_keeps:
  assumes "Client_handle_connection_packet handler st c a p h = (st', h')" "Q st h" "a \<in> A" "from_peer M pr a p"
  shows "Q st' h'"
  using assms
  by (cases p) (auto simp: Client_handle_connection_packet_def unexpected intro: status accept reject kick packet split: if_split_asm)

lemma Client_handle_pending_keeps:
  assumes "Client_handle_pending pr handler ct i a buf h w = (ct', h', w')" "Q (ct_state ct) h"
    and "authentic_client ct" "i < length (ct_listeners ct)"
  shows "Q (ct_state ct') h' \<and> authentic_client ct'"
proof -
  have c: "ct_state (set_listener_state ct i s) = ct_state ct" for s by (simp add: set_listener_state_def)
  show ?thesis
    using assms compatibility [OF assms(2)]
    by (auto simp: Client_handle_pending_def unexpected ServerState_compatible_def ServerState_incompatible_def c Let_def
        split_def intro!: set_listener_state_authentic split: list.split_asm sum.split_asm if_split_asm)
qed

lemma Client_handle_compatible_keeps:
  assumes "Client_handle_compatible pr handler ct i c b a buf h w = Some (ct', h', w')" "Q (ct_state ct) h"
    and "authentic_client ct" "i < length (ct_listeners ct)" "sl_server_addr (ct_listeners ct ! i) = a"
    and "authentic (M a) b" "part_authentic (M a) buf"
  shows "Q (ct_state ct') h' \<and> authentic_client ct'"
proof -
  have a: "a \<in> A" using assms(3) nth_mem [OF assms(4)] assms(5) by (auto simp: listeners_authentic_def)
  have s: "ct_state (set_listener_state ct i x) = ct_state ct" for x by (simp add: set_listener_state_def)
  have twice: "set_listener_state (set_listener_state ct i x) i y = set_listener_state ct i y" for x y
    using assms(4) by (simp add: set_listener_state_def)
  have keep: "authentic_client (set_listener_state ct i (Compatible b' t))" if "authentic (M a) b'" for b' t
    using that assms(5) by (intro set_listener_state_authentic [OF assms(3,4)]) auto
  show ?thesis
  proof (cases "c \<and> buf \<noteq> [] \<and> PacketKind_try_from (hd buf) = Some Kind_Ping")
    case True
    with assms(1,2) keep [OF assms(6)] s lost_error [OF ping [OF assms(2)]] ping [OF assms(2)] show ?thesis
      by (auto simp: Client_handle_compatible_def run_simps Let_def split_def)
  next
    case False
    obtain now w0 where now: "Instant_now w = (now, w0)" by (cases "Instant_now w")
    with assms(1) False obtain r b1 w1 where b: "PacketBuffers_handle b buf (udp a) w0 = Some (r, b1, w1)"
      by (auto simp: Client_handle_compatible_def bind_eq_Some_conv)
    have b1: "authentic (M a) b1" "\<And>bs. r = Inr (HandlingReceived (Reassembled bs)) \<Longrightarrow> bs \<in> ran (M a)"
      using authentic_handle [OF b assms(6,7)] by blast+
    note run = assms(1) [unfolded Client_handle_compatible_def now if_not_P [OF False] Let_def prod.case b, simplified twice s]
    show ?thesis
    proof (cases "\<exists>bs p. r = Inr (HandlingReceived (Reassembled bs)) \<and> pr_check_archived_root pr bs = Inr p")
      case True
      then obtain bs p where p: "r = Inr (HandlingReceived (Reassembled bs))" "pr_check_archived_root pr bs = Inr p" by blast
      then have peer: "from_peer M pr a p" using b1(2) by (auto simp: from_peer_def)
      obtain st h1 where st: "Client_handle_connection_packet handler (ct_state ct) c a p
          (ch_raw_packet handler (RawPart a PartReassembled) h) = (st, h1)" by (rule prod.exhaust)
      have "Q st h1" by (rule handle_connection_packet_keeps [OF st raw_packet [OF assms(2)] a peer])
      with run p st keep [OF b1(1)] s show ?thesis by auto
    next
      case False
      then have "ct' = set_listener_state ct i (Compatible b1 now)" "Q (ct_state ct) h'"
        using run assms(2)
        by (auto simp: error raw_packet split: sum.split_asm PacketHandling.split_asm ReceivedPacket.split_asm)
      with keep [OF b1(1)] s show ?thesis by simp
    qed
  qed
qed

lemma Client_handle_packet_keeps:
  assumes "Client_handle_packet pr handler ct a buf h w = Some (ct', h', w')" "Q (ct_state ct) h"
    and "authentic_client ct" "part_authentic (M a) buf"
  shows "Q (ct_state ct') h' \<and> authentic_client ct'"
proof (cases "position (listens_to a) (ct_listeners ct)")
  case None
  with assms(1-3) unexpected show ?thesis by (auto simp: Client_handle_packet_def)
next
  case (Some i)
  note i = position_listens_to [OF Some]
  show ?thesis
  proof (cases "sl_state (ct_listeners ct ! i)")
    case (PendingVersion q)
    with assms Some i Client_handle_pending_keeps [of ct i a buf h w] show ?thesis by (simp add: Client_handle_packet_def)
  next
    case (Compatible b t)
    have "authentic (M a) b" using assms(3) nth_mem [OF i(1)] i(2) Compatible by (auto simp: listeners_authentic_def)
    with assms Some i Compatible Client_handle_compatible_keeps [OF _ assms(2,3) i] show ?thesis
      by (auto simp: Client_handle_packet_def Let_def)
  next
    case (Incompatible e)
    with assms(1-3) Some unexpected show ?thesis by (auto simp: Client_handle_packet_def Let_def)
  qed
qed

lemma client_packets_loop_keeps:
  assumes "client_packets_loop pr handler ct inbox pb h w = Some (ct', h', w')" "Q (ct_state ct) h"
    and "authentic_client ct" "inbox_authentic M inbox" "length pb = PACKET_BUFFER_SIZE"
  shows "Q (ct_state ct') h' \<and> authentic_client ct'"
  using assms
proof (induction inbox arbitrary: ct pb h w rule: length_induct)
  case (1 inbox)
  obtain d rest pb1 h1 where r: "recv handler inbox pb h = (d, rest, pb1, h1)" by (metis prod_cases4)
  have h1: "Q (ct_state ct) h1" using any.recv_keeps [OF r "1.prems"(2)] .
  show ?case
  proof (cases d)
    case None
    with r h1 "1.prems"(1,3) show ?thesis by (simp add: client_packets_loop.simps [of pr handler ct inbox])
  next
    case (Some x)
    obtain a buf where x: "d = Some (a, buf)" using Some by (cases x) simp
    have d: "part_authentic (M a) buf" "inbox_authentic M rest" "length pb1 = PACKET_BUFFER_SIZE"
      using recv_authentic [OF r [unfolded x] "1.prems"(4,5)] by blast+
    obtain ct2 h2 w2 where s: "Client_handle_packet pr handler ct a buf h1 w = Some (ct2, h2, w2)"
      "client_packets_loop pr handler ct2 rest pb1 h2 w2 = Some (ct', h', w')"
      using "1.prems"(1) r x by (auto simp: client_packets_loop.simps [of pr handler ct inbox] bind_eq_Some_conv)
    have "Q (ct_state ct2) h2 \<and> authentic_client ct2" by (rule Client_handle_packet_keeps [OF s(1) h1 "1.prems"(3) d(1)])
    then show ?thesis using "1.IH" recv_shorter [OF r [unfolded x]] s(2) d(2,3) by blast
  qed
qed

lemma timeout_listeners_keeps:
  assumes "timeout_listeners handler cf st ls h w = (ls', st', h', w')" "Q st h" "listeners_authentic M A ls"
  shows "Q st' h' \<and> listeners_authentic M A ls'"
  using assms
proof (induction ls arbitrary: st h w ls')
  case (Cons l ls)
  have "\<exists>k st1 h1 w1. Q st1 h1 \<and> timeout_listeners handler cf st (l # ls) h w
      = (case timeout_listeners handler cf st1 ls h1 w1 of (ls', x) \<Rightarrow> (if k then l # ls' else ls', x))"
  proof (cases "\<exists>b t d. sl_state l = Compatible b t \<and> cc_timeout cf = Some d \<and> fst (Instant_elapsed t w) > d")
    case True
    then obtain b t d where "sl_state l = Compatible b t" "cc_timeout cf = Some d" "fst (Instant_elapsed t w) > d" by blast
    then show ?thesis
      using lost_error [OF Cons.prems(2), of "ErrorTimeout (sl_server_addr l)"]
      by (intro exI [of _ False] exI [of _ Disconnected] exI conjI) (assumption, simp add: split_def Let_def)
  next
    case False
    then show ?thesis
      using Cons.prems(2)
      by (intro exI [of _ True] exI [of _ st] exI [of _ h]
          exI [of _ "case (sl_state l, cc_timeout cf) of (Compatible _ t, Some _) \<Rightarrow> snd (Instant_elapsed t w) | _ \<Rightarrow> w"])
        (cases "sl_state l"; cases "cc_timeout cf"; auto simp: split_def Let_def)
  qed
  then obtain k st1 h1 w1 where q: "Q st1 h1" and "timeout_listeners handler cf st (l # ls) h w
      = (case timeout_listeners handler cf st1 ls h1 w1 of (ls', x) \<Rightarrow> (if k then l # ls' else ls', x))" by blast
  moreover obtain ls1 x where tl: "timeout_listeners handler cf st1 ls h1 w1 = (ls1, x)" by (rule prod.exhaust)
  ultimately have "x = (st', h', w')" "ls' = (if k then l # ls1 else ls1)" using Cons.prems(1) by simp_all
  with Cons.IH [of st1 h1 w1 ls1] tl q Cons.prems(3) show ?case by auto
qed simp

lemma Client_update_keeps:
  assumes "Client_update pr handler ct inbox h w = Some (ct', h', w')" "Q (ct_state ct) h"
    and "authentic_client ct" "inbox_authentic M inbox"
  shows "Q (ct_state ct') h' \<and> authentic_client ct'"
proof -
  from assms(1) obtain ls st h1 w1 ct2 h2 w2 where
    u: "update_listeners handler (ct_config ct) (ct_state ct \<noteq> Disconnected) (ct_state ct) (ct_listeners ct) h w = Some (ls, st, h1, w1)"
    and l: "client_packets_loop pr handler (ct\<lparr>ct_listeners := ls, ct_state := st\<rparr>) inbox (replicate PACKET_BUFFER_SIZE 0) h1 w1
      = Some (ct2, h2, w2)"
    and t: "Client_timeout_connection handler ct2 h2 w2 = (ct', h', w')"
    by (auto simp: Client_update_def bind_eq_Some_conv Let_def)
  have "Q st h1" "listeners_authentic M A ls" using update_listeners_keeps [OF u assms(2,3)] by blast+
  then have "Q (ct_state ct2) h2 \<and> authentic_client ct2"
    by (intro client_packets_loop_keeps [OF l _ _ assms(4)]) simp_all
  moreover obtain ls3 st3 where "timeout_listeners handler (ct_config ct2) (ct_state ct2) (ct_listeners ct2) h2 w2 = (ls3, st3, h', w')"
    "ct' = ct2\<lparr>ct_listeners := ls3, ct_state := st3\<rparr>"
    using t by (auto simp: Client_timeout_connection_def split: prod.split_asm)
  ultimately show ?thesis using timeout_listeners_keeps by fastforce
qed

end

section \<open>The order of the callbacks\<close>

text \<open>The packets a client may hand to its handler within one update, from the state \<open>st\<close> of the
  connection to \<open>st'\<close>: one answer while connecting, user packets and a kick while connected, a status
  at any time. A connection may be lost without a packet.\<close>

fun session_word ::
    "ClientState \<Rightarrow> ('status, 'accept, 'reject, 'kick, 'server) ServerConnectionPacket list \<Rightarrow> ClientState \<Rightarrow> bool" where
  "session_word st [] st' \<longleftrightarrow> st' = st \<or> st' = Disconnected"
| "session_word st (SC_Status _ # ps) st' \<longleftrightarrow> session_word st ps st'"
| "session_word st (SC_Accept _ # ps) st' \<longleftrightarrow> st = Connecting \<and> session_word Connected ps st'"
| "session_word st (SC_Reject _ # ps) st' \<longleftrightarrow> st = Connecting \<and> session_word Disconnected ps st'"
| "session_word st (SC_Kick _ # ps) st' \<longleftrightarrow> st = Connected \<and> session_word Disconnected ps st'"
| "session_word st (SC_User _ # ps) st' \<longleftrightarrow> st = Connected \<and> session_word Connected ps st'"

lemma session_word_lost: "session_word st ps st' \<Longrightarrow> session_word st ps Disconnected"
  by (induction st ps st' rule: session_word.induct) auto

lemma session_word_status: "session_word st ps st' \<Longrightarrow> session_word st (ps @ [SC_Status s]) st'"
  by (induction st ps st' rule: session_word.induct) auto

lemma session_word_connection:
  assumes "session_word st ps st'" "st' \<noteq> Disconnected"
  shows "session_word st (ps @ qs) st'' \<longleftrightarrow> session_word st' qs st''"
  using assms by (induction st ps st' rule: session_word.induct) auto

text \<open>The client with an auditing handler, which keeps the packets and, for a status, its sender.\<close>

definition audit_client ::
    "('h, 'version, 'ce, 'status, 'accept, 'reject, 'kick, 'server) ClientHandler
      \<Rightarrow> ('h \<times> (SocketAddr option \<times> ('status, 'accept, 'reject, 'kick, 'server) ServerConnectionPacket) list,
         'version, 'ce, 'status, 'accept, 'reject, 'kick, 'server) ClientHandler" where
  "audit_client handler =
     \<lparr>ch_raw_packet = apfst \<circ> ch_raw_packet handler, ch_error = apfst \<circ> ch_error handler,
      kh_compatibility = (\<lambda>v (h, log). case kh_compatibility handler v h of (r, h) \<Rightarrow> (r, h, log)),
      kh_status = (\<lambda>a s. map_prod (kh_status handler a s) (\<lambda>log. log @ [(Some a, SC_Status s)])),
      kh_accept = (\<lambda>x. map_prod (kh_accept handler x) (\<lambda>log. log @ [(None, SC_Accept x)])),
      kh_reject = (\<lambda>x. map_prod (kh_reject handler x) (\<lambda>log. log @ [(None, SC_Reject x)])),
      kh_kick = (\<lambda>x. map_prod (kh_kick handler x) (\<lambda>log. log @ [(None, SC_Kick x)])),
      kh_ping = apfst (kh_ping handler),
      kh_packet = (\<lambda>x. map_prod (kh_packet handler x) (\<lambda>log. log @ [(None, SC_User x)])),
      kh_unexpected = (\<lambda>a x. apfst (kh_unexpected handler a x))\<rparr>"

definition client_log_ok ::
    "(SocketAddr \<Rightarrow> PacketId \<rightharpoonup> u8 list)
      \<Rightarrow> ('version, 'out, ('status, 'accept, 'reject, 'kick, 'server) ServerConnectionPacket) Protocol \<Rightarrow> SocketAddr set
      \<Rightarrow> (SocketAddr option \<times> ('status, 'accept, 'reject, 'kick, 'server) ServerConnectionPacket) list \<Rightarrow> bool" where
  "client_log_ok M pr A log \<longleftrightarrow>
     (\<forall>(from, p) \<in> set log. \<exists>a \<in> A. (from = None \<or> from = Some a) \<and> from_peer M pr a p)"

interpretation audited_client: client_handler_abs "audit_client handler" handler fst for handler
  by unfold_locales (auto simp: audit_client_def split: prod.split)

interpretation audit_client: client_handler_keeps "audit_client handler"
    "\<lambda>st (h, log). client_log_ok M pr A log \<and> session_word start (map snd log) st" M pr A
  for handler M pr A start
  by unfold_locales
    (auto simp: audit_client_def client_log_ok_def session_word_lost session_word_status session_word_connection split: prod.split)

section \<open>The operations\<close>

definition client_authentic :: "(SocketAddr \<Rightarrow> PacketId \<rightharpoonup> u8 list) \<Rightarrow> 'ce Client \<Rightarrow> bool" where
  "client_authentic M ct \<longleftrightarrow> listeners_authentic M UNIV (ct_listeners ct)"

lemma audited_client_update:
  assumes "Client_update pr handler ct inbox h w = Some (ct', h', w')" "client_authentic M ct" "inbox_authentic M inbox"
  shows "\<exists>log. Client_update pr (audit_client handler) ct inbox (h, []) w = Some (ct', (h', log), w') \<and>
    client_log_ok M pr (set (addrs (ct_listeners ct))) log \<and> session_word (ct_state ct) (map snd log) (ct_state ct') \<and>
    client_authentic M ct'"
proof -
  let ?A = "set (addrs (ct_listeners ct))"
  from assms(1) audited_client.Client_update_abs [of pr handler ct inbox "(h, [])" w] obtain log where
    run: "Client_update pr (audit_client handler) ct inbox (h, []) w = Some (ct', (h', log), w')"
    by (auto simp: eq_commute [of "Some _"])
  have "listeners_authentic M ?A (ct_listeners ct)" using assms(2) by (auto simp: client_authentic_def listeners_authentic_def)
  from audit_client.Client_update_keeps [where start = "ct_state ct", OF run _ this assms(3)] show ?thesis
    using run by (auto simp: client_log_ok_def client_authentic_def listeners_authentic_def)
qed

text \<open>The operations that the user calls.\<close>

lemma client_authentic_subset:
  "client_authentic M ct \<Longrightarrow> set ls \<subseteq> set (ct_listeners ct) \<Longrightarrow> client_authentic M (ct\<lparr>ct_listeners := ls\<rparr>)"
  by (auto simp: client_authentic_def listeners_authentic_def)

lemma client_authentic_state [simp]: "client_authentic M (ct\<lparr>ct_state := st\<rparr>) = client_authentic M ct"
  by (simp add: client_authentic_def)

lemma swap_remove_subset:
  assumes "swap_remove xs i = Some ys" shows "set ys \<subseteq> set xs"
proof -
  have i: "i < length xs" and ys: "ys = butlast (xs[i := last xs])" using assms by (auto simp: swap_remove_def split: if_split_asm)
  then have "xs \<noteq> []" by auto
  then have "set (xs[i := last xs]) \<subseteq> set xs" using set_update_subset_insert [of xs i "last xs"] last_in_set by blast
  then show ?thesis unfolding ys by (auto dest: in_set_butlastD)
qed

lemma client_authentic_dropped:
  assumes "client_authentic M ct" "swap_remove (ct_listeners ct) i = Some ls"
  shows "client_authentic M (ct\<lparr>ct_listeners := ls, ct_state := st\<rparr>)"
  using client_authentic_subset [OF assms(1) swap_remove_subset [OF assms(2)]] by simp

lemma get_or_add_listener_authentic:
  assumes "Client_get_or_add_listener ct a w = Some (r, ct', w')" "client_authentic M ct"
  shows "client_authentic M ct' \<and> (\<forall>i. r = Inr i \<longrightarrow> i < length (ct_listeners ct'))"
  using assms
  by (auto simp: Client_get_or_add_listener_def ServerListener_new_def run_simps client_authentic_def listeners_authentic_def
      dest!: pending_version_query_state position_listens_to(1))

lemma send_listener_authentic:
  assumes "client_authentic M ct" "i < length (ct_listeners ct)" "sl_state (ct_listeners ct ! i) = Compatible b t"
    and "PacketBuffers_send b ws th s w = Some (r, b', w')"
  shows "client_authentic M (set_listener_state ct i (Compatible b' t))"
proof -
  have "authentic (M (sl_server_addr (ct_listeners ct ! i))) b"
    using assms(1,3) nth_mem [OF assms(2)] by (auto simp: client_authentic_def listeners_authentic_def)
  then have "authentic (M (sl_server_addr (ct_listeners ct ! i))) b'" by (rule authentic_send [OF assms(4)])
  with assms(1,2) show ?thesis unfolding client_authentic_def by (intro set_listener_state_authentic) auto
qed

lemma case_ServerState_eq_Some:
  "(case s of PendingVersion q \<Rightarrow> f q | Compatible b t \<Rightarrow> g b t | Incompatible e \<Rightarrow> k e) = Some z \<longleftrightarrow>
     (\<exists>q. s = PendingVersion q \<and> f q = Some z) \<or> (\<exists>b t. s = Compatible b t \<and> g b t = Some z) \<or>
     (\<exists>e. s = Incompatible e \<and> k e = Some z)"
  by (cases s) auto

lemma Client_with_config_authentic: "Client_with_config bound nb config = Inr ct \<Longrightarrow> client_authentic M ct"
  by (auto simp: Client_with_config_def client_authentic_def split: sum.split_asm)

lemma Client_listen_authentic:
  "Client_listen ct a w = Some (r, ct', w') \<Longrightarrow> client_authentic M ct \<Longrightarrow> client_authentic M ct'"
  by (auto simp: Client_listen_def run_simps dest!: get_or_add_listener_authentic)

lemma Client_forget_authentic:
  "Client_forget ct a = Some (r, ct') \<Longrightarrow> client_authentic M ct \<Longrightarrow> client_authentic M ct'"
  by (auto simp: Client_forget_def bind_eq_Some_conv intro!: client_authentic_subset
      dest!: swap_remove_subset split: option.split_asm if_split_asm)

lemma Client_forget_all_authentic:
  "Client_forget_all ct = Some ct' \<Longrightarrow> client_authentic M ct \<Longrightarrow> client_authentic M ct'"
  by (auto simp: Client_forget_all_def intro!: client_authentic_subset dest: in_set_takeD split: if_split_asm)

lemma refresh_listeners_authentic:
  "refresh_listeners ls w = Some (r, ls', w') \<Longrightarrow> listeners_authentic M A ls \<Longrightarrow> listeners_authentic M A ls'"
proof (induction ls arbitrary: w r ls')
  case (Cons l ls)
  then show ?case
    by (auto simp: ServerListener_refresh_def run_simps dest!: pending_version_query_state)
qed simp

lemma Client_refresh_all_authentic:
  "Client_refresh_all ct w = Some (r, ct', w') \<Longrightarrow> client_authentic M ct \<Longrightarrow> client_authentic M ct'"
  by (auto simp: Client_refresh_all_def client_authentic_def bind_eq_Some_conv dest: refresh_listeners_authentic)

lemma Client_query_authentic:
  assumes "Client_query pr ct a q w = Some (r, ct', w')" "client_authentic M ct" shows "client_authentic M ct'"
  using assms
  by (auto simp: Client_query_def run_simps case_ServerState_eq_Some Let_def dest!: get_or_add_listener_authentic
      intro: send_listener_authentic)

lemma Client_connect_authentic:
  assumes "Client_connect pr ct sc pa c w = Some (r, ct', w')" "client_authentic M ct" shows "client_authentic M ct'"
  using assms
  by (auto simp: Client_connect_def run_simps case_ServerState_eq_Some Let_def dest!: get_or_add_listener_authentic
      intro: send_listener_authentic split: if_split_asm)

lemma first_listener_authentic:
  assumes "client_authentic M ct" "ct_listeners ct = l # ls" "sl_state l = Compatible b t"
    and "PacketBuffers_send b ws th s w = Some (r, b', w')"
  shows "client_authentic M (set_listener_state ct 0 (Compatible b' t))"
  using assms by (intro send_listener_authentic [of M ct 0 b t ws th s w r b' w']) simp_all

lemma Client_send_authentic:
  assumes "Client_send pr ct x w = Some (r, ct', w')" "client_authentic M ct" shows "client_authentic M ct'"
  using assms
  by (auto simp: Client_send_def run_simps Let_def intro: first_listener_authentic client_authentic_dropped
      split: list.split_asm ServerState.split_asm if_split_asm)

lemma Client_disconnect_authentic:
  assumes "Client_disconnect pr ct x w = Some (r, ct', w')" "client_authentic M ct" shows "client_authentic M ct'"
  using assms
  by (auto simp: Client_disconnect_def run_simps Let_def intro: first_listener_authentic client_authentic_dropped
      split: list.split_asm ServerState.split_asm if_split_asm)

end
