(* ===== verification/Authentic_Theorems.thy ===== *)
theory Authentic_Theorems
  imports Authentic_Client Server_Theorems Client_Theorems
begin

text \<open>
  Properties of the packets that server and client hand to their handlers: where they come from, and
  in which order they come.
\<close>

text \<open>C13. The server hands nothing to its handler that was not sent, and user packets only from clients:
  if the parts that arrive from an address are parts of packets the peer there was asked to send,
  whatever else arrives and from wherever, then every query, connect, disconnect and user packet of
  an update is one that the sender the handler is told was asked to send, byte for byte; user
  packets and disconnects come only from clients, those from before the update or those whose
  connect packet the handler has accepted since, and nobody else is a client afterwards. The log is
  that of an auditing handler, with which the update runs just as with the given one. A hosted
  server has the property the updates rely on, and every operation keeps it.\<close>

theorem server_packets_authentic:
  assumes "server_authentic M sv" "protocol_ok pr" "server_wf sv"
  shows "(\<forall>inbox h w sv' h' w'. inbox_authentic M inbox \<longrightarrow> Server_update pr handler sv inbox h w = Some (sv', h', w') \<longrightarrow>
       server_authentic M sv' \<and> server_wf sv' \<and>
       (\<exists>log D. Server_update pr (audit_server handler) sv inbox (h, []) w = Some (sv', (h', log), w') \<and>
          (\<forall>(a, p, answer) \<in> set log. \<exists>bs \<in> ran (M a). pr_check_archived_root pr bs = Inr p) \<and>
          admitted (client_addrs sv) log = Some D \<and> client_addrs sv' \<subseteq> D)) \<and>
    (\<forall>b n config sv'. Server_host_with_config b n config = Inr sv' \<longrightarrow> server_authentic M sv') \<and>
    server_authentic M (snd (Server_unlisten sv a)) \<and> server_authentic M (Server_unlisten_all sv) \<and>
    (\<forall>k x w r sv' w'. Server_client sv a = Some k \<longrightarrow> ServerClient_send pr k x sv w = Some (r, sv', w') \<longrightarrow> server_authentic M sv')"
proof (intro conjI allI impI)
  fix inbox h w sv' h' w'
  assume run: "inbox_authentic M inbox" "Server_update pr handler sv inbox h w = Some (sv', h', w')"
  note log = audited_server_update [OF run(2) assms(1) run(1) assms(2,3)]
  show "server_authentic M sv'" using log by blast
  show "server_wf sv'" using Server_update_steps [OF run(2) assms(3,2)] assms(3) by (rule server.steps_invar)
  show "\<exists>log D. Server_update pr (audit_server handler) sv inbox (h, []) w = Some (sv', (h', log), w') \<and>
      (\<forall>(a, p, answer) \<in> set log. \<exists>bs \<in> ran (M a). pr_check_archived_root pr bs = Inr p) \<and>
      admitted (client_addrs sv) log = Some D \<and> client_addrs sv' \<subseteq> D"
    using log unfolding server_log_ok_def from_peer_def by fastforce
next
  show "server_authentic M sv'" if "Server_host_with_config b n config = Inr sv'" for b n config sv'
    using that by (rule Server_host_authentic)
  show "server_authentic M (snd (Server_unlisten sv a))" by (rule Server_unlisten_authentic [OF assms(1)])
  show "server_authentic M (Server_unlisten_all sv)" by (rule Server_unlisten_all_authentic [OF assms(1)])
  show "server_authentic M sv'" if "Server_client sv a = Some k" "ServerClient_send pr k x sv w = Some (r, sv', w')" for k x w r sv' w'
    using ServerClient_send_authentic [OF assms(1) that(1)] that(2) by (simp add: ServerClient_send_def)
qed

text \<open>A peer that was asked to send one packet of one byte.\<close>

definition one_packet :: "SocketAddr \<Rightarrow> PacketId \<rightharpoonup> u8 list" where
  "one_packet a = (if a = peer_addr then [PacketId 7 \<mapsto> [1]] else Map.empty)"

lemma one_packet_inbox:
  "inbox_authentic one_packet [Inr (peer_addr, part_frame (PacketId 7) [1] 0)]"
  "inbox_small [Inr (peer_addr, part_frame (PacketId 7) [1] 0)]"
proof -
  have "part_frame (PacketId 7) [1] 0 \<in> packet_frames (PacketId 7) [1]"
    by (auto simp: packet_frames_def chunks_small)
  then show "inbox_authentic one_packet [Inr (peer_addr, part_frame (PacketId 7) [1] 0)]"
    using sample_part(2) by (auto simp: inbox_authentic_def part_authentic_def one_packet_def)
  show "inbox_small [Inr (peer_addr, part_frame (PacketId 7) [1] 0)]" using sample_part by (simp add: inbox_small_def)
qed

theorem server_packets_authentic_witness:
  "\<exists>sv' h' log w'. Server_update plain_server_protocol (audit_server plain_server_handler) listening_server
      [Inr (peer_addr, part_frame (PacketId 7) [1] 0)] ((), []) good_world = Some (sv', (h', log), w') \<and>
     server_authentic one_packet sv'"
proof -
  have a: "server_authentic one_packet listening_server" by (simp add: server_authentic_def listening_server_def empty_server_def)
  have s: "server_small listening_server"
    "\<forall>c. Some c \<in> set (sv_clients listening_server) \<longrightarrow> buffers_ok (cl_buffers c)"
    by (simp_all add: server_small_def listening_server_def empty_server_def)
  obtain sv' h' w' where run: "Server_update plain_server_protocol plain_server_handler listening_server
      [Inr (peer_addr, part_frame (PacketId 7) [1] 0)] () good_world = Some (sv', h', w')"
    using Server_update_small_total [OF good_world_whole plain_server_protocol_ok listening_server_wf s one_packet_inbox(2), of plain_server_handler "()"]
    by blast
  from conjunct1 [OF server_packets_authentic [OF a plain_server_protocol_ok listening_server_wf, of plain_server_handler peer_addr],
      rule_format, OF one_packet_inbox(1) run]
  show ?thesis by blast
qed

text \<open>C14. The client hands nothing to its handler that was not sent, and only in an order that the
  protocol has: if the parts that arrive from an address are parts of packets the peer there was
  asked to send, then every packet of an update is, byte for byte, one that a server the client
  listens to was asked to send, a status one of exactly the server the handler is told; and the
  packets form a word of the session: an answer only while connecting, user packets and kicks only
  while connected, from the state before the update to the state after it. A new client has the
  property the updates rely on, and every operation keeps it.\<close>

theorem client_packets_authentic:
  assumes "client_authentic M ct"
  shows "(\<forall>inbox h w ct' h' w'. inbox_authentic M inbox \<longrightarrow> Client_update pr handler ct inbox h w = Some (ct', h', w') \<longrightarrow>
       client_authentic M ct' \<and>
       (\<exists>log. Client_update pr (audit_client handler) ct inbox (h, []) w = Some (ct', (h', log), w') \<and>
          (\<forall>(from, p) \<in> set log. \<exists>a \<in> set (addrs (ct_listeners ct)). (from = None \<or> from = Some a) \<and>
             (\<exists>bs \<in> ran (M a). pr_check_archived_root pr bs = Inr p)) \<and>
          session_word (ct_state ct) (map snd log) (ct_state ct'))) \<and>
    (\<forall>b n config. Client_with_config b n config = Inr ct' \<longrightarrow> client_authentic M ct') \<and>
    (\<forall>a w r w'. Client_listen ct a w = Some (r, ct', w') \<longrightarrow> client_authentic M ct') \<and>
    (\<forall>a r. Client_forget ct a = Some (r, ct') \<longrightarrow> client_authentic M ct') \<and>
    (Client_forget_all ct = Some ct' \<longrightarrow> client_authentic M ct') \<and>
    (\<forall>w r w'. Client_refresh_all ct w = Some (r, ct', w') \<longrightarrow> client_authentic M ct') \<and>
    (\<forall>a q w r w'. Client_query pr ct a q w = Some (r, ct', w') \<longrightarrow> client_authentic M ct') \<and>
    (\<forall>sc pa c w r w'. Client_connect pr ct sc pa c w = Some (r, ct', w') \<longrightarrow> client_authentic M ct') \<and>
    (\<forall>x w r w'. Client_disconnect pr ct x w = Some (r, ct', w') \<longrightarrow> client_authentic M ct') \<and>
    (\<forall>x w r w'. Client_send pr ct x w = Some (r, ct', w') \<longrightarrow> client_authentic M ct')"
proof (intro conjI allI impI)
  fix inbox h w ct' h' w'
  assume "inbox_authentic M inbox" "Client_update pr handler ct inbox h w = Some (ct', h', w')"
  from audited_client_update [OF this(2) assms this(1)]
  show "client_authentic M ct'"
    "\<exists>log. Client_update pr (audit_client handler) ct inbox (h, []) w = Some (ct', (h', log), w') \<and>
       (\<forall>(from, p) \<in> set log. \<exists>a \<in> set (addrs (ct_listeners ct)). (from = None \<or> from = Some a) \<and>
          (\<exists>bs \<in> ran (M a). pr_check_archived_root pr bs = Inr p)) \<and>
       session_word (ct_state ct) (map snd log) (ct_state ct')"
    unfolding client_log_ok_def from_peer_def by blast+
qed (erule Client_with_config_authentic Client_listen_authentic [OF _ assms] Client_forget_authentic [OF _ assms]
    Client_forget_all_authentic [OF _ assms] Client_refresh_all_authentic [OF _ assms] Client_query_authentic [OF _ assms]
    Client_connect_authentic [OF _ assms] Client_disconnect_authentic [OF _ assms] Client_send_authentic [OF _ assms])+

theorem client_packets_authentic_witness:
  "\<exists>ct' h' log w'. Client_update plain_client_protocol (audit_client plain_client_handler) (two_servers Connecting)
      [Inr (peer_addr, part_frame (PacketId 7) [1] 0)] ((), []) good_world = Some (ct', (h', log), w') \<and>
     session_word Connecting (map snd log) (ct_state ct')"
proof -
  have a: "client_authentic one_packet (two_servers Connecting)"
    by (auto simp: client_authentic_def two_servers_def)
  have s: "client_small (two_servers Connecting)"
    "\<forall>l \<in> set (ct_listeners (two_servers Connecting)). state_resendable (sl_state l)" "ct_state (two_servers Connecting) = Connecting"
    by (simp_all add: client_small_def two_servers_def state_resendable_def)
  obtain ct' h' w' where run: "Client_update plain_client_protocol plain_client_handler (two_servers Connecting)
      [Inr (peer_addr, part_frame (PacketId 7) [1] 0)] () good_world = Some (ct', h', w')"
    using Client_update_small_total [OF good_world_whole s(1,2) one_packet_inbox(2), of plain_client_protocol plain_client_handler "()"] by blast
  from conjunct1 [OF client_packets_authentic [OF a, of plain_client_protocol plain_client_handler ct'],
      rule_format, OF one_packet_inbox(1) run]
  show ?thesis unfolding s(3) by blast
qed

end
