(* ===== verification/Session.thy ===== *)
theory Session
  imports Single_Part Server_Spec Client_Spec
begin

text \<open>
  Server and client together, for packets that fit into one datagram: what each of them does with
  the datagrams of the other, from the call that sends a packet to the callback of the other side.
\<close>

section \<open>Frames\<close>

lemma frame_sizes: "length bs \<le> 491 \<Longrightarrow> length (part_frame i bs 0) \<le> 512" "length (ack_bytes i s) \<le> 512"
  by (simp_all add: part_frame_def chunks_small part_bytes_def header_def ack_bytes_def)

lemma frame_kinds:
  "ack_bytes i s \<noteq> []" "PacketKind_try_from (hd (ack_bytes i s)) = Some Kind_Ack"
  "length bs \<le> 491 \<Longrightarrow> PacketKind_try_from (hd (part_frame i bs 0)) = Some Kind_LastPart"
  by (simp_all add: part_frame_def chunks_small part_bytes_def header_def ack_bytes_def)

lemma PacketId_new_updates [simp]:
  "fst (PacketId_new (w\<lparr>ticks := n\<rparr>)) = fst (PacketId_new w)"
  "fst (PacketId_new (w\<lparr>sends := n\<rparr>)) = fst (PacketId_new w)"
  "fst (PacketId_new (w\<lparr>sent := l\<rparr>)) = fst (PacketId_new w)"
  by (simp_all add: PacketId_new_def Uuid_new_v4_def)

lemma buffers_wf_fields:
  "buffers_wf pb \<Longrightarrow> sb_batch_size (pbs_send_buffer pb) \<noteq> 0" "buffers_wf pb \<Longrightarrow> recv_wf (pbs_receive_buffer pb)"
  "buffers_wf pb \<Longrightarrow> btree_invar (sb_packets (pbs_send_buffer pb))"
  by (simp_all add: buffers_wf_def send_wf_def)

section \<open>The server's side\<close>

lemma Server_handle_buffers_frame:
  assumes "network_up w" "length bs \<le> 491" "recv_wf (pbs_receive_buffer b)" "incoming b i = None"
    and "pr_check_archived_root pr bs = Inr p"
  obtains rb t where "Server_handle_buffers pr handler b (part_frame i bs 0) a h w
      = Some (Some p, b\<lparr>pbs_receive_buffer := rb\<rparr>, ch_raw_packet handler (RawPart a PartReassembled) h,
          w\<lparr>ticks := t, sends := Suc (sends w), sent := sent w @ [(a, ack_bytes i 0)]\<rparr>)"
    "recv_wf rb"
  by (rule receive_single_frame [OF assms(1-4), of a]) (simp add: that Server_handle_buffers_def assms(5))

lemma send_or_report_frame:
  assumes "network_up w" "sb_batch_size (pbs_send_buffer b) \<noteq> 0" "length (concat (pr_serialize pr p)) \<le> 491"
  obtains out where "send_or_report pr handler cf b p a h w
      = Some (False, with_outgoing b (fst (PacketId_new w)) out, h,
          w\<lparr>uuids_drawn := Suc (uuids_drawn w), ticks := Suc (ticks w), sends := Suc (sends w),
            sent := sent w @ [(a, part_frame (fst (PacketId_new w)) (concat (pr_serialize pr p)) 0)]\<rparr>)"
  by (rule send_single [OF assms refl, of "cf_background_serialization_threshold (sc_connection cf)" a])
    (simp add: that send_or_report_def)

lemma role_of_slot:
  "server_wf sv \<Longrightarrow> i < length (sv_clients sv) \<Longrightarrow> sv_clients sv ! i = Some c \<Longrightarrow> role sv (cl_client_addr c) = Slot i"
  using role_slots(1) [of sv "cl_client_addr c" i] by (simp add: server_wf_def slots_def)

lemma listener_buffers_wf:
  "server_wf sv \<Longrightarrow> BTreeMap_get (sv_listeners sv) a = Some b \<Longrightarrow> buffers_wf b"
  by (auto simp: server_wf_def btree_all_def BTreeMap_get_def dest: map_of_SomeD)

lemma client_buffers_wf:
  "server_wf sv \<Longrightarrow> role sv a = Slot i \<Longrightarrow> sv_clients sv ! i = Some c \<Longrightarrow>
     buffers_wf (cl_buffers c) \<and> cl_client_addr c = a \<and> position (is_client a) (sv_clients sv) = Some i"
  using position_is_client [of a "sv_clients sv" i]
  by (auto simp: role_def server_wf_def clients_wf_def split: option.split_asm if_split_asm) (metis nth_mem)

definition connect_reply :: "('accept, 'reject) Connect \<Rightarrow> ('status, 'accept, 'reject, 'kick, 'user) ServerConnectionPacket" where
  "connect_reply answer = (case answer of Connect_Accept x \<Rightarrow> SC_Accept x | Connect_Reject x \<Rightarrow> SC_Reject x)"

text \<open>A connect packet of a listener is acknowledged and then answered, and an accepted listener gets a slot.\<close>

lemma Server_connect_answered:
  assumes sv: "server_wf sv" "protocol_ok pr" "BTreeMap_get (sv_listeners sv) a = Some b" "incoming b i = None"
    and w: "network_up w" and bs: "length bs \<le> 491" "pr_check_archived_root pr bs = Inr (CC_Connect con)"
    and answer: "sh_connect handler a con (ch_raw_packet handler (RawPart a PartReassembled) h) = (answer, h1)"
    "length (concat (pr_serialize pr (connect_reply answer))) \<le> 491"
  shows "\<exists>sv' w'. Server_handle_packet pr handler sv a (part_frame i bs 0) pb h w = Some (sv', pb, h1, w') \<and>
    sent w' = sent w @ [(a, ack_bytes i 0),
      (a, part_frame (fst (PacketId_new w)) (concat (pr_serialize pr (connect_reply answer))) 0)] \<and>
    role sv' a = (case answer of Connect_Accept _ \<Rightarrow> Slot (fst (Server_get_or_add_free_slot (sv_clients sv)))
      | Connect_Reject _ \<Rightarrow> Listening)"
proof -
  have b: "buffers_wf b" using listener_buffers_wf [OF sv(1,3)] .
  obtain rb t where r: "Server_handle_buffers pr handler b (part_frame i bs 0) a h w
      = Some (Some (CC_Connect con), b\<lparr>pbs_receive_buffer := rb\<rparr>, ch_raw_packet handler (RawPart a PartReassembled) h,
          w\<lparr>ticks := t, sends := Suc (sends w), sent := sent w @ [(a, ack_bytes i 0)]\<rparr>)" (is "_ = Some (_, ?b, _, ?w)")
    by (rule Server_handle_buffers_frame [OF w bs(1) buffers_wf_fields(2) [OF b] sv(4) bs(2)])
  have up: "network_up ?w" "sb_batch_size (pbs_send_buffer ?b) \<noteq> 0" using w buffers_wf_fields(1) [OF b] by simp_all
  obtain out where s: "send_or_report pr handler (sv_config sv) ?b (connect_reply answer) a h1 ?w
      = Some (False, with_outgoing ?b (fst (PacketId_new w)) out, h1,
          ?w\<lparr>uuids_drawn := Suc (uuids_drawn w), ticks := Suc t, sends := Suc (Suc (sends w)),
            sent := sent ?w @ [(a, part_frame (fst (PacketId_new w)) (concat (pr_serialize pr (connect_reply answer))) 0)]\<rparr>)"
    by (rule send_or_report_frame [OF up answer(2)]) simp
  obtain k cs where free: "Server_get_or_add_free_slot (sv_clients sv) = (k, cs)" by fastforce
  have "position (is_client a) (sv_clients sv) = None"
    using sv(1,3) by (auto simp: position_is_client_None server_wf_def)
  then obtain sv' w' where run: "Server_handle_packet pr handler sv a (part_frame i bs 0) pb h w = Some (sv', pb, h1, w')"
    "sent w' = sent w @ [(a, ack_bytes i 0),
      (a, part_frame (fst (PacketId_new w)) (concat (pr_serialize pr (connect_reply answer))) 0)]"
    "case answer of
       Connect_Accept _ \<Rightarrow> sv' = sv\<lparr>sv_listeners := BTreeMap_remove a (sv_listeners sv),
         sv_clients := cs[k := Some (ClientConnection_new a (with_outgoing ?b (fst (PacketId_new w)) out))]\<rparr>
     | Connect_Reject _ \<Rightarrow> sv' = sv\<lparr>sv_listeners :=
         BTreeMap_insert a (with_outgoing ?b (fst (PacketId_new w)) out) (sv_listeners sv)\<rparr>"
    using r s sv(3) answer(1) free
    by (cases answer) (simp_all add: Server_handle_packet_def Server_handle_listener_def connect_reply_def)
  have wf: "server_wf sv'" using handle_packet_step [OF sv(1,2) run(1)] sv(1) by (rule peer_step_wf)
  have "role sv' a = (case answer of Connect_Accept _ \<Rightarrow> Slot (fst (Server_get_or_add_free_slot (sv_clients sv)))
      | Connect_Reject _ \<Rightarrow> Listening)"
  proof (cases answer)
    case (Connect_Accept x)
    let ?c = "ClientConnection_new a (with_outgoing ?b (fst (PacketId_new w)) out)"
    have "k < length (sv_clients sv')" "sv_clients sv' ! k = Some ?c"
      using run(3) Connect_Accept get_or_add_free_slot(1) [OF free] by simp_all
    from role_of_slot [OF wf this] show ?thesis by (simp add: Connect_Accept free ClientConnection_new_def)
  next
    case (Connect_Reject x)
    have "Some a \<notin> set (slots (sv_clients sv))" using sv(1,3) by (auto simp: server_wf_def)
    with run(3) Connect_Reject sv(1) show ?thesis
      using role_slots(2) [of sv' a] by (simp add: server_wf_def btree.get_insert)
  qed
  with run show ?thesis by blast
qed

text \<open>A packet of a connected client is acknowledged; a user packet goes to the handler, a disconnect
  frees the slot and makes the client a listener again.\<close>

lemma Server_user_packet_received:
  assumes sv: "server_wf sv" "role sv a = Slot k" "sv_clients sv ! k = Some c" "incoming (cl_buffers c) i = None"
    and w: "network_up w" and bs: "length bs \<le> 491" "pr_check_archived_root pr bs = Inr (CC_User u)"
  shows "\<exists>sv' w'. Server_handle_packet pr handler sv a (part_frame i bs 0) pb h w
      = Some (sv', pb, sh_packet handler a u (ch_raw_packet handler (RawPart a PartReassembled) h), w') \<and>
    sent w' = sent w @ [(a, ack_bytes i 0)]"
proof -
  note c = client_buffers_wf [OF sv(1-3)]
  obtain rb t where "Server_handle_buffers pr handler (cl_buffers c) (part_frame i bs 0) a h w
      = Some (Some (CC_User u), (cl_buffers c)\<lparr>pbs_receive_buffer := rb\<rparr>, ch_raw_packet handler (RawPart a PartReassembled) h,
          w\<lparr>ticks := t, sends := Suc (sends w), sent := sent w @ [(a, ack_bytes i 0)]\<rparr>)"
    by (rule Server_handle_buffers_frame [OF w bs(1) _ sv(4) bs(2), of handler a h])
      (use c buffers_wf_fields(2) in blast)+
  with c sv(3) show ?thesis
    by (simp add: Server_handle_packet_def Server_handle_client_def frame_kinds(3) [OF bs(1)])
qed

lemma Server_disconnect_received:
  assumes sv: "server_wf sv" "protocol_ok pr" "role sv a = Slot k" "sv_clients sv ! k = Some c" "incoming (cl_buffers c) i = None"
    and w: "network_up w" and bs: "length bs \<le> 491" "pr_check_archived_root pr bs = Inr (CC_Disconnect d)"
  shows "\<exists>sv' w'. Server_handle_packet pr handler sv a (part_frame i bs 0) pb h w
      = Some (sv', pb, sh_disconnect handler a d (ch_raw_packet handler (RawPart a PartReassembled) h), w') \<and>
    sent w' = sent w @ [(a, ack_bytes i 0)] \<and> role sv' a = Listening"
proof -
  note c = client_buffers_wf [OF sv(1,3,4)]
  obtain rb t where "Server_handle_buffers pr handler (cl_buffers c) (part_frame i bs 0) a h w
      = Some (Some (CC_Disconnect d), (cl_buffers c)\<lparr>pbs_receive_buffer := rb\<rparr>, ch_raw_packet handler (RawPart a PartReassembled) h,
          w\<lparr>ticks := t, sends := Suc (sends w), sent := sent w @ [(a, ack_bytes i 0)]\<rparr>)"
    by (rule Server_handle_buffers_frame [OF w bs(1) _ sv(5) bs(2), of handler a h])
      (use c buffers_wf_fields(2) in blast)+
  with c sv(4) obtain sv' w' where run: "Server_handle_packet pr handler sv a (part_frame i bs 0) pb h w
      = Some (sv', pb, sh_disconnect handler a d (ch_raw_packet handler (RawPart a PartReassembled) h), w')"
    "sent w' = sent w @ [(a, ack_bytes i 0)]" "BTreeMap_get (sv_listeners sv') a \<noteq> None"
    using sv(1)
    by (simp add: Server_handle_packet_def Server_handle_client_def frame_kinds(3) [OF bs(1)] server_wf_def btree.get_insert)
  have wf: "server_wf sv'" using handle_packet_step [OF sv(1,2) run(1)] sv(1) by (rule peer_step_wf)
  then have "role sv' a = Listening"
    using role_slots(2) [of sv' a] run(3) by (auto simp: server_wf_def)
  with run show ?thesis by blast
qed

text \<open>A user packet of the server.\<close>

lemma ServerClient_send_frame:
  assumes "server_wf sv" "Server_client sv a = Some k" "network_up w" "length (concat (pr_serialize pr (SC_User u))) \<le> 491"
  shows "\<exists>sv' w'. ServerClient_send pr k u sv w = Some (Inr (fst (PacketId_new w)), sv', w') \<and>
    sent w' = sent w @ [(a, part_frame (fst (PacketId_new w)) (concat (pr_serialize pr (SC_User u))) 0)]"
proof -
  obtain j where j: "position (is_client a) (sv_clients sv) = Some j" "sk_slot k = j" "sk_client_addr k = a"
    using assms(2) by (auto simp: Server_client_def)
  obtain c where c: "sv_clients sv ! j = Some c" using position_is_client(2) [OF j(1)] by blast
  have "buffers_wf (cl_buffers c)"
    using client_buffers_wf [OF assms(1) _ c, of a] j(1) by (simp add: role_def)
  then obtain b' w' where "PacketBuffers_send (cl_buffers c) (pr_serialize pr (SC_User u)) (sk_background_serialization_threshold k)
      (udp a) w = Some (Inr (fst (PacketId_new w)), b', w')"
    "sent w' = sent w @ [(a, part_frame (fst (PacketId_new w)) (concat (pr_serialize pr (SC_User u))) 0)]"
    by (rule send_single [OF assms(3) buffers_wf_fields(1) assms(4) refl, of "cl_buffers c" "sk_background_serialization_threshold k" a])
      simp
  with j c show ?thesis by (simp add: ServerClient_send_def ServerClient_send_raw_def)
qed

section \<open>The client's side\<close>

lemma client_packets_loop_Cons:
  assumes "length d \<le> length pb"
  shows "client_packets_loop pr handler ct (Inr (a, d) # inbox) pb h w = do {
     (ct, h, w) \<leftarrow> Client_handle_packet pr handler ct a d h w;
     client_packets_loop pr handler ct inbox (d @ drop (length d) pb) h w
   }"
  using assms by (simp add: client_packets_loop.simps [of pr handler ct "Inr (a, d) # inbox"] recv_def)

lemma client_packets_loop_Nil: "client_packets_loop pr handler ct [] pb h w = Some (ct, h, w)"
  by (simp add: client_packets_loop.simps recv_def)

text \<open>The first listener is compatible, with the given buffers.\<close>

definition first_listener :: "'ce Client \<Rightarrow> SocketAddr \<Rightarrow> PacketBuffers \<Rightarrow> bool" where
  "first_listener ct a b \<longleftrightarrow>
     (\<exists>l ls t. ct_listeners ct = l # ls \<and> sl_server_addr l = a \<and> sl_state l = Compatible b t)"

lemma first_listener_position:
  assumes "first_listener ct a b"
  obtains t where "position (listens_to a) (ct_listeners ct) = Some 0" "sl_state (ct_listeners ct ! 0) = Compatible b t"
    "0 < length (ct_listeners ct)"
  using assms by (auto simp: first_listener_def listens_to_def)

lemma first_listener_set:
  "first_listener ct a b \<Longrightarrow> first_listener (set_listener_state ct 0 (Compatible b' t)) a b'"
  "first_listener (ct\<lparr>ct_state := s\<rparr>) a b = first_listener ct a b"
  by (auto simp: first_listener_def set_listener_state_def)

text \<open>Buffers \<open>b'\<close> are \<open>b\<close> with one more packet, sent in one frame that is not acknowledged yet.\<close>

definition awaiting_ack :: "PacketBuffers \<Rightarrow> PacketBuffers \<Rightarrow> PacketId \<Rightarrow> bool" where
  "awaiting_ack b b' i \<longleftrightarrow> pbs_receive_buffer b' = pbs_receive_buffer b \<and>
     (\<exists>p q t n. single_queue p q \<and> outgoing b' i = Some (sent_once q t n))"

lemma Client_handle_ack:
  assumes "first_listener ct a b'" "awaiting_ack b b' i"
  obtains b1 ct' where
    "Client_handle_packet pr handler ct a (ack_bytes i 0) h w
       = Some (ct', ch_raw_packet handler (RawAck a False) h, w\<lparr>ticks := Suc (ticks w)\<rparr>)"
    "first_listener ct' a b1" "pbs_receive_buffer b1 = pbs_receive_buffer b" "ct_state ct' = ct_state ct"
proof -
  obtain t0 where pos: "position (listens_to a) (ct_listeners ct) = Some 0" "sl_state (ct_listeners ct ! 0) = Compatible b' t0"
    "0 < length (ct_listeners ct)"
    using first_listener_position [OF assms(1)] by metis
  obtain p q t n where q: "single_queue p q" "outgoing b' i = Some (sent_once q t n)"
    "pbs_receive_buffer b' = pbs_receive_buffer b"
    using assms(2) by (auto simp: awaiting_ack_def)
  let ?w = "w\<lparr>ticks := Suc (ticks w)\<rparr>"
  obtain q' where q': "PacketBuffers_handle b' (ack_bytes i 0) (udp a) ?w
      = Some (Inr (HandlingAck False), with_outgoing b' i (acked_once q' t n), ?w)"
    using handle_single_ack [OF q(2,1)] by metis
  let ?ct = "set_listener_state ct 0 (Compatible (with_outgoing b' i (acked_once q' t n)) (clock w (ticks w)))"
  have "Client_handle_packet pr handler ct a (ack_bytes i 0) h w
       = Some (?ct, ch_raw_packet handler (RawAck a False) h, ?w)"
    using pos q' by (simp add: Client_handle_packet_def Client_handle_compatible_def Instant_now_def frame_kinds)
  then show ?thesis
    by (rule that [OF _ first_listener_set(1) [OF assms(1)]]) (simp_all add: q(3))
qed

lemma Client_handle_frame:
  assumes "first_listener ct a b" "network_up w" "length bs \<le> 491" "recv_wf (pbs_receive_buffer b)" "incoming b i = None"
    and "pr_check_archived_root pr bs = Inr p"
    and "Client_handle_connection_packet handler (ct_state ct) (ct_state ct \<noteq> Disconnected) a p
      (ch_raw_packet handler (RawPart a PartReassembled) h) = (s, h')"
  obtains ct' rb w' where "Client_handle_packet pr handler ct a (part_frame i bs 0) h w = Some (ct', h', w')"
    "ct_state ct' = s" "first_listener ct' a (b\<lparr>pbs_receive_buffer := rb\<rparr>)"
    "sent w' = sent w @ [(a, ack_bytes i 0)]"
proof -
  obtain t0 where pos: "position (listens_to a) (ct_listeners ct) = Some 0" "sl_state (ct_listeners ct ! 0) = Compatible b t0"
    "0 < length (ct_listeners ct)"
    using first_listener_position [OF assms(1)] by metis
  have up: "network_up (w\<lparr>ticks := Suc (ticks w)\<rparr>)" using assms(2) by simp
  obtain rb t where h: "PacketBuffers_handle b (part_frame i bs 0) (udp a) (w\<lparr>ticks := Suc (ticks w)\<rparr>)
      = Some (Inr (HandlingReceived (Reassembled bs)), b\<lparr>pbs_receive_buffer := rb\<rparr>,
          w\<lparr>ticks := t, sends := Suc (sends w), sent := sent w @ [(a, ack_bytes i 0)]\<rparr>)"
    by (rule receive_single_frame [OF up assms(3-5), of a]) simp
  let ?ct = "(set_listener_state ct 0 (Compatible (b\<lparr>pbs_receive_buffer := rb\<rparr>) (clock w (ticks w))))\<lparr>ct_state := s\<rparr>"
  have "Client_handle_packet pr handler ct a (part_frame i bs 0) h w
      = Some (?ct, h', w\<lparr>ticks := t, sends := Suc (sends w), sent := sent w @ [(a, ack_bytes i 0)]\<rparr>)"
    using pos h assms(6,7)
    by (simp add: Client_handle_packet_def Client_handle_compatible_def Instant_now_def frame_kinds(3) [OF assms(3)])
  then show ?thesis by (rule that) (use first_listener_set(1) [OF assms(1)] in \<open>simp_all add: first_listener_set(2)\<close>)
qed

text \<open>The three calls that send to the first listener.\<close>

lemma outgoing_new [simp]:
  "buffers_wf b \<Longrightarrow> outgoing (with_outgoing b i out) i = Some out"
  by (simp add: buffers_wf_fields btree.get_insert)

lemma send_first_listener:
  assumes "network_up w" "first_listener ct a b" "buffers_wf b" "length (concat ws) \<le> 491" "i = fst (PacketId_new w)"
  obtains b' w' l ls t where "PacketBuffers_send b ws th (udp a) w = Some (Inr i, b', w')"
    "sent w' = sent w @ [(a, part_frame i (concat ws) 0)]" "awaiting_ack b b' i"
    "ct_listeners ct = l # ls" "sl_server_addr l = a" "sl_state l = Compatible b t"
proof -
  obtain q where q: "single_queue (part_buffer Kind_LastPart i 0 (concat ws)) q"
    "PacketBuffers_send b ws th (udp a) w = Some (Inr i,
       with_outgoing b i (sent_once q (clock w (ticks w)) (sb_batch_size (pbs_send_buffer b))),
       w\<lparr>uuids_drawn := Suc (uuids_drawn w), ticks := Suc (ticks w), sends := Suc (sends w),
         sent := sent w @ [(a, part_frame i (concat ws) 0)]\<rparr>)"
    by (rule send_single [OF assms(1) buffers_wf_fields(1) [OF assms(3)] assms(4,5)])
  moreover have "awaiting_ack b (with_outgoing b i (sent_once q (clock w (ticks w)) (sb_batch_size (pbs_send_buffer b)))) i"
    using q(1) assms(3) by (auto simp: awaiting_ack_def buffers_wf_fields btree.get_insert)
  ultimately show ?thesis using assms(2) that by (auto simp: first_listener_def)
qed

lemma Client_connect_frame:
  assumes "network_up w" "first_listener ct a b" "buffers_wf b" "ct_state ct = Disconnected"
    and "length (concat (pr_serialize pr (CC_Connect x))) \<le> 491"
  obtains ct' w' b' where "Client_connect pr ct (Inr ()) (Inr a) x w = Some (Inr (fst (PacketId_new w)), ct', w')"
    "ct_state ct' = Connecting" "first_listener ct' a b'" "awaiting_ack b b' (fst (PacketId_new w))"
    "sent w' = sent w @ [(a, part_frame (fst (PacketId_new w)) (concat (pr_serialize pr (CC_Connect x))) 0)]"
proof -
  obtain b' w' l ls t where s: "PacketBuffers_send b (pr_serialize pr (CC_Connect x)) (threshold ct) (udp a) w
      = Some (Inr (fst (PacketId_new w)), b', w')"
    "sent w' = sent w @ [(a, part_frame (fst (PacketId_new w)) (concat (pr_serialize pr (CC_Connect x))) 0)]"
    "awaiting_ack b b' (fst (PacketId_new w))" "ct_listeners ct = l # ls" "sl_server_addr l = a" "sl_state l = Compatible b t"
    by (rule send_first_listener [OF assms(1-3,5) refl])
  let ?ct = "(set_listener_state ct 0 (Compatible b' t))\<lparr>ct_state := Connecting\<rparr>"
  have "Client_connect pr ct (Inr ()) (Inr a) x w = Some (Inr (fst (PacketId_new w)), ?ct, w')"
    using s assms(4) by (simp add: Client_connect_def Client_get_or_add_listener_def listens_to_def)
  then show ?thesis
    by (rule that) (use s(2,3) first_listener_set(1) [OF assms(2)] in \<open>simp_all add: first_listener_set(2)\<close>)
qed

lemma Client_disconnect_frame:
  assumes "network_up w" "first_listener ct a b" "buffers_wf b" "ct_state ct = Connected"
    and "length (concat (pr_serialize pr (CC_Disconnect x))) \<le> 491"
  obtains ct' w' b' where "Client_disconnect pr ct x w = Some (Inr (fst (PacketId_new w)), ct', w')"
    "ct_state ct' = Disconnecting" "first_listener ct' a b'" "awaiting_ack b b' (fst (PacketId_new w))"
    "sent w' = sent w @ [(a, part_frame (fst (PacketId_new w)) (concat (pr_serialize pr (CC_Disconnect x))) 0)]"
proof -
  obtain b' w' l ls t where s: "PacketBuffers_send b (pr_serialize pr (CC_Disconnect x)) (threshold ct) (udp a) w
      = Some (Inr (fst (PacketId_new w)), b', w')"
    "sent w' = sent w @ [(a, part_frame (fst (PacketId_new w)) (concat (pr_serialize pr (CC_Disconnect x))) 0)]"
    "awaiting_ack b b' (fst (PacketId_new w))" "ct_listeners ct = l # ls" "sl_server_addr l = a" "sl_state l = Compatible b t"
    by (rule send_first_listener [OF assms(1-3,5) refl])
  let ?ct = "(set_listener_state ct 0 (Compatible b' t))\<lparr>ct_state := Disconnecting\<rparr>"
  have "Client_disconnect pr ct x w = Some (Inr (fst (PacketId_new w)), ?ct, w')"
    using s assms(4) by (simp add: Client_disconnect_def)
  then show ?thesis
    by (rule that) (use s(2,3) first_listener_set(1) [OF assms(2)] in \<open>simp_all add: first_listener_set(2)\<close>)
qed

lemma Client_send_frame:
  assumes "network_up w" "first_listener ct a b" "buffers_wf b" "ct_state ct = Connected"
    and "length (concat (pr_serialize pr (CC_User x))) \<le> 491"
  obtains ct' w' b' where "Client_send pr ct x w = Some (Inr (fst (PacketId_new w)), ct', w')"
    "ct_state ct' = Connected" "first_listener ct' a b'" "awaiting_ack b b' (fst (PacketId_new w))"
    "sent w' = sent w @ [(a, part_frame (fst (PacketId_new w)) (concat (pr_serialize pr (CC_User x))) 0)]"
proof -
  obtain b' w' l ls t where s: "PacketBuffers_send b (pr_serialize pr (CC_User x)) (threshold ct) (udp a) w
      = Some (Inr (fst (PacketId_new w)), b', w')"
    "sent w' = sent w @ [(a, part_frame (fst (PacketId_new w)) (concat (pr_serialize pr (CC_User x))) 0)]"
    "awaiting_ack b b' (fst (PacketId_new w))" "ct_listeners ct = l # ls" "sl_server_addr l = a" "sl_state l = Compatible b t"
    by (rule send_first_listener [OF assms(1-3,5) refl])
  let ?ct = "set_listener_state ct 0 (Compatible b' t)"
  have "Client_send pr ct x w = Some (Inr (fst (PacketId_new w)), ?ct, w')"
    using s assms(4) by (simp add: Client_send_def)
  then show ?thesis
    by (rule that) (use s(2,3) first_listener_set(1) [OF assms(2)] assms(4) in simp_all)
qed

lemma client_first_buffers_wf: "client_wf ct \<Longrightarrow> first_listener ct a b \<Longrightarrow> buffers_wf b"
  by (auto simp: client_wf_def first_listener_def)

section \<open>Leaving\<close>

text \<open>No datagram ends the state \<open>Disconnecting\<close>, unless answering it fails.\<close>

lemma Client_disconnecting_stays:
  assumes "Client_handle_packet pr handler ct a buf h w = Some (ct', h', w')" "ct_state ct = Disconnecting"
    and "\<And>w1 e w2. send_to w1 = send_to w \<Longrightarrow> udp a buf w1 \<noteq> Some (Inl e, w2)"
  shows "ct_state ct' = Disconnecting"
proof (cases "position (listens_to a) (ct_listeners ct)")
  case None
  with assms(1,2) show ?thesis by (simp add: Client_handle_packet_def)
next
  case (Some i)
  note i = position_listens_to(1) [OF Some]
  show ?thesis
  proof (cases "sl_state (ct_listeners ct ! i)")
    case (PendingVersion v)
    with assms(1,2) Some Client_handle_pending_state [of pr handler ct i a buf h w] show ?thesis
      by (simp add: Client_handle_packet_def)
  next
    case (Incompatible e)
    with assms(1,2) Some show ?thesis by (simp add: Client_handle_packet_def)
  next
    case (Compatible b t)
    with assms(1) Some have run: "Client_handle_compatible pr handler ct i (i = 0 \<and> ct_state ct \<noteq> Disconnected) b a buf h w
        = Some (ct', h', w')" by (simp add: Client_handle_packet_def)
    show ?thesis
    proof (cases "i = 0 \<and> buf \<noteq> [] \<and> PacketKind_try_from (hd buf) = Some Kind_Ping")
      case True
      with run assms(2) assms(3) [of "w\<lparr>ticks := Suc (ticks w)\<rparr>"] show ?thesis
        by (auto simp: Client_handle_compatible_def Instant_now_def bind_eq_Some_conv Let_def split: sum.split_asm)
          (metis sum.exhaust)
    next
      case False
      have keep: "st = Disconnecting"
        if "Client_handle_connection_packet handler Disconnecting c a p h1 = (st, h2)" for c p h1 st h2
        using that by (auto simp: Client_handle_connection_packet_def split: ServerConnectionPacket.split_asm)
      from run False obtain r b1 w1 where
        "PacketBuffers_handle b buf (udp a) (w\<lparr>ticks := Suc (ticks w)\<rparr>) = Some (r, b1, w1)"
        by (auto simp: Client_handle_compatible_def Instant_now_def bind_eq_Some_conv)
      with run assms(2) False i show ?thesis
        by (auto simp: Client_handle_compatible_def Instant_now_def Let_def dest: keep
            split: sum.split_asm PacketHandling.split_asm ReceivedPacket.split_asm prod.split_asm)
    qed
  qed
qed

end
