(* ===== verification/Session_Parts.thy ===== *)
theory Session_Parts
  imports Session
begin

text \<open>
  A user packet of any size, from the parts the sender makes of it to the handler of the other side:
  the receive loop over the datagrams of the parts, in any order. What the loops of the server and
  of the client have in common is the locale \<open>part_loop\<close>.
\<close>

section \<open>Receive loops\<close>

text \<open>A loop that runs over datagrams, in a state of which it is known which parts of the packet \<open>i\<close>
  with payload \<open>bs\<close> have arrived: the datagram of a part leads to a state where this part has arrived
  too, and to a callback for the outcome.\<close>

locale part_loop =
  fixes loop :: "'s \<Rightarrow> u8 list list \<Rightarrow> 'h \<Rightarrow> world \<Rightarrow> ('r \<times> 'h \<times> world) option"
    and arrived :: "'s \<Rightarrow> nat set \<Rightarrow> bool" and callback :: "ReceivedPacket \<Rightarrow> 'h \<Rightarrow> 'h"
    and i :: PacketId and bs :: "u8 list"
  assumes loop_Nil: "\<exists>r. loop s [] h w = Some (r, h, w)"
    and loop_part: "whole_datagrams w \<Longrightarrow> io_never_fails w \<Longrightarrow> arrived s S \<Longrightarrow> length (chunks bs) < 2 ^ 32 \<Longrightarrow>
      idx < length (chunks bs) \<Longrightarrow> idx \<notin> S \<or> length (chunks bs) < 256 \<Longrightarrow>
      \<exists>s' w'. arrived s' (insert idx S) \<and> same_env w w' \<and>
        (\<forall>ds. loop s (part_frame i bs idx # ds) h w = loop s' ds (callback (outcome bs S idx) h) w')"
begin

lemma loop_parts:
  assumes "whole_datagrams w" "io_never_fails w" "arrived s S" "length (chunks bs) < 2 ^ 32"
    and "set idxs \<subseteq> {..<length (chunks bs)}" "(distinct idxs \<and> set idxs \<inter> S = {}) \<or> length (chunks bs) < 256"
  shows "\<exists>r w'. loop s (map (part_frame i bs) idxs) h w = Some (r, fold callback (outcomes bs S idxs) h, w')"
  using assms
proof (induction idxs arbitrary: s S h w)
  case Nil
  then show ?case using loop_Nil [of s h w] by auto
next
  case (Cons idx idxs)
  have idx: "idx < length (chunks bs)" "idx \<notin> S \<or> length (chunks bs) < 256"
    and rest: "set idxs \<subseteq> {..<length (chunks bs)}" "(distinct idxs \<and> set idxs \<inter> insert idx S = {}) \<or> length (chunks bs) < 256"
    using Cons.prems(5,6) by auto
  obtain s' w' where s: "arrived s' (insert idx S)" "same_env w w'"
    "\<And>ds. loop s (part_frame i bs idx # ds) h w = loop s' ds (callback (outcome bs S idx) h) w'"
    using loop_part [OF Cons.prems(1-4) idx] by blast
  have "whole_datagrams w'" "io_never_fails w'"
    using same_env_whole [OF s(2)] same_env_never_fails [OF s(2)] Cons.prems(1,2) by simp_all
  from Cons.IH [OF this s(1) Cons.prems(4) rest, of "callback (outcome bs S idx) h"]
  show ?case by (simp add: s(3) outcome_def)
qed

text \<open>All parts, in any order: one callback for each datagram, exactly one of which is for the packet.\<close>

lemma loop_packet:
  assumes "whole_datagrams w" "io_never_fails w" "arrived s {}" "length (chunks bs) < 2 ^ 32"
    and "set idxs = {..<length (chunks bs)}" "distinct idxs \<or> length (chunks bs) < 256"
  shows "\<exists>rs r w'. loop s (map (part_frame i bs) idxs) h w = Some (r, fold callback rs h, w') \<and> length rs = length idxs \<and>
    filter (\<lambda>r. r \<noteq> Pending \<and> r \<noteq> Duplicate) rs = [Reassembled bs]"
proof -
  obtain r w' where run: "loop s (map (part_frame i bs) idxs) h w = Some (r, fold callback (outcomes bs {} idxs) h, w')"
    using loop_parts [OF assms(1-4), of idxs h] assms(5,6) by auto
  have "{..<length (chunks bs)} \<noteq> {}" by (simp add: lessThan_empty_iff)
  then have "filter (\<lambda>r. r \<noteq> Pending \<and> r \<noteq> Duplicate) (outcomes bs {} idxs) = [Reassembled bs]"
    using outcomes_once [of idxs bs "{}"] assms(5) by auto
  moreover have "length (outcomes bs S idxs) = length idxs" for S by (induction idxs arbitrary: S) simp_all
  ultimately show ?thesis using run by blast
qed

end

text \<open>The datagrams of a serialized packet are the frames of its parts.\<close>

lemma serialized_frames:
  assumes "length (concat ws) \<le> 491 * (2 ^ 32 - 1)" "serialize_packet i t ws = Some p"
    and "set idxs = {..<length (SerializedPacket_parts p)}"
  shows "length (chunks (concat ws)) < 2 ^ 32"
    "map (\<lambda>j. Inr (a, part_wire (SerializedPacket_parts p ! j))) idxs
       = map (\<lambda>d. Inr (a, d)) (map (part_frame i (concat ws)) idxs)"
    "set idxs = {..<length (chunks (concat ws))}" "length (SerializedPacket_parts p) = length (chunks (concat ws))"
proof -
  have parts: "SerializedPacket_parts p = part_list i (concat ws)"
    using serialize_packet_parts [of ws i t] assms(1,2) by auto
  show "length (chunks (concat ws)) < 2 ^ 32" using part_count_bound [OF assms(1)] by (simp add: length_chunks)
  show "map (\<lambda>j. Inr (a, part_wire (SerializedPacket_parts p ! j))) idxs
      = map (\<lambda>d. Inr (a, d)) (map (part_frame i (concat ws)) idxs)"
    using assms(3) by (auto simp: parts part_wire_frame)
  show "set idxs = {..<length (chunks (concat ws))}" "length (SerializedPacket_parts p) = length (chunks (concat ws))"
    using assms(3) by (simp_all add: parts)
qed

section \<open>The server\<close>

lemma handle_packets_loop_Cons:
  assumes "length d \<le> length pb"
  shows "handle_packets_loop pr handler sv (Inr (a, d) # inbox) pb h w = do {
     (sv, pb, h, w) \<leftarrow> Server_handle_packet pr handler sv a d (d @ drop (length d) pb) h w;
     handle_packets_loop pr handler sv inbox pb h w
   }"
  using assms by (simp add: handle_packets_loop.simps [of pr handler sv "Inr (a, d) # inbox"] recv_def)

lemma handle_packets_loop_Nil: "handle_packets_loop pr handler sv [] pb h w = Some (sv, h, w)"
  by (simp add: handle_packets_loop.simps recv_def)

lemma part_frame_shape:
  assumes "idx < length (chunks bs)"
  shows "length (part_frame i bs idx) \<le> 512" "PacketKind_try_from (hd (part_frame i bs idx)) \<noteq> Some Kind_Ping"
  using nth_chunks [OF assms] by (simp_all add: part_frame_def part_bytes_def header_def)

text \<open>What the handler is told about the parts of a user packet.\<close>

definition part_callback ::
    "('h, 'version, 'query, 'status, 'connect, 'accept, 'reject, 'disconnect, 'user) ServerHandler
      \<Rightarrow> SocketAddr \<Rightarrow> 'user \<Rightarrow> ReceivedPacket \<Rightarrow> 'h \<Rightarrow> 'h" where
  "part_callback handler a u r h =
     (case r of
        Pending \<Rightarrow> ch_raw_packet handler (RawPart a PartPending) h
      | Duplicate \<Rightarrow> ch_raw_packet handler (RawPart a PartDuplicate) h
      | Reassembled _ \<Rightarrow> sh_packet handler a u (ch_raw_packet handler (RawPart a PartReassembled) h))"

text \<open>The client in slot \<open>k\<close>, of whose packet the parts \<open>S\<close> have arrived.\<close>

definition client_receiving :: "Server \<Rightarrow> SocketAddr \<Rightarrow> nat \<Rightarrow> u8 list \<Rightarrow> PacketId \<Rightarrow> nat set \<Rightarrow> bool" where
  "client_receiving sv a k bs i S \<longleftrightarrow>
     (\<exists>c. position (is_client a) (sv_clients sv) = Some k \<and> sv_clients sv ! k = Some c \<and> cl_client_addr c = a \<and>
        buffers_wf (cl_buffers c) \<and> receiving bs S (incoming (cl_buffers c) i))"

lemma position_is_client_update:
  assumes "position (is_client a) cs = Some k" "cl_client_addr c = a"
  shows "position (is_client a) (cs[k := Some c]) = Some k"
  using assms by (auto simp: position_Some_iff is_client_def nth_list_update)

lemma Server_part_handled:
  assumes w: "whole_datagrams w" "io_never_fails w" and sv: "client_receiving sv a k bs i S"
    and idx: "length (chunks bs) < 2 ^ 32" "idx < length (chunks bs)" "idx \<notin> S \<or> length (chunks bs) < 256"
    and u: "pr_check_archived_root pr bs = Inr (CC_User u)"
  obtains sv' w' where "Server_handle_packet pr handler sv a (part_frame i bs idx) pb h w
      = Some (sv', pb, part_callback handler a u (outcome bs S idx) h, w')"
    "client_receiving sv' a k bs i (insert idx S)" "same_env w w'"
proof -
  obtain c where c: "position (is_client a) (sv_clients sv) = Some k" "sv_clients sv ! k = Some c" "cl_client_addr c = a"
    "buffers_wf (cl_buffers c)" "receiving bs S (incoming (cl_buffers c) i)"
    using sv by (auto simp: client_receiving_def)
  obtain b' w' where s: "PacketBuffers_handle (cl_buffers c) (part_frame i bs idx) (udp a) w
      = Some (Inr (HandlingReceived (outcome bs S idx)), b', w')"
    "same_env w w'" "buffers_wf b'" "receiving bs (insert idx S) (incoming b' i)"
    by (rule udp.handle_part_step [OF w c(4,5) idx])
  let ?c = "c\<lparr>cl_buffers := b'\<rparr>"
  let ?sv = "sv\<lparr>sv_clients := (sv_clients sv)[k := Some ?c]\<rparr>"
  have r: "outcome bs S idx = Reassembled x \<Longrightarrow> x = bs" for x by (simp add: outcome_def split: if_split_asm)
  have "Server_handle_packet pr handler sv a (part_frame i bs idx) pb h w
      = Some (?sv, pb, part_callback handler a u (outcome bs S idx) h, w')"
    using c(1,2) s(1) part_frame_shape(2) [OF idx(2), of i] u r
    by (cases "outcome bs S idx")
      (auto simp: Server_handle_packet_def Server_handle_client_def Server_handle_buffers_def part_callback_def)
  moreover have "client_receiving ?sv a k bs i (insert idx S)"
    using position_is_client_update [OF c(1), of ?c] position_is_client(1) [OF c(1)] c(3) s(3,4)
    by (simp add: client_receiving_def)
  ultimately show ?thesis using s(2) by (rule that)
qed

text \<open>The receive loop of the server over datagrams from \<open>a\<close>; its state is the server and the receive buffer.\<close>

definition server_loop ::
    "('version, 'query, 'status, 'connect, 'accept, 'reject, 'kick, 'disconnect, 'server, 'user) ServerProtocol
      \<Rightarrow> ('h, 'version, 'query, 'status, 'connect, 'accept, 'reject, 'disconnect, 'user) ServerHandler
      \<Rightarrow> SocketAddr \<Rightarrow> Server \<times> u8 list \<Rightarrow> u8 list list \<Rightarrow> 'h \<Rightarrow> world \<Rightarrow> (Server \<times> 'h \<times> world) option" where
  "server_loop pr handler a s ds h w
     = handle_packets_loop pr handler (fst s) (map (\<lambda>d. Inr (a, d)) ds) (snd s) h w"

definition server_arrived :: "('version, 'out, 'in) Protocol \<Rightarrow> 'in \<Rightarrow> SocketAddr \<Rightarrow> nat \<Rightarrow> u8 list \<Rightarrow> PacketId
      \<Rightarrow> Server \<times> u8 list \<Rightarrow> nat set \<Rightarrow> bool" where
  "server_arrived pr p a k bs i s S \<longleftrightarrow> pr_check_archived_root pr bs = Inr p \<and>
     length (snd s) = PACKET_BUFFER_SIZE \<and> client_receiving (fst s) a k bs i S"

interpretation server_parts: part_loop "server_loop pr handler a" "server_arrived pr (CC_User u) a k bs i"
  "part_callback handler a u" i bs for pr handler a u k bs i
proof unfold_locales
  show "\<exists>r. server_loop pr handler a s [] h w = Some (r, h, w)" for s h w
    by (simp add: server_loop_def handle_packets_loop_Nil)
next
  fix w s S idx h
  assume w: "whole_datagrams w" "io_never_fails w" and s: "server_arrived pr (CC_User u) a k bs i s S"
    and idx: "length (chunks bs) < 2 ^ 32" "idx < length (chunks bs)" "idx \<notin> S \<or> length (chunks bs) < 256"
  let ?d = "part_frame i bs idx" let ?pb = "?d @ drop (length ?d) (snd s)"
  have s': "client_receiving (fst s) a k bs i S" "pr_check_archived_root pr bs = Inr (CC_User u)"
    and d: "length ?d \<le> length (snd s)" "length ?pb = PACKET_BUFFER_SIZE"
    using s part_frame_shape(1) [OF idx(2), of i] by (simp_all add: server_arrived_def)
  obtain sv1 w1 where r: "Server_handle_packet pr handler (fst s) a ?d ?pb h w
      = Some (sv1, ?pb, part_callback handler a u (outcome bs S idx) h, w1)"
    "client_receiving sv1 a k bs i (insert idx S)" "same_env w w1"
    by (rule Server_part_handled [OF w s'(1) idx s'(2)])
  show "\<exists>s' w'. server_arrived pr (CC_User u) a k bs i s' (insert idx S) \<and> same_env w w' \<and>
      (\<forall>ds. server_loop pr handler a s (?d # ds) h w = server_loop pr handler a s' ds (part_callback handler a u (outcome bs S idx) h) w')"
    using r s'(2) d by (intro exI [of _ "(sv1, ?pb)"] exI [of _ w1]) (simp add: server_loop_def server_arrived_def handle_packets_loop_Cons)
qed

section \<open>The client\<close>

definition client_callback ::
    "('h, 'version, 'ce, 'status, 'accept, 'reject, 'kick, 'server) ClientHandler
      \<Rightarrow> SocketAddr \<Rightarrow> 'server \<Rightarrow> ReceivedPacket \<Rightarrow> 'h \<Rightarrow> 'h" where
  "client_callback handler a v r h =
     (case r of
        Pending \<Rightarrow> ch_raw_packet handler (RawPart a PartPending) h
      | Duplicate \<Rightarrow> ch_raw_packet handler (RawPart a PartDuplicate) h
      | Reassembled _ \<Rightarrow> kh_packet handler v (ch_raw_packet handler (RawPart a PartReassembled) h))"

definition client_loop ::
    "('version, 'query, 'status, 'connect, 'accept, 'reject, 'kick, 'disconnect, 'server, 'user) ClientProtocol
      \<Rightarrow> ('h, 'version, 'ce, 'status, 'accept, 'reject, 'kick, 'server) ClientHandler
      \<Rightarrow> SocketAddr \<Rightarrow> 'ce Client \<times> u8 list \<Rightarrow> u8 list list \<Rightarrow> 'h \<Rightarrow> world \<Rightarrow> ('ce Client \<times> 'h \<times> world) option" where
  "client_loop pr handler a s ds h w
     = client_packets_loop pr handler (fst s) (map (\<lambda>d. Inr (a, d)) ds) (snd s) h w"

definition client_arrived :: "('version, 'out, 'in) Protocol \<Rightarrow> 'in \<Rightarrow> SocketAddr \<Rightarrow> u8 list \<Rightarrow> PacketId
      \<Rightarrow> 'ce Client \<times> u8 list \<Rightarrow> nat set \<Rightarrow> bool" where
  "client_arrived pr p a bs i s S \<longleftrightarrow> pr_check_archived_root pr bs = Inr p \<and> length (snd s) = PACKET_BUFFER_SIZE \<and>
     ct_state (fst s) = Connected \<and>
     (\<exists>b. first_listener (fst s) a b \<and> buffers_wf b \<and> receiving bs S (incoming b i))"

lemma Client_part_handled:
  assumes w: "whole_datagrams w" "io_never_fails w" and ct: "first_listener ct a b" "ct_state ct = Connected"
    and b: "buffers_wf b" "receiving bs S (incoming b i)"
    and idx: "length (chunks bs) < 2 ^ 32" "idx < length (chunks bs)" "idx \<notin> S \<or> length (chunks bs) < 256"
    and v: "pr_check_archived_root pr bs = Inr (SC_User v)"
  obtains ct' b' w' where "Client_handle_packet pr handler ct a (part_frame i bs idx) h w
      = Some (ct', client_callback handler a v (outcome bs S idx) h, w')"
    "first_listener ct' a b'" "ct_state ct' = Connected" "buffers_wf b'" "receiving bs (insert idx S) (incoming b' i)" "same_env w w'"
proof -
  let ?w = "w\<lparr>ticks := Suc (ticks w)\<rparr>"
  obtain t0 where pos: "position (listens_to a) (ct_listeners ct) = Some 0" "sl_state (ct_listeners ct ! 0) = Compatible b t0"
    "0 < length (ct_listeners ct)"
    using first_listener_position [OF ct(1)] by metis
  have "whole_datagrams ?w" "io_never_fails ?w" using w by (simp_all add: whole_datagrams_def io_never_fails_def)
  then obtain b' w' where s: "PacketBuffers_handle b (part_frame i bs idx) (udp a) ?w
      = Some (Inr (HandlingReceived (outcome bs S idx)), b', w')"
    "same_env ?w w'" "buffers_wf b'" "receiving bs (insert idx S) (incoming b' i)"
    by (rule udp.handle_part_step [OF _ _ b idx])
  let ?ct = "set_listener_state ct 0 (Compatible b' (clock w (ticks w)))"
  have r: "outcome bs S idx = Reassembled x \<Longrightarrow> x = bs" for x by (simp add: outcome_def split: if_split_asm)
  have same: "ct_state ?ct = Connected" "?ct\<lparr>ct_state := Connected\<rparr> = ?ct" using ct(2) by (simp_all add: set_listener_state_def)
  have "Client_handle_packet pr handler ct a (part_frame i bs idx) h w
      = Some (?ct, client_callback handler a v (outcome bs S idx) h, w')"
    using pos s(1) part_frame_shape(2) [OF idx(2), of i] v r ct(2) same
    by (cases "outcome bs S idx")
      (auto simp: Client_handle_packet_def Client_handle_compatible_def Instant_now_def client_callback_def
        Client_handle_connection_packet_def)
  then show ?thesis
    by (rule that [OF _ first_listener_set(1) [OF ct(1)] same(1) s(3,4)]) (use s(2) in \<open>simp add: same_env_def\<close>)
qed

interpretation client_parts: part_loop "client_loop pr handler a" "client_arrived pr (SC_User v) a bs i"
  "client_callback handler a v" i bs
  for pr and handler :: "('h, 'version, 'ce, 'status, 'accept, 'reject, 'kick, 'server) ClientHandler" and a v bs i
proof unfold_locales
  show "\<exists>r. client_loop pr handler a s [] h w = Some (r, h, w)" for s h w
    by (simp add: client_loop_def client_packets_loop_Nil)
next
  fix w S idx h and s :: "'ce Client \<times> u8 list"
  assume w: "whole_datagrams w" "io_never_fails w" and s: "client_arrived pr (SC_User v) a bs i s S"
    and idx: "length (chunks bs) < 2 ^ 32" "idx < length (chunks bs)" "idx \<notin> S \<or> length (chunks bs) < 256"
  let ?d = "part_frame i bs idx" let ?pb = "?d @ drop (length ?d) (snd s)"
  obtain b where b: "first_listener (fst s) a b" "ct_state (fst s) = Connected" "buffers_wf b" "receiving bs S (incoming b i)"
    and v: "pr_check_archived_root pr bs = Inr (SC_User v)" and d: "length ?d \<le> length (snd s)" "length ?pb = PACKET_BUFFER_SIZE"
    using s part_frame_shape(1) [OF idx(2), of i] by (auto simp: client_arrived_def)
  obtain ct1 b1 w1 where r: "Client_handle_packet pr handler (fst s) a ?d h w
      = Some (ct1, client_callback handler a v (outcome bs S idx) h, w1)" "first_listener ct1 a b1" "ct_state ct1 = Connected"
    "buffers_wf b1" "receiving bs (insert idx S) (incoming b1 i)" "same_env w w1"
    by (rule Client_part_handled [OF w b idx v])
  show "\<exists>s' w'. client_arrived pr (SC_User v) a bs i s' (insert idx S) \<and> same_env w w' \<and>
      (\<forall>ds. client_loop pr handler a s (?d # ds) h w = client_loop pr handler a s' ds (client_callback handler a v (outcome bs S idx) h) w')"
    using r v d by (intro exI [of _ "(ct1, ?pb)"] exI [of _ w1]) (auto simp: client_loop_def client_arrived_def client_packets_loop_Cons)
qed

end
