(* ===== verification/Basic_Example.thy ===== *)
theory Basic_Example
  imports Log Server_Spec Client_Spec
begin

text \<open>
  The example program \<^verbatim>\<open>examples/basic.rs\<close>: a server that updates in an endless loop, and a client that
  waits for the version of the server, connects, waits to be connected and sends a big packet. A
  run is driven by the list of what arrives in each round of its loops, one inbox for every call of
  \<open>update\<close>; when the list is exhausted inside a loop the program is still running.
\<close>

section \<open>Packets\<close>

record AwesomePacket =
  ap_name :: string
  ap_age :: u8
  ap_is_awesome :: bool
  ap_big_data :: "u8 list"

text \<open>\<open>CustomPackets\<close> makes every packet of the connection the unit type. \<open>Infallible\<close> and \<open>NoPacket\<close>,
  its error of the compatibility check and its server packets, have no values in Rust; types in HOL
  are not empty, so they stay type parameters.\<close>

type_synonym 'no_packet basic_server_protocol =
  "(unit, unit, unit, unit, unit, unit, unit, unit, 'no_packet, AwesomePacket) ServerProtocol"

type_synonym 'no_packet basic_client_protocol =
  "(unit, unit, unit, unit, unit, unit, unit, unit, 'no_packet, AwesomePacket) ClientProtocol"

section \<open>Running\<close>

datatype ExampleError =
    ExampleIo io_error
  | ExampleQuery QueryError
  | ExampleConnect ConnectError
  | ExampleSend SendError
  | ExampleBail string

text \<open>The program has returned a result, or is still in one of its loops.\<close>

datatype 'state outcome = Returned "ExampleError + unit" | Running 'state

fun update_while ::
    "('version, 'query, 'status, 'connect, 'accept, 'reject, 'kick, 'disconnect, 'server, 'user)
        ClientProtocol
      \<Rightarrow> ('h, 'version, 'ce, 'status, 'accept, 'reject, 'kick, 'server) ClientHandler
      \<Rightarrow> ('ce Client \<Rightarrow> bool) \<Rightarrow> 'ce Client \<Rightarrow> inbox list \<Rightarrow> 'h \<Rightarrow> world
      \<Rightarrow> (bool \<times> 'ce Client \<times> inbox list \<times> 'h \<times> world) option" where
  "update_while pr handler continues client [] h w = Some (\<not> continues client, client, [], h, w)"
| "update_while pr handler continues client (inbox # rounds) h w =
     (if continues client
      then do {
        (client, h, w) \<leftarrow> Client_update pr handler client inbox h w;
        update_while pr handler continues client rounds h w
      }
      else Some (True, client, inbox # rounds, h, w))"

definition awaits_version :: "SocketAddr \<Rightarrow> 'ce Client \<Rightarrow> bool" where
  "awaits_version server_addr client =
     (case Client_compatibility client server_addr of Some Compatibility_Pending \<Rightarrow> True | _ \<Rightarrow> False)"

definition not_connected :: "'ce Client \<Rightarrow> bool" where
  "not_connected client \<longleftrightarrow> Client_state client \<noteq> Connected"

definition BASIC_ADDR :: SocketAddr where
  "BASIC_ADDR = V4 0x7F000001 42069"

definition awesome_packet :: AwesomePacket where
  "awesome_packet = \<lparr>ap_name = concat (replicate 200000 ''test ''), ap_age = 69, ap_is_awesome = True,
     ap_big_data = replicate 4096 42\<rparr>"

section \<open>The client\<close>

text \<open>From \<open>send\<close> on: the packet, then an endless loop.\<close>

definition basic_client_connected ::
    "'no basic_client_protocol \<Rightarrow> (stdout, unit, 'ce, unit, unit, unit, unit, 'no) ClientHandler
      \<Rightarrow> 'ce Client \<Rightarrow> inbox list \<Rightarrow> stdout \<Rightarrow> world \<Rightarrow> ('ce Client outcome \<times> stdout \<times> world) option" where
  "basic_client_connected pr handler client rounds out w = do {
     (r, client, w) \<leftarrow> Client_send pr client awesome_packet w;
     (case r of
        Inl error \<Rightarrow> Some (Returned (Inl (ExampleSend error)), out, w)
      | Inr _ \<Rightarrow> do {
          (_, client, _, out, w) \<leftarrow> update_while pr handler (\<lambda>_. True) client rounds out w;
          Some (Running client, out, w)
        })
   }"

text \<open>From the match on the compatibility on. The answers of \<open>UdpSocket::connect\<close> and \<open>peer_addr\<close> are
  the environment's.\<close>

definition basic_client_compatible ::
    "'no basic_client_protocol \<Rightarrow> (stdout, unit, 'ce, unit, unit, unit, unit, 'no) ClientHandler
      \<Rightarrow> ('ce \<Rightarrow> string) \<Rightarrow> unit io_result \<Rightarrow> SocketAddr io_result
      \<Rightarrow> 'ce Client \<Rightarrow> inbox list \<Rightarrow> stdout \<Rightarrow> world \<Rightarrow> ('ce Client outcome \<times> stdout \<times> world) option" where
  "basic_client_compatible pr handler display_ce socket_connect peer_addr client rounds out w =
     (case Client_compatibility client BASIC_ADDR of
        None \<Rightarrow> Some (Returned (Inr ()), println ''error'' out, w)
      | Some (Compatibility_Incompatible error) \<Rightarrow>
          Some (Returned (Inr ()), println (''incompatible: '' @ display_ce error) out, w)
      | Some Compatibility_Pending \<Rightarrow> None
      | Some Compatibility_Compatible \<Rightarrow> do {
          (r, client, w) \<leftarrow> Client_query pr client BASIC_ADDR () w;
          (case r of
             Inl error \<Rightarrow> Some (Returned (Inl (ExampleQuery error)), out, w)
           | Inr _ \<Rightarrow> do {
               (r, client, w) \<leftarrow> Client_connect pr client socket_connect peer_addr () w;
               (case r of
                  Inl error \<Rightarrow> Some (Returned (Inl (ExampleConnect error)), out, w)
                | Inr _ \<Rightarrow> do {
                    (left, client, rounds, out, w) \<leftarrow>
                      update_while pr handler not_connected client rounds out w;
                    if left then basic_client_connected pr handler client rounds out w
                    else Some (Running client, out, w)
                  })
             })
        })"

definition basic_client ::
    "'no basic_client_protocol \<Rightarrow> (stdout, unit, 'ce, unit, unit, unit, unit, 'no) ClientHandler
      \<Rightarrow> ('ce \<Rightarrow> string) \<Rightarrow> (SocketAddr \<Rightarrow> unit io_result) \<Rightarrow> unit io_result \<Rightarrow> unit io_result
      \<Rightarrow> SocketAddr io_result \<Rightarrow> inbox list \<Rightarrow> stdout \<Rightarrow> world \<Rightarrow> ('ce Client outcome \<times> stdout \<times> world) option" where
  "basic_client pr handler display_ce bind_to set_nonblocking socket_connect peer_addr rounds out w =
     (case Client_new bind_to set_nonblocking of
        Inl error \<Rightarrow> Some (Returned (Inl (ExampleIo error)), out, w)
      | Inr client \<Rightarrow> do {
          (r, client, w) \<leftarrow> Client_listen client BASIC_ADDR w;
          (case r of
             Inl error \<Rightarrow> Some (Returned (Inl (ExampleIo error)), out, w)
           | Inr _ \<Rightarrow> do {
               (left, client, rounds, out, w) \<leftarrow>
                 update_while pr handler (awaits_version BASIC_ADDR) client rounds out w;
               if left
               then basic_client_compatible pr handler display_ce socket_connect peer_addr client rounds out w
               else Some (Running client, out, w)
             })
        })"

section \<open>The server\<close>

fun server_rounds ::
    "('version, 'query, 'status, 'connect, 'accept, 'reject, 'kick, 'disconnect, 'server, 'user)
        ServerProtocol
      \<Rightarrow> ('h, 'version, 'query, 'status, 'connect, 'accept, 'reject, 'disconnect, 'user) ServerHandler
      \<Rightarrow> Server \<Rightarrow> inbox list \<Rightarrow> 'h \<Rightarrow> world \<Rightarrow> (Server \<times> 'h \<times> world) option" where
  "server_rounds pr handler server [] h w = Some (server, h, w)"
| "server_rounds pr handler server (inbox # rounds) h w = do {
     (server, h, w) \<leftarrow> Server_update pr handler server inbox h w;
     server_rounds pr handler server rounds h w
   }"

definition basic_server ::
    "'no basic_server_protocol
      \<Rightarrow> (stdout, unit, unit, unit, unit, unit, unit, unit, AwesomePacket) ServerHandler
      \<Rightarrow> (SocketAddr \<Rightarrow> unit io_result) \<Rightarrow> unit io_result \<Rightarrow> inbox list \<Rightarrow> stdout \<Rightarrow> world
      \<Rightarrow> (Server outcome \<times> stdout \<times> world) option" where
  "basic_server pr handler bind_to set_nonblocking rounds out w =
     (case Server_host (bind_to BASIC_ADDR) set_nonblocking of
        Inl error \<Rightarrow> Some (Returned (Inl (ExampleIo error)), out, w)
      | Inr server \<Rightarrow> do {
          (server, out, w) \<leftarrow> server_rounds pr handler server rounds out w;
          Some (Running server, out, w)
        })"

section \<open>Dispatch\<close>

text \<open>\<open>main\<close> runs one of the two programs, by the first argument of the process.\<close>

definition basic_main ::
    "string list \<Rightarrow> (stdout \<Rightarrow> world \<Rightarrow> (Server outcome \<times> stdout \<times> world) option)
      \<Rightarrow> (stdout \<Rightarrow> world \<Rightarrow> ('ce Client outcome \<times> stdout \<times> world) option) \<Rightarrow> stdout \<Rightarrow> world
      \<Rightarrow> ((Server + 'ce Client) outcome \<times> stdout \<times> world) option" where
  "basic_main args server client out w =
     (if 1 < length args \<and> args ! 1 = ''server''
      then map_option (map_prod (map_outcome Inl) id) (server out w)
      else if 1 < length args \<and> args ! 1 = ''client''
      then map_option (map_prod (map_outcome Inr) id) (client out w)
      else Some (Returned (Inl (ExampleBail
        (''expected '' @ [CHR 0x27] @ ''server'' @ [CHR 0x27] @ '' or '' @ [CHR 0x27] @ ''client'' @ [CHR 0x27]))),
        out, w))"

section \<open>A client that is disconnected stays so\<close>

lemma update_listeners_unlent:
  "update_listeners handler cf False st ls h w = Some (ls', st', h', w') \<Longrightarrow> st' = st"
proof (induction ls arbitrary: st h w ls')
  case (Cons l ls)
  have "lent' = None" if "ServerListener_update handler cf l None h w = Some (keep, l', lent', h1, w1)" for keep l' lent' h1 w1
    using that by (auto simp: ServerListener_update_def run_simps Let_def
        split: ServerState.split_asm option.split_asm prod.split_asm if_split_asm)
  with Cons show ?case by (fastforce simp: bind_eq_Some_conv)
qed simp

lemma timeout_listeners_disconnected:
  "timeout_listeners handler cf Disconnected ls h w = (ls', st', h', w') \<Longrightarrow> st' = Disconnected"
  by (induction ls arbitrary: h w ls')
    (auto simp: Let_def split: ServerState.split_asm option.split_asm prod.split_asm if_split_asm)

lemma client_packets_loop_disconnected:
  assumes "client_packets_loop pr handler ct inbox pb h w = Some (ct', h', w')" "client_wf ct" "ct_state ct = Disconnected"
  shows "ct_state ct' = Disconnected"
  using assms
proof (induction inbox arbitrary: ct pb h w rule: length_induct)
  case (1 inbox)
  obtain d rest pb1 h1 where r: "recv handler inbox pb h = (d, rest, pb1, h1)" by (metis prod_cases4)
  show ?case
  proof (cases d)
    case None
    with r "1.prems" show ?thesis by (simp add: client_packets_loop.simps)
  next
    case (Some x)
    obtain a buf where d: "d = Some (a, buf)" using Some by (cases x) simp
    with r "1.prems"(1) obtain ct1 h2 w1 where p: "Client_handle_packet pr handler ct a buf h1 w = Some (ct1, h2, w1)"
      "client_packets_loop pr handler ct1 rest pb1 h2 w1 = Some (ct', h', w')"
      by (auto simp: client_packets_loop.simps [of pr handler ct inbox] bind_eq_Some_conv)
    have "client_wf ct1"
      using Client_handle_packet_steps [OF p(1) "1.prems"(2)] "1.prems"(2) by (rule client.steps_invar)
    moreover have "ct_state ct1 = Disconnected"
      using Client_handle_packet_state(1) [OF p(1) "1.prems"(2)] "1.prems"(3) by (auto elim: state_step.cases)
    ultimately show ?thesis
      using "1.IH" p(2) recv_shorter [of handler inbox pb h "(a, buf)" rest pb1 h1] r d by blast
  qed
qed

lemma Client_update_disconnected:
  assumes "Client_update pr handler ct inbox h w = Some (ct', h', w')" "client_wf ct" "ct_state ct = Disconnected"
  shows "ct_state ct' = Disconnected"
proof -
  from assms(1) obtain ls st h1 w1 ct2 h2 w2 where u:
    "update_listeners handler (ct_config ct) (ct_state ct \<noteq> Disconnected) (ct_state ct) (ct_listeners ct) h w
      = Some (ls, st, h1, w1)"
    "client_packets_loop pr handler (ct\<lparr>ct_listeners := ls, ct_state := st\<rparr>) inbox (replicate PACKET_BUFFER_SIZE 0) h1 w1
      = Some (ct2, h2, w2)"
    "Client_timeout_connection handler ct2 h2 w2 = (ct', h', w')"
    by (auto simp: Client_update_def bind_eq_Some_conv)
  have st: "st = Disconnected" using u(1) assms(3) by (auto dest: update_listeners_unlent)
  have steps: "(client_step False)\<^sup>*\<^sup>* (ct\<lparr>ct_listeners := [] @ ct_listeners ct, ct_state := ct_state ct\<rparr>)
      (ct\<lparr>ct_listeners := [] @ ls, ct_state := st\<rparr>)"
    using assms(2) by (intro update_listeners_steps [OF u(1)]) (auto simp: client_wf_def)
  have "client_wf (ct\<lparr>ct_listeners := [] @ ls, ct_state := st\<rparr>)"
    by (rule client.steps_invar [OF steps]) (use assms(2) in simp)
  then have "client_wf (ct\<lparr>ct_listeners := ls, ct_state := st\<rparr>)" by simp
  from client_packets_loop_disconnected [OF u(2) this] st have "ct_state ct2 = Disconnected" by simp
  then show ?thesis
    using u(3) timeout_listeners_disconnected by (fastforce simp: Client_timeout_connection_def split: prod.split_asm)
qed

end
