(* ===== verification/Program_Theorems.thy ===== *)
theory Program_Theorems
  imports Handler_Abs Basic_Example Server_Theorems Client_Theorems
begin

text \<open>
  The properties of the logging handlers and of the example program that uses them.
\<close>

section \<open>Logging\<close>

lemma server_logging:
  "Server_update pr (DefaultServerHandler version status accept) sv inbox () w
     = map_option (\<lambda>(sv', _, w'). (sv', (), w'))
         (Server_update pr (BasicLogServerHandler ff sf version status accept) sv inbox out w)"
  "Server_update pr (BasicLogServerHandler ff sf version status accept) sv inbox out w
     = map_option (\<lambda>(sv', lines, w'). (sv', out @ lines, w'))
         (Server_update pr (BasicLogServerHandler ff sf version status accept) sv inbox [] w)"
  using log_server.Server_update_abs [where h = out] append_server.Server_update_abs [where h = "[]"] by simp_all

lemma client_logging:
  "Client_update pr DefaultClientHandler ct inbox () w
     = map_option (\<lambda>(ct', _, w'). (ct', (), w')) (Client_update pr (BasicLogClientHandler ff kf) ct inbox out w)"
  "Client_update pr (BasicLogClientHandler ff kf) ct inbox out w
     = map_option (\<lambda>(ct', lines, w'). (ct', out @ lines, w'))
         (Client_update pr (BasicLogClientHandler ff kf) ct inbox [] w)"
  using log_client.Client_update_abs [where h = out] append_client.Client_update_abs [where h = "[]"] by simp_all

text \<open>C18. Logging is transparent: an update of server or client with the logging handler leaves the same
  state, network and clock as one with the default handler and panics exactly when that does; what
  it prints is appended to what was printed before and does not depend on it.\<close>

theorem logging_transparent:
  "map_option (\<lambda>(sv', _, w'). (sv', w')) (Server_update prs (BasicLogServerHandler ff sf version status accept) sv inbox out w)
     = map_option (\<lambda>(sv', _, w'). (sv', w')) (Server_update prs (DefaultServerHandler version status accept) sv inbox () w) \<and>
   map_option (\<lambda>(ct', _, w'). (ct', w')) (Client_update prc (BasicLogClientHandler ff kf) ct inbox out w)
     = map_option (\<lambda>(ct', _, w'). (ct', w')) (Client_update prc DefaultClientHandler ct inbox () w) \<and>
   Server_update prs (BasicLogServerHandler ff sf version status accept) sv inbox out w
     = map_option (\<lambda>(sv', lines, w'). (sv', out @ lines, w'))
         (Server_update prs (BasicLogServerHandler ff sf version status accept) sv inbox [] w) \<and>
   Client_update prc (BasicLogClientHandler ff kf) ct inbox out w
     = map_option (\<lambda>(ct', lines, w'). (ct', out @ lines, w'))
         (Client_update prc (BasicLogClientHandler ff kf) ct inbox [] w)"
proof (intro conjI server_logging(2) client_logging(2))
  show "map_option (\<lambda>(sv', _, w'). (sv', w')) (Server_update prs (BasicLogServerHandler ff sf version status accept) sv inbox out w)
     = map_option (\<lambda>(sv', _, w'). (sv', w')) (Server_update prs (DefaultServerHandler version status accept) sv inbox () w)"
    by (simp add: server_logging(1) [where ff = ff and sf = sf and out = out] option.map_comp comp_def split_def)
  show "map_option (\<lambda>(ct', _, w'). (ct', w')) (Client_update prc (BasicLogClientHandler ff kf) ct inbox out w)
     = map_option (\<lambda>(ct', _, w'). (ct', w')) (Client_update prc DefaultClientHandler ct inbox () w)"
    by (simp add: client_logging(1) [where ff = ff and kf = kf and out = out] option.map_comp comp_def split_def)
qed

section \<open>The example\<close>

lemma update_while_disconnected:
  assumes "client_wf ct" "ct_state ct = Disconnected"
    and "update_while pr handler not_connected ct rounds h w = Some (left, ct', rest, h', w')"
  shows "\<not> left \<and> rest = [] \<and> ct_state ct' = Disconnected"
  using assms
proof (induction rounds arbitrary: ct h w)
  case Nil
  then show ?case by (auto simp: not_connected_def Client_state_def)
next
  case (Cons inbox rounds)
  have "not_connected ct" using Cons.prems(2) by (simp add: not_connected_def Client_state_def)
  with Cons.prems(3) obtain ct1 h1 w1 where u: "Client_update pr handler ct inbox h w = Some (ct1, h1, w1)"
    "update_while pr handler not_connected ct1 rounds h1 w1 = Some (left, ct', rest, h', w')"
    by (auto simp: bind_eq_Some_conv)
  have "(client_step False)\<^sup>*\<^sup>* ct ct1" by (rule Client_update_steps [OF u(1) Cons.prems(1)]) simp
  then have "client_wf ct1" using Cons.prems(1) by (rule client.steps_invar)
  then show ?case using Client_update_disconnected [OF u(1) Cons.prems(1,2)] u(2) by (rule Cons.IH)
qed

text \<open>C39. The loop in which the example waits to be connected is never left once the client is
  disconnected, as it is after a rejection, a kick or a timeout: whatever arrives in however many
  further rounds, the client stays disconnected, and the example neither sends its packet nor
  returns.\<close>

theorem example_waits_forever:
  assumes "client_wf ct" "ct_state ct = Disconnected"
  shows "(\<nexists>ct' rest out' w'. update_while pr handler not_connected ct rounds out w = Some (True, ct', rest, out', w')) \<and>
    (\<forall>left ct' rest out' w'. update_while pr handler not_connected ct rounds out w = Some (left, ct', rest, out', w') \<longrightarrow>
       ct_state ct' = Disconnected)"
proof (intro conjI allI impI notI)
  show "ct_state ct' = Disconnected"
    if "update_while pr handler not_connected ct rounds out w = Some (left, ct', rest, out', w')" for left ct' rest out' w'
    using update_while_disconnected [OF assms that] by simp
  assume "\<exists>ct' rest out' w'. update_while pr handler not_connected ct rounds out w = Some (True, ct', rest, out', w')"
  then obtain ct' rest out' w' where "update_while pr handler not_connected ct rounds out w = Some (True, ct', rest, out', w')"
    by (elim exE)
  from update_while_disconnected [OF assms this] show False by simp
qed

text \<open>A client whose server timed out, with nothing arriving.\<close>

definition lonely_client :: "unit Client" where
  "lonely_client = \<lparr>ct_config = ClientConfig_default, ct_state = Disconnected, ct_listeners = []\<rparr>"

theorem example_waits_forever_witness:
  "update_while plain_client_protocol plain_client_handler not_connected lonely_client [[], []] () good_world
     = Some (False, lonely_client, [], (), good_world) \<and>
   (\<nexists>ct' rest out' w'. update_while plain_client_protocol plain_client_handler not_connected lonely_client
      [[], [Inr (peer_addr, [])]] () good_world = Some (True, ct', rest, out', w'))"
proof
  have "Client_update plain_client_protocol plain_client_handler lonely_client [] () good_world
      = Some (lonely_client, (), good_world)"
    by (simp add: Client_update_def lonely_client_def client_packets_loop.simps recv_def Client_timeout_connection_def)
  then show "update_while plain_client_protocol plain_client_handler not_connected lonely_client [[], []] () good_world
     = Some (False, lonely_client, [], (), good_world)"
    by (simp add: not_connected_def Client_state_def) (simp add: lonely_client_def)
  have "client_wf lonely_client" "ct_state lonely_client = Disconnected"
    by (simp_all add: client_wf_def lonely_client_def ClientConfig_default_def)
  from example_waits_forever [OF this, of plain_client_protocol plain_client_handler]
  show "\<nexists>ct' rest out' w'. update_while plain_client_protocol plain_client_handler not_connected lonely_client
      [[], [Inr (peer_addr, [])]] () good_world = Some (True, ct', rest, out', w')" by blast
qed

lemma server_rounds_wf:
  assumes "server_rounds pr handler sv rounds h w = Some (sv', h', w')" "server_wf sv" "protocol_ok pr"
  shows "server_wf sv'"
  using assms(1,2)
proof (induction rounds arbitrary: sv h w)
  case (Cons inbox rounds)
  then obtain sv1 h1 w1 where u: "Server_update pr handler sv inbox h w = Some (sv1, h1, w1)"
    "server_rounds pr handler sv1 rounds h1 w1 = Some (sv', h', w')"
    by (auto simp: bind_eq_Some_conv)
  from Server_update_steps [OF u(1) Cons.prems(2) assms(3)] Cons.prems(2) have "server_wf sv1" by (rule server.steps_invar)
  with u(2) show ?case by (rule Cons.IH)
qed simp

text \<open>The example server returns only if its socket cannot be set up; otherwise, whatever arrives in
  however many rounds, it keeps running in a well-formed state.\<close>

lemma example_server_keeps_running:
  assumes "protocol_ok pr" "basic_server pr handler bind_to set_nonblocking rounds out w = Some (res, out', w')"
  shows "case res of
      Returned r \<Rightarrow> \<exists>e. r = Inl (ExampleIo e) \<and> (bind_to BASIC_ADDR = Inl e \<or> set_nonblocking = Inl e)
    | Running sv \<Rightarrow> server_wf sv"
proof (cases "Server_host (bind_to BASIC_ADDR) set_nonblocking")
  case (Inl e)
  with assms(2) show ?thesis
    by (auto simp: basic_server_def Server_host_def Server_host_with_config_def split: sum.split_asm)
next
  case (Inr sv)
  have "config_wf (sc_connection ServerConfig_default)" by (simp add: ServerConfig_default_def)
  then have wf: "server_wf sv" using Inr unfolding Server_host_def by (rule Server_host_wf)
  from Inr assms(2) obtain sv' where "server_rounds pr handler sv rounds out w = Some (sv', out', w')" "res = Running sv'"
    by (auto simp: basic_server_def bind_eq_Some_conv)
  with server_rounds_wf [OF _ wf assms(1)] show ?thesis by auto
qed

end
