(* ===== verification/Stats.thy ===== *)
theory Stats
  imports Send_Buffer
begin

text \<open>
  The statistics of outgoing packets, \<open>SendPacketBuffer::stats\<close> of \<^verbatim>\<open>packet.rs\<close> and the methods of
  \<open>PacketOut\<close> it calls. The throughput is computed in 64-bit floating point, whose operations are a
  parameter; everything else is integer arithmetic.
\<close>

record 'f f64 =
  f64_from_usize :: "usize \<Rightarrow> 'f"
  f64_as_secs :: "Duration \<Rightarrow> 'f"
  f64_div :: "'f \<Rightarrow> 'f \<Rightarrow> 'f"

definition PacketOut_bytes_per_sec :: "'f f64 \<Rightarrow> PacketOut \<Rightarrow> Duration \<Rightarrow> 'f" where
  "PacketOut_bytes_per_sec fl self resend_delay =
     f64_div fl (f64_from_usize fl (PacketOut_last_batch_bytes self)) (f64_as_secs fl resend_delay)"

record 'f PacketOutStats =
  st_acked_bytes :: usize
  st_bytes_per_sec :: 'f
  st_batch_size :: NonZeroBatchSize

definition SendPacketBuffer_stats ::
    "'f f64 \<Rightarrow> SendPacketBuffer \<Rightarrow> PacketId \<Rightarrow> Duration \<Rightarrow> 'f PacketOutStats option" where
  "SendPacketBuffer_stats fl self i resend_delay =
     (case BTreeMap_get (sb_packets self) i of
        None \<Rightarrow> None
      | Some packet \<Rightarrow>
          Some \<lparr>st_acked_bytes = PacketOut_acked_bytes packet,
                st_bytes_per_sec = PacketOut_bytes_per_sec fl packet resend_delay,
                st_batch_size = PacketOut_batch_size packet\<rparr>)"

section \<open>Progress\<close>

text \<open>The count of acked bytes is a multiple of the payload size and no acknowledgement lowers it.\<close>

lemma PacketQueue_ack_first_unacked: "pq_first_unacked q \<le> pq_first_unacked (snd (PacketQueue_ack q s))"
  by (auto simp: PacketQueue_ack_def Let_def)

lemma PacketOut_ack_progress: "PacketOut_acked_bytes p \<le> PacketOut_acked_bytes (snd (PacketOut_ack p s))"
  using PacketQueue_ack_first_unacked [of "po_packet_queue p" s]
  by (auto simp: PacketOut_ack_def PacketOut_acked_bytes_def Let_def split: prod.split sum.split)

lemma stats_progress:
  assumes "send_wf sb" "SendPacketBuffer_stats fl sb i d = Some st"
  obtains st' where "SendPacketBuffer_stats fl (snd (SendPacketBuffer_ack sb i s)) i d = Some st'"
    "st_acked_bytes st \<le> st_acked_bytes st'"
proof -
  obtain p where p: "BTreeMap_get (sb_packets sb) i = Some p" "st_acked_bytes st = PacketOut_acked_bytes p"
    using assms(2) by (auto simp: SendPacketBuffer_stats_def split: option.split_asm)
  obtain r p' where a: "PacketOut_ack p s = (r, p')" by (cases "PacketOut_ack p s")
  have "SendPacketBuffer_ack sb i s = (case r of Inl e \<Rightarrow> Inl (AckSeqIndexAckedBeforeSent e) | Inr x \<Rightarrow> Inr x,
      sb\<lparr>sb_packets := BTreeMap_insert i p' (sb_packets sb)\<rparr>)"
    using p(1) a by (simp add: SendPacketBuffer_ack_def split: sum.split)
  moreover have "btree_invar (sb_packets sb)" using assms(1) by (simp add: send_wf_def)
  ultimately show ?thesis
    using that PacketOut_ack_progress [of p s] p(2) a by (simp add: SendPacketBuffer_stats_def btree.get_insert)
qed

end
