(* ===== verification/Features.thy ===== *)
theory Features
  imports Main
begin

text \<open>
  The feature checks of \<^verbatim>\<open>lib.rs\<close>: the messages of the \<open>compile_error!\<close> calls that a choice of
  features enables, in the order of the source.
\<close>

record features =
  packet_le :: bool
  packet_be :: bool
  packet_ne :: bool

definition compile_errors :: "features \<Rightarrow> string list" where
  "compile_errors feature =
     (if \<not> (packet_le feature \<or> packet_be feature \<or> packet_ne feature)
      then [''enable either packet_le or packet_be; if you are 100% sure you will never send a packet between computers with different endianness, enable packet_ne'']
      else []) @
     (if packet_le feature \<and> packet_be feature
      then [''packet_le and packet_be are mutually exclusive''] else []) @
     (if packet_le feature \<and> packet_ne feature
      then [''packet_le and packet_ne are mutually exclusive''] else []) @
     (if packet_be feature \<and> packet_ne feature
      then [''packet_be and packet_ne are mutually exclusive''] else [])"

text \<open>The crate compiles exactly if one byte order is chosen.\<close>

lemma compiles_iff_one_feature:
  "compile_errors feature = [] \<longleftrightarrow>
     length (filter id [packet_le feature, packet_be feature, packet_ne feature]) = 1"
  by (simp add: compile_errors_def)

end
