(* ===== verification/Spec2Isabelle.thy ===== *)
theory Spec2Isabelle
  imports Packet_Theorems Link_Theorems Server_Theorems Client_Theorems Authentic_Theorems Session_Parts Program_Theorems Stats Features
begin

text \<open>
  A verification of ultinet, a client/server networking library over UDP (Rust, \<^verbatim>\<open>src/src/\<close>).

  \<^bold>\<open>The program.\<close> A packet is serialized into parts of at most 491 bytes of payload
  (\<^verbatim>\<open>packet/serialize.rs\<close>; small packets into a vector, large ones by a background thread through a
  rendezvous channel). A part is a 512-byte buffer with kind, packet id and sequence index
  (\<^verbatim>\<open>packet/send.rs\<close>). The sender keeps the parts that are not acknowledged, sends them in batches
  and resends what is missing; the receiver acknowledges every part, puts the parts together
  (\<^verbatim>\<open>packet/receive.rs\<close>) and forgets the packet when the sender announces that it is done. The send
  and the receive buffer of one connection make up \<open>PacketBuffers\<close> (\<^verbatim>\<open>packet.rs\<close>). On top of them a
  server (\<^verbatim>\<open>net/server.rs\<close>) keeps listeners and clients and pings the clients, and a client
  (\<^verbatim>\<open>net/client.rs\<close>) keeps the servers it listens to and the state of its one connection. Both are
  driven by \<open>update\<close>, which first resends, then handles all datagrams that have arrived, then looks
  for peers that went silent, and both report to a handler of the user (\<^verbatim>\<open>net.rs\<close>).

  \<^bold>\<open>The theories\<close>, from the bottom:
  \<^item> \<open>Prelude\<close>: machine integers, slices, vectors and panics of Rust. \<open>World\<close>: the environment, that
    is clock, UUIDs and network, and \<open>NonBlockingUdpSocket\<close> of \<^verbatim>\<open>net.rs\<close>; the contract of a
    non-blocking socket is the locale \<open>nonblocking\<close>, interpreted on it as \<open>udp\<close>. \<open>BTree_Map\<close>: the
    ordered map of the standard library; contract: locale \<open>key_map\<close>. \<open>Transition\<close>: step relations
    with an invariant (locale \<open>transition_system\<close>).
  \<^item> \<open>Wire\<close>: constants, kinds, ids, control frames and error types of \<^verbatim>\<open>packet.rs\<close>. \<open>Packet_Buffer\<close>:
    the part buffer of \<^verbatim>\<open>packet/send.rs\<close>. \<open>Frames\<close>: how the handlers take a datagram apart.
  \<^item> \<open>Serialize\<close>: \<^verbatim>\<open>packet/serialize.rs\<close>; \<open>Serialize_Spec\<close>: both routes equal the list of parts of
    the byte stream.
  \<^item> \<open>Reassemble\<close>: \<^verbatim>\<open>packet/receive.rs\<close>, related to the set of parts that have arrived.
  \<^item> \<open>Packet_Queue\<close>, \<open>Packet_Out\<close>: the queue of parts and the outgoing packet of
    \<^verbatim>\<open>packet/send.rs\<close>, with the batch size.
  \<^item> \<open>Send_Buffer\<close>, \<open>Receive_Buffer\<close>, \<open>Packet_Buffers\<close>: the three buffers of \<^verbatim>\<open>packet.rs\<close>.
    \<open>Buffers_Wf\<close>: their invariant, the contract of a connection (locale \<open>connection\<close>) and its
    interpretation; \<open>Buffers_Small\<close>: the buffers of peers that only send packets of at most 255
    parts; \<open>Single_Part\<close>, \<open>Resends\<close>: packets of one datagram and packets nobody acknowledges, on a
    network that takes every datagram; \<open>False_Acks\<close>: repeated acknowledgements of the first part;
    \<open>Batch_Size\<close>: the batch size over any sequence of acknowledgements and resends of a packet, as a
    transition system; \<open>Stats\<close>: the statistics of outgoing packets.
  \<^item> \<open>Emits\<close>: every datagram an operation of the buffers puts on the wire, by its kind. \<open>Link\<close>: two
    sides and the network between them as a step relation, in which a datagram that is handled is
    one the other side sent, at any time and any number of times; its invariant (interpretation
    \<open>link\<close> of \<open>transition_system\<close>).
  \<^item> \<open>Config\<close>: \<^verbatim>\<open>config.rs\<close>. \<open>Net\<close>: the connection packets, the handler interface and \<open>recv\<close>.
  \<^item> \<open>Server\<close>: \<^verbatim>\<open>net/server.rs\<close>. \<open>Server_Spec\<close>: the server as a transition system over peers and its
    refinement to roles; \<open>Server_Total\<close>: an update returns.
  \<^item> \<open>Client\<close>: \<^verbatim>\<open>net/client.rs\<close>. \<open>Client_Spec\<close>: the client as a transition system, guarded and
    unguarded; \<open>Client_Total\<close>: an update returns.
  \<^item> \<open>Session\<close>: what server and client do with each other's datagrams; \<open>Session_Parts\<close>: a receive loop over the
    parts of a user packet of any size (locale \<open>part_loop\<close>, interpreted on the loops of server and
    client).
  \<^item> \<open>Display\<close>: the text of addresses, packets and errors. \<open>Log\<close>: \<open>BasicLogConnectionHandler\<close> for
    server and client, with what it prints as its state. \<open>Handler_Abs\<close>: an abstraction between two
    handlers that commutes with every callback commutes with every operation (locales
    \<open>handler_abs\<close>, \<open>server_handler_abs\<close>, \<open>client_handler_abs\<close>, interpreted on the logging handlers).
    \<open>Basic_Example\<close>: the program \<^verbatim>\<open>examples/basic.rs\<close>. \<open>Features\<close>: the feature checks of \<^verbatim>\<open>lib.rs\<close>.
  \<^item> \<open>Authentic\<close>, \<open>Authentic_Client\<close>: a property of the handler's state that the callbacks keep is kept by
    every operation of server and client, if packets that were never sent need not be considered
    (locales \<open>handler_keeps\<close>, \<open>server_handler_keeps\<close>, \<open>client_handler_keeps\<close>, interpreted on handlers
    that keep a log of the packets they are given).
  \<^item> \<open>Example_World\<close>: a concrete environment. \<open>Packet_Theorems\<close>, \<open>Link_Theorems\<close>,
    \<open>Server_Theorems\<close>, \<open>Client_Theorems\<close>, \<open>Authentic_Theorems\<close>, \<open>Program_Theorems\<close> and this theory:
    the properties, each with an instance.

  \<^bold>\<open>How code becomes definitions.\<close> A definition \<open>T_m\<close> models the method \<open>T::m\<close>, in the order of the
  source; structs are records, enums datatypes, \<open>Result\<close> is a sum. A method with \<open>&mut self\<close> returns
  the new value; a panic (failed \<open>unwrap\<close>, \<open>assert!\<close>, \<open>unreachable!\<close>, index out of range, overflow,
  which is checked in debug builds) is \<open>None\<close>, in the option monad. Widths are kept: bytes, batch
  sizes and sequence indices are words with the source's saturating or checked arithmetic; a
  \<open>usize\<close> is a natural number, with the overflow check written out where no container bounds it.
  Closures given to \<open>retain\<close> and loop bodies are definitions of their own. A method that reads the
  clock, draws an id or sends takes and returns the \<open>world\<close>, whose clock, id source and answers to
  \<open>send_to\<close> are arbitrary functions, so that the theorems hold for every network: blocking, failing,
  losing, repeating and reordering. The log \<open>sent\<close> records what went out.

  What is not in the repository is a parameter: the handler is a record of functions on a state of
  its own; \<open>Protocol\<close> holds the writes \<open>rkyv\<close> makes when it serializes a value, the outcome of its
  check of received bytes, and the version packet of the user. \<open>protocol_ok\<close> states what is relied
  on: a version fits into its buffer, and no packet has more than \<open>2^32\<close> parts. \<open>whole_datagrams\<close>
  says that \<open>send_to\<close> sends a datagram whole or not at all.

  \<^bold>\<open>Loops.\<close> All definitions are total. Loops over byte slices are recursive functions with a measure
  on the bytes left and the space in the open part. The receive loops run over the results of
  \<open>recv_from\<close> during one update, a finite list that the theorems quantify over, so that no fuel is
  needed; running the parts of a channel is a list as well, cut where the receiver is dropped. The
  endless loops of the example consume a list of such inboxes, one for each round, and when it is
  used up the program is still running.

  \<^bold>\<open>What is shown.\<close>
  \<^item> Packet layer: serialization on both routes is the same list of numbered parts; the parts,
    handled in any order, deliver exactly the serialized bytes, exactly once (also with
    repetitions, for fewer than 256 parts); sending and resending lose no part, send nothing but
    parts and \<open>Done\<close>, and keep every counter in its range; the whole exchange for a packet in one
    datagram; a packet nobody acknowledges is resent in batches that halve, and then given up; bounds
    on the batch size in every run; what handling an arbitrary datagram can do;
    the type invariant of the part buffer.
  \<^item> Two sides: in every state that sending, updating and handling can reach over a network that
    loses, repeats and reorders, only packets that were sent have been delivered, byte for byte,
    and with packets of fewer than 256 parts nothing on the wire makes a side panic.
  \<^item> Server: the invariant that an address has one role; refinement of every datagram to a step of
    the role protocol; accepting, unlistening, pings, missed pongs and the drop of silent clients;
    no panic on datagrams within the windows, and an update that returns while no part of index 255
    or more has arrived.
  \<^item> Client: distinct listeners; the rule that the connection is the first listener, under exactly
    the guards it needs; its state machine; forgetting and timeouts; no panic and an update that
    returns, under the same conditions.
  \<^item> Both together: the version handshake, the ping, connecting with either answer, user packets of
    one datagram in both directions, packets of many parts in both directions, and disconnecting,
    from the call on one side to the callback on the other.
  \<^item> Handlers: whatever else arrives, server and client hand only packets to their handlers that the
    peer was asked to send, if nobody makes up parts of its packets; the packets a client hands out
    during an update follow the order of the connection protocol.
  \<^item> Logging: the logging handlers change nothing but what is printed.
  \<^item> Behaviour that differs from what comments and names promise, each proved as it is: a part
    below the window panics; acknowledgements are counted from the front of the queue, so that a
    packet acked in order stalls, and copies of one acknowledgement make the sender drop a packet
    that never arrived; a packet whose first batch blocked is abandoned; a failed
    acknowledgement hides a delivered packet; late parts after \<open>Done\<close> are delivered again;
    \<open>refresh_all\<close> during a connection leads to a panic; a connection to a later listener is never
    established; a blocked version query is never repeated; a disconnect never completes, although
    the server acknowledges it; the example waits forever once its client is disconnected.

  \<^bold>\<open>Not modelled.\<close> The derived \<open>Debug\<close>, \<open>Display\<close>, \<open>Hash\<close> and comparison implementations that nothing in
  the crate calls, the \<open>rkyv\<close> instances of the empty type \<open>NoPacket\<close>, whose functions have no value to
  run on, the trait \<open>UpdatePacket\<close>, which nothing calls, and \<^verbatim>\<open>examples/test.rs\<close>, which uses nothing of
  the crate. The floating-point operations of \<open>bytes_per_sec\<close> are a parameter. The order in which a
  thread and its receiver run is not modelled: a rendezvous channel hands over the same parts in the
  same order in every interleaving.
\<close>

section \<open>Client and server together\<close>

text \<open>C7. The ping of the server comes back valid: a client with a connection answers the datagram of
  a ping with the very same bytes and keeps its state; when the server receives them from that
  client while the ping is out, it accepts them as the pong, clears the count of missed pongs and
  notes the time.\<close>

theorem ping_pong:
  assumes "ping_bytes u = Some datagram"
    and "ct_state ct \<noteq> Disconnected" "ct_listeners ct = l # ls" "sl_state l = Compatible b t"
    and "ping_accepted w (sl_server_addr l)"
    and "role sv ca = Slot i" "sv_clients sv ! i = Some c"
    and "cl_active_ping c = Some ap" "ap_ping_id ap = u"
  shows "\<exists>ct' w' sv'.
      Client_handle_packet prc handler ct (sl_server_addr l) datagram h w = Some (ct', kh_ping handler h, w') \<and>
      ct_state ct' = ct_state ct \<and> sent w' = sent w @ [(sl_server_addr l, datagram)] \<and>
      Server_handle_packet prs shandler sv ca datagram pb sh w2
        = Some (sv', pb, sh_pong shandler (cl_client_addr c) True sh, w2\<lparr>ticks := Suc (ticks w2)\<rparr>) \<and>
      sv_clients sv' ! i = Some (c\<lparr>cl_last_pong := Some (clock w2 (ticks w2)), cl_missed_pongs := 0\<rparr>)"
proof -
  have d: "datagram = PacketKind_into Kind_Ping # Uuid_as_bytes u" using assms(1) by (simp add: ping_bytes_eq)
  have "ping_accepted (w\<lparr>ticks := Suc (ticks w)\<rparr>) (sl_server_addr l)"
    using assms(5) by (simp add: ping_accepted_def)
  note up = udp_accepted [OF this, of datagram, unfolded d]
  note echo = Client_ping_echo(1) [OF assms(2-4) PacketKind_roundtrip up, of prc handler h]
    Client_ping_echo(2) [OF assms(2-4) PacketKind_roundtrip up]
  have pos: "position (is_client ca) (sv_clients sv) = Some i"
    using assms(6) by (auto simp: role_def split: option.split_asm if_split_asm)
  have i: "i < length (sv_clients sv)" using position_is_client(1) [OF pos] .
  have pong: "Server_handle_packet prs shandler sv ca datagram pb sh w2
      = Some (sv\<lparr>sv_clients := (sv_clients sv)[i := Some (c\<lparr>cl_last_pong := Some (clock w2 (ticks w2)), cl_missed_pongs := 0\<rparr>)]\<rparr>,
          pb, sh_pong shandler (cl_client_addr c) True sh, w2\<lparr>ticks := Suc (ticks w2)\<rparr>)"
    using pos assms(7) pong_valid [OF assms(8), of shandler u sh w2] assms(9)
    by (simp add: Server_handle_packet_def Server_handle_client_def d)
  show ?thesis using echo pong i by (simp add: d)
qed

theorem ping_pong_witness:
  "\<exists>datagram ct' h' w'. ping_bytes 0 = Some datagram \<and>
     Client_handle_packet plain_client_protocol plain_client_handler (two_servers Connected) peer_addr datagram () good_world
       = Some (ct', h', w') \<and> sent w' = [(peer_addr, datagram)] \<and>
     (\<exists>sv' h2. Server_handle_packet plain_server_protocol plain_server_handler pinging_server peer_addr datagram [] ()
       good_world = Some (sv', [], h2, good_world\<lparr>ticks := 1\<rparr>))"
proof -
  let ?l = "\<lparr>sl_server_addr = peer_addr, sl_state = Compatible (PacketBuffers_new 8) 0\<rparr> :: unit ServerListener"
  obtain datagram where d: "ping_bytes 0 = Some datagram" by (simp add: ping_bytes_eq)
  have c: "ct_state (two_servers Connected) \<noteq> Disconnected" "sl_state ?l = Compatible (PacketBuffers_new 8) 0"
    "ct_listeners (two_servers Connected) = ?l # [?l\<lparr>sl_server_addr := other_addr\<rparr>]"
    by (simp_all add: two_servers_def)
  have w: "ping_accepted good_world (sl_server_addr ?l)" by (simp add: ping_accepted_def good_world_def)
  have s: "role pinging_server peer_addr = Slot 0" "sv_clients pinging_server ! 0 = Some pinged_client"
    "cl_active_ping pinged_client = Some \<lparr>ap_ping_id = 0, ap_ping = 0\<rparr>"
    by (simp_all add: pinging_server_def pinged_client_def ClientConnection_new_def role_def is_client_def)
  have g: "sent good_world = []" "Suc (ticks good_world) = 1" by (simp_all add: good_world_def)
  have "ap_ping_id \<lparr>ap_ping_id = 0, ap_ping = 0\<rparr> = 0" by simp
  from ping_pong [OF d c(1,3,2) w s this, of plain_client_protocol plain_client_handler "()" plain_server_protocol
      plain_server_handler "[]" "()" good_world] d
  show ?thesis unfolding g by auto
qed

text \<open>C8. The version handshake: a version request makes the server answer with its version and
  remember an address it did not know as a listener; a client that waits for the version of that
  server and gets the answer hands exactly this version to its handler, and the server becomes
  compatible with fresh packet buffers, or incompatible, as the handler decides. The version
  packet is only assumed to read back what it wrote.\<close>

theorem version_handshake:
  assumes "server_wf sv" "protocol_ok prs" "length pb = PACKET_BUFFER_SIZE" "ping_accepted w ca"
    and "sh_version shandler sh = (v, sh1)" "pr_version_write prs v (drop 1 pb) = (n, ys)"
    and "pr_version_read prc (take n ys) = Inr v"
    and "position (listens_to sa) (ct_listeners ct) = Some i"
    and "sl_state (ct_listeners ct ! i) = PendingVersion asked"
    and "kh_compatibility handler v h = (answer, h1)"
  shows "\<exists>sv' pb' w' datagram ct' w2'.
      Server_handle_packet prs shandler sv ca [] pb sh w = Some (sv', pb', sh1, w') \<and>
      sent w' = sent w @ [(ca, datagram)] \<and> role sv' ca = (if role sv ca = Unknown then Listening else role sv ca) \<and>
      Client_handle_packet prc handler ct sa datagram h w2 = Some (ct', h1, w2') \<and>
      sl_state (ct_listeners ct' ! i) =
        (case answer of
           Inr _ \<Rightarrow> Compatible (PacketBuffers_new (cf_initial_send_batch_size (cc_connection (ct_config ct)))) (clock w2 (ticks w2))
         | Inl error \<Rightarrow> Incompatible error)"
proof -
  let ?d = "PacketKind_into Kind_Version # take n ys"
  obtain sv' w' where s: "Server_handle_packet prs shandler sv ca [] pb sh w = Some (sv', PacketKind_into Kind_Version # ys, sh1, w')"
    "sent w' = sent w @ [(ca, ?d)]" "role sv' ca = (if role sv ca = Unknown then Listening else role sv ca)"
    using version_request [OF assms(1-6)] by blast
  have i: "i < length (ct_listeners ct)" using position_listens_to(1) [OF assms(8)] .
  have "\<exists>ct' w2'. Client_handle_packet prc handler ct sa ?d h w2 = Some (ct', h1, w2') \<and>
      sl_state (ct_listeners ct' ! i) =
        (case answer of
           Inr _ \<Rightarrow> Compatible (PacketBuffers_new (cf_initial_send_batch_size (cc_connection (ct_config ct)))) (clock w2 (ticks w2))
         | Inl error \<Rightarrow> Incompatible error)"
    using assms(7-10) i
    by (simp add: Client_handle_packet_def Client_handle_pending_def ServerState_compatible_def
        ServerState_incompatible_def Instant_now_def split: sum.split)
  with s show ?thesis by blast
qed

definition pending_client :: "unit Client" where
  "pending_client = \<lparr>ct_config = ClientConfig_default, ct_state = Disconnected,
     ct_listeners = [\<lparr>sl_server_addr = other_addr, sl_state = PendingVersion None\<rparr>]\<rparr>"

theorem version_handshake_witness:
  "\<exists>sv' pb' w' datagram ct' w2'.
     Server_handle_packet plain_server_protocol plain_server_handler empty_server peer_addr []
       (replicate PACKET_BUFFER_SIZE 0) () good_world = Some (sv', pb', (), w') \<and>
     sent w' = [(peer_addr, datagram)] \<and> role sv' peer_addr = Listening \<and>
     Client_handle_packet plain_client_protocol plain_client_handler pending_client other_addr datagram () good_world
       = Some (ct', (), w2') \<and>
     sl_state (ct_listeners ct' ! 0) = Compatible (PacketBuffers_new 8) 0"
proof -
  let ?pb = "replicate PACKET_BUFFER_SIZE 0 :: u8 list"
  have a: "length ?pb = PACKET_BUFFER_SIZE" "ping_accepted good_world peer_addr"
    "sh_version plain_server_handler () = ((), ())"
    "pr_version_write plain_server_protocol () (drop 1 ?pb) = (0, drop 1 ?pb)"
    "pr_version_read plain_client_protocol (take 0 (drop 1 ?pb)) = Inr ()"
    by (simp_all add: ping_accepted_def good_world_def plain_server_handler_def DefaultServerHandler_def
        plain_server_protocol_def unit_version_write_def plain_client_protocol_def unit_version_read_def)
  have b: "position (listens_to other_addr) (ct_listeners pending_client) = Some 0"
    "sl_state (ct_listeners pending_client ! 0) = PendingVersion None"
    "kh_compatibility plain_client_handler () () = (Inr (), ())"
    by (simp_all add: pending_client_def listens_to_def plain_client_handler_def DefaultClientHandler_def)
  have c: "role empty_server peer_addr = Unknown" "sent good_world = []" "clock good_world (ticks good_world) = 0"
    "cf_initial_send_batch_size (cc_connection (ct_config pending_client)) = 8"
    by (simp_all add: role_def empty_server_def BTreeMap_get_def good_world_def pending_client_def
        ClientConfig_default_def ConnectionConfig_default_def)
  from version_handshake [OF empty_server_wf plain_server_protocol_ok a b, of good_world]
  show ?thesis unfolding c by simp
qed

section \<open>Sessions\<close>

text \<open>A pair of protocols to instantiate the next theorems at: all packets are units, told apart by a tag.\<close>

definition client_tag :: "(unit, unit, unit, unit) ClientConnectionPacket \<Rightarrow> u8" where
  "client_tag p = (case p of CC_Query _ \<Rightarrow> 0 | CC_Connect _ \<Rightarrow> 1 | CC_Disconnect _ \<Rightarrow> 2 | CC_User _ \<Rightarrow> 3)"

definition server_tag :: "(unit, unit, unit, unit, unit) ServerConnectionPacket \<Rightarrow> u8" where
  "server_tag p = (case p of SC_Status _ \<Rightarrow> 0 | SC_Accept _ \<Rightarrow> 1 | SC_Reject _ \<Rightarrow> 2 | SC_Kick _ \<Rightarrow> 3 | SC_User _ \<Rightarrow> 4)"

definition tagged_client_protocol ::
    "(unit, unit, unit, unit, unit, unit, unit, unit, unit, unit) ClientProtocol" where
  "tagged_client_protocol = \<lparr>pr_version_write = unit_version_write, pr_version_read = unit_version_read,
     pr_serialize = (\<lambda>p. [[client_tag p]]),
     pr_check_archived_root = (\<lambda>bs.
       if bs = [0] then Inr (SC_Status ()) else if bs = [1] then Inr (SC_Accept ())
       else if bs = [2] then Inr (SC_Reject ()) else if bs = [3] then Inr (SC_Kick ())
       else if bs = [4] then Inr (SC_User ()) else Inl (ValidationError 0))\<rparr>"

definition tagged_server_protocol :: plain_protocol where
  "tagged_server_protocol = \<lparr>pr_version_write = unit_version_write, pr_version_read = unit_version_read,
     pr_serialize = (\<lambda>p. [[server_tag p]]),
     pr_check_archived_root = (\<lambda>bs.
       if bs = [0] then Inr (CC_Query ()) else if bs = [1] then Inr (CC_Connect ())
       else if bs = [2] then Inr (CC_Disconnect ()) else if bs = [3] then Inr (CC_User ())
       else Inl (ValidationError 0))\<rparr>"

lemma tagged_protocols:
  "protocol_ok tagged_server_protocol"
  "length (concat (pr_serialize tagged_client_protocol p)) \<le> 491"
  "length (concat (pr_serialize tagged_server_protocol r)) \<le> 491"
  "pr_check_archived_root tagged_server_protocol (concat (pr_serialize tagged_client_protocol p)) = Inr p"
  "pr_check_archived_root tagged_client_protocol (concat (pr_serialize tagged_server_protocol r)) = Inr r"
  by (simp_all add: protocol_ok_def tagged_server_protocol_def tagged_client_protocol_def unit_version_write_def
      client_tag_def server_tag_def split: ClientConnectionPacket.split ServerConnectionPacket.split)

text \<open>A server with one client.\<close>

definition connected_server :: Server where
  "connected_server = empty_server\<lparr>sv_clients := [Some (ClientConnection_new peer_addr (PacketBuffers_new 8))]\<rparr>"

lemma connected_server:
  "server_wf connected_server" "role connected_server peer_addr = Slot 0"
  "sv_clients connected_server ! 0 = Some (ClientConnection_new peer_addr (PacketBuffers_new 8))"
  "cl_buffers (ClientConnection_new peer_addr (PacketBuffers_new 8)) = PacketBuffers_new 8"
  using empty_server_wf
  by (auto simp: connected_server_def server_wf_def clients_wf_def slots_def slots_distinct_def ClientConnection_new_def
      PacketBuffers_new_wf role_def is_client_def empty_server_def BTreeMap_get_def)

lemma session_start:
  "network_up good_world" "first_listener (two_servers s) peer_addr (PacketBuffers_new 8)"
  "incoming (PacketBuffers_new 8) i = None"
  by (simp_all add: network_up_def good_world_def first_listener_def two_servers_def PacketBuffers_new_def
      ReceivePacketBuffer_default_def BTreeMap_get_def)

text \<open>C9. Connecting, over both programs: the datagram \<open>connect\<close> sends, handled by the server, makes it
  acknowledge and answer as its handler decides; an accepted client gets the first free slot, a
  rejected one stays a listener. The client handles the server's two datagrams in one pass of its
  receive loop, is connected or disconnected accordingly, and its handler gets exactly the answer
  of the server's. For packets that fit into one datagram, ids not in use, and an encoding that
  reads back what it wrote.\<close>

theorem connect_handshake:
  assumes "network_up w" "network_up ws" "network_up w2"
    and "client_wf ct" "ct_state ct = Disconnected" "first_listener ct sa b" "incoming b (fst (PacketId_new ws)) = None"
    and "server_wf sv" "protocol_ok prs" "BTreeMap_get (sv_listeners sv) ca = Some sb"
      "incoming sb (fst (PacketId_new w)) = None"
    and "sh_connect shandler ca con (ch_raw_packet shandler (RawPart ca PartReassembled) sh) = (answer, sh')"
    and "length (concat (pr_serialize prc (CC_Connect con))) \<le> 491"
      "pr_check_archived_root prs (concat (pr_serialize prc (CC_Connect con))) = Inr (CC_Connect con)"
    and "length (concat (pr_serialize prs (connect_reply answer))) \<le> 491"
      "pr_check_archived_root prc (concat (pr_serialize prs (connect_reply answer))) = Inr (connect_reply answer)"
  shows "\<exists>i ct1 w1 frame sv' ws' replies ct2 h2 w2'.
    Client_connect prc ct (Inr ()) (Inr sa) con w = Some (Inr i, ct1, w1) \<and> sent w1 = sent w @ [(sa, frame)] \<and>
    Server_handle_packet prs shandler sv ca frame pb sh ws = Some (sv', pb, sh', ws') \<and>
    sent ws' = sent ws @ map (Pair ca) replies \<and>
    client_packets_loop prc handler ct1 (map (\<lambda>d. Inr (sa, d)) replies) (replicate PACKET_BUFFER_SIZE 0) h w2
      = Some (ct2, h2, w2') \<and>
    (case answer of
       Connect_Accept x \<Rightarrow> role sv' ca = Slot (fst (Server_get_or_add_free_slot (sv_clients sv))) \<and> ct_state ct2 = Connected \<and>
         h2 = kh_accept handler x (ch_raw_packet handler (RawPart sa PartReassembled) (ch_raw_packet handler (RawAck sa False) h))
     | Connect_Reject x \<Rightarrow> role sv' ca = Listening \<and> ct_state ct2 = Disconnected \<and>
         h2 = kh_reject handler x (ch_raw_packet handler (RawPart sa PartReassembled) (ch_raw_packet handler (RawAck sa False) h)))"
proof -
  let ?i = "fst (PacketId_new w)" and ?j = "fst (PacketId_new ws)"
  let ?req = "concat (pr_serialize prc (CC_Connect con))" and ?rep = "concat (pr_serialize prs (connect_reply answer))"
  have b: "buffers_wf b" using client_first_buffers_wf [OF assms(4,6)] .
  obtain ct1 w1 b1 where c: "Client_connect prc ct (Inr ()) (Inr sa) con w = Some (Inr ?i, ct1, w1)"
    "ct_state ct1 = Connecting" "first_listener ct1 sa b1" "awaiting_ack b b1 ?i" "sent w1 = sent w @ [(sa, part_frame ?i ?req 0)]"
    by (rule Client_connect_frame [OF assms(1,6) b assms(5,13)])
  obtain sv' ws' where s: "Server_handle_packet prs shandler sv ca (part_frame ?i ?req 0) pb sh ws = Some (sv', pb, sh', ws')"
    "sent ws' = sent ws @ [(ca, ack_bytes ?i 0), (ca, part_frame ?j ?rep 0)]"
    "role sv' ca = (case answer of Connect_Accept _ \<Rightarrow> Slot (fst (Server_get_or_add_free_slot (sv_clients sv)))
      | Connect_Reject _ \<Rightarrow> Listening)"
    using Server_connect_answered [OF assms(8-11,2,13,14,12,15), of pb] by blast
  obtain b2 ct' where a: "Client_handle_packet prc handler ct1 sa (ack_bytes ?i 0) h w2
      = Some (ct', ch_raw_packet handler (RawAck sa False) h, w2\<lparr>ticks := Suc (ticks w2)\<rparr>)"
    "first_listener ct' sa b2" "pbs_receive_buffer b2 = pbs_receive_buffer b" "ct_state ct' = ct_state ct1"
    by (rule Client_handle_ack [OF c(3,4)])
  let ?w2 = "w2\<lparr>ticks := Suc (ticks w2)\<rparr>" and ?h = "ch_raw_packet handler (RawPart sa PartReassembled) (ch_raw_packet handler (RawAck sa False) h)"
  obtain st h2 where p: "Client_handle_connection_packet handler Connecting True sa (connect_reply answer) ?h = (st, h2)"
    "case answer of Connect_Accept x \<Rightarrow> st = Connected \<and> h2 = kh_accept handler x ?h
      | Connect_Reject x \<Rightarrow> st = Disconnected \<and> h2 = kh_reject handler x ?h"
    by (cases answer) (auto simp: connect_reply_def Client_handle_connection_packet_def)
  have fresh: "recv_wf (pbs_receive_buffer b2)" "incoming b2 ?j = None" "network_up ?w2"
    using a(3) buffers_wf_fields(2) [OF b] assms(3,7) by simp_all
  obtain ct2 rb w2' where r: "Client_handle_packet prc handler ct' sa (part_frame ?j ?rep 0) (ch_raw_packet handler (RawAck sa False) h) ?w2
      = Some (ct2, h2, w2')" "ct_state ct2 = st"
    by (rule Client_handle_frame [OF a(2) fresh(3) assms(15) fresh(1,2) assms(16), of handler _ st h2])
      (use p(1) a(4) c(2) in simp_all)
  have "client_packets_loop prc handler ct1 (map (\<lambda>d. Inr (sa, d)) [ack_bytes ?i 0, part_frame ?j ?rep 0])
      (replicate PACKET_BUFFER_SIZE 0) h w2 = Some (ct2, h2, w2')"
    using a(1) r(1) frame_sizes(1) [OF assms(15), of ?j] frame_sizes(2) [of ?i 0]
    by (simp add: client_packets_loop_Cons client_packets_loop_Nil)
  moreover have "sent ws' = sent ws @ map (Pair ca) [ack_bytes ?i 0, part_frame ?j ?rep 0]" using s(2) by simp
  moreover have "case answer of
       Connect_Accept x \<Rightarrow> role sv' ca = Slot (fst (Server_get_or_add_free_slot (sv_clients sv))) \<and> ct_state ct2 = Connected \<and>
         h2 = kh_accept handler x ?h
     | Connect_Reject x \<Rightarrow> role sv' ca = Listening \<and> ct_state ct2 = Disconnected \<and> h2 = kh_reject handler x ?h"
    using s(3) p(2) r(2) by (cases answer) simp_all
  ultimately show ?thesis using c(1,5) s(1) by blast
qed


theorem connect_handshake_witness:
  "\<exists>i ct1 w1 frame sv' ws' replies ct2 w2'.
    Client_connect tagged_client_protocol (two_servers Disconnected) (Inr ()) (Inr peer_addr) () good_world = Some (Inr i, ct1, w1) \<and>
    sent w1 = [(peer_addr, frame)] \<and>
    Server_handle_packet tagged_server_protocol plain_server_handler listening_server peer_addr frame [] () good_world
      = Some (sv', [], (), ws') \<and> sent ws' = map (Pair peer_addr) replies \<and>
    client_packets_loop tagged_client_protocol plain_client_handler ct1 (map (\<lambda>d. Inr (peer_addr, d)) replies)
      (replicate PACKET_BUFFER_SIZE 0) () good_world = Some (ct2, (), w2') \<and> role sv' peer_addr = Slot 0 \<and>
    ct_state ct2 = Connected"
proof -
  have l: "BTreeMap_get (sv_listeners listening_server) peer_addr = Some (PacketBuffers_new 8)"
    "fst (Server_get_or_add_free_slot (sv_clients listening_server)) = 0" "sent good_world = []"
    by (simp_all add: listening_server_def empty_server_def BTreeMap_get_def Server_get_or_add_free_slot_def good_world_def)
  have a: "sh_connect plain_server_handler peer_addr () (ch_raw_packet plain_server_handler (RawPart peer_addr PartReassembled) ())
      = (Connect_Accept (), ())" by (simp add: plain_server_handler_def DefaultServerHandler_def)
  from connect_handshake [OF session_start(1,1,1) two_servers_wf(1) two_servers_sel session_start(2,3) listening_server_wf
      tagged_protocols(1) l(1) session_start(3) a tagged_protocols(2,4,3,5), of "[]" plain_client_handler "()"]
  show ?thesis unfolding l(2,3) by simp
qed

text \<open>C38. Disconnecting, over both programs: the server tells its handler, frees the slot, makes the
  client a listener again and acknowledges the packet. The client takes the acknowledgement and
  is still disconnecting: no datagram that it can answer ends this state, and \<open>connect\<close> refuses to
  start again.\<close>

theorem disconnect_never_acknowledged:
  assumes "network_up w" "network_up ws" "network_up w2"
    and "client_wf ct" "ct_state ct = Connected" "first_listener ct sa b"
    and "server_wf sv" "protocol_ok prs" "role sv ca = Slot k" "sv_clients sv ! k = Some c"
      "incoming (cl_buffers c) (fst (PacketId_new w)) = None"
    and "length (concat (pr_serialize prc (CC_Disconnect x))) \<le> 491"
      "pr_check_archived_root prs (concat (pr_serialize prc (CC_Disconnect x))) = Inr (CC_Disconnect x)"
  shows "\<exists>i ct1 w1 frame sv' ws' reply ct2 w2'.
    Client_disconnect prc ct x w = Some (Inr i, ct1, w1) \<and> sent w1 = sent w @ [(sa, frame)] \<and>
    Server_handle_packet prs shandler sv ca frame pb sh ws
      = Some (sv', pb, sh_disconnect shandler ca x (ch_raw_packet shandler (RawPart ca PartReassembled) sh), ws') \<and>
    role sv' ca = Listening \<and> sent ws' = sent ws @ [(ca, reply)] \<and>
    Client_handle_packet prc handler ct1 sa reply h w2 = Some (ct2, ch_raw_packet handler (RawAck sa False) h, w2') \<and>
    ct_state ct2 = Disconnecting \<and>
    (\<forall>sock peer y w3. Client_connect prc ct2 sock peer y w3 = Some (Inl Connect_NotDisconnected, ct2, w3)) \<and>
    (\<forall>a buf h3 w3 ct3 h4 w4. network_up w3 \<longrightarrow>
       Client_handle_packet prc handler ct2 a buf h3 w3 = Some (ct3, h4, w4) \<longrightarrow> ct_state ct3 = Disconnecting)"
proof -
  let ?i = "fst (PacketId_new w)" and ?req = "concat (pr_serialize prc (CC_Disconnect x))"
  have b: "buffers_wf b" using client_first_buffers_wf [OF assms(4,6)] .
  obtain ct1 w1 b1 where c: "Client_disconnect prc ct x w = Some (Inr ?i, ct1, w1)"
    "ct_state ct1 = Disconnecting" "first_listener ct1 sa b1" "awaiting_ack b b1 ?i" "sent w1 = sent w @ [(sa, part_frame ?i ?req 0)]"
    by (rule Client_disconnect_frame [OF assms(1,6) b assms(5,12)])
  obtain sv' ws' where s: "Server_handle_packet prs shandler sv ca (part_frame ?i ?req 0) pb sh ws
      = Some (sv', pb, sh_disconnect shandler ca x (ch_raw_packet shandler (RawPart ca PartReassembled) sh), ws')"
    "sent ws' = sent ws @ [(ca, ack_bytes ?i 0)]" "role sv' ca = Listening"
    using Server_disconnect_received [OF assms(7-11,2,12,13), of shandler pb sh] by blast
  obtain b2 ct2 where a: "Client_handle_packet prc handler ct1 sa (ack_bytes ?i 0) h w2
      = Some (ct2, ch_raw_packet handler (RawAck sa False) h, w2\<lparr>ticks := Suc (ticks w2)\<rparr>)"
    "ct_state ct2 = ct_state ct1"
    by (rule Client_handle_ack [OF c(3,4)])
  have "Client_connect prc ct2 sock peer y w3 = Some (Inl Connect_NotDisconnected, ct2, w3)" for sock peer y w3
    using a(2) c(2) by (simp add: Client_connect_def)
  moreover have "ct_state ct3 = Disconnecting"
    if "network_up w3" "Client_handle_packet prc handler ct2 a buf h3 w3 = Some (ct3, h4, w4)" for a buf h3 w3 ct3 h4 w4
  proof (rule Client_disconnecting_stays [OF that(2)])
    show "udp a buf w1 \<noteq> Some (Inl e, w2)" if "send_to w1 = send_to w3" for w1 e w2
      using that \<open>network_up w3\<close> udp_up [of w1 a buf] by (simp add: network_up_def)
  qed (simp add: a(2) c(2))
  ultimately show ?thesis using c(1,2,5) s a by metis
qed

theorem disconnect_never_acknowledged_witness:
  "\<exists>i ct1 w1 frame sv' ws' reply ct2 w2'.
    Client_disconnect tagged_client_protocol (two_servers Connected) () good_world = Some (Inr i, ct1, w1) \<and>
    sent w1 = [(peer_addr, frame)] \<and>
    Server_handle_packet tagged_server_protocol plain_server_handler connected_server peer_addr frame [] () good_world
      = Some (sv', [], (), ws') \<and> role sv' peer_addr = Listening \<and> sent ws' = [(peer_addr, reply)] \<and>
    Client_handle_packet tagged_client_protocol plain_client_handler ct1 peer_addr reply () good_world = Some (ct2, (), w2') \<and>
    ct_state ct2 = Disconnecting"
proof -
  have s: "sent good_world = []" by (simp add: good_world_def)
  have i: "incoming (cl_buffers (ClientConnection_new peer_addr (PacketBuffers_new 8))) i = None" for i
    unfolding connected_server(4) by (rule session_start(3))
  from disconnect_never_acknowledged [OF session_start(1,1,1) two_servers_wf(1) two_servers_sel session_start(2)
      connected_server(1) tagged_protocols(1) connected_server(2,3) i tagged_protocols(2,4),
      where shandler = plain_server_handler and pb = "[]" and sh = "()" and handler = plain_client_handler and h = "()"]
  show ?thesis unfolding s by (simp add: unit_eq) blast
qed

text \<open>C11. User packets of at most 491 bytes, which fit into one datagram, arrive between a connected client
  and its server, in both directions: \<open>send\<close> puts exactly one datagram on the wire, and the other side
  handles it by giving exactly the packet to its handler and sending back the acknowledgement. For
  a network that takes every datagram, ids not in use, a connection to the first listener, and an
  encoding that reads back what it wrote.\<close>

theorem user_packets_delivered:
  assumes "network_up w" "network_up ws"
    and "client_wf ct" "ct_state ct = Connected" "first_listener ct sa b" "incoming b (fst (PacketId_new ws)) = None"
    and "server_wf sv" "role sv ca = Slot k" "sv_clients sv ! k = Some c" "incoming (cl_buffers c) (fst (PacketId_new w)) = None"
    and "length (concat (pr_serialize prc (CC_User u))) \<le> 491"
      "pr_check_archived_root prs (concat (pr_serialize prc (CC_User u))) = Inr (CC_User u)"
    and "length (concat (pr_serialize prs (SC_User v))) \<le> 491"
      "pr_check_archived_root prc (concat (pr_serialize prs (SC_User v))) = Inr (SC_User v)"
  shows "(\<exists>i ct' w' frame sv' ws'. Client_send prc ct u w = Some (Inr i, ct', w') \<and> sent w' = sent w @ [(sa, frame)] \<and>
      Server_handle_packet prs shandler sv ca frame pb sh ws
        = Some (sv', pb, sh_packet shandler ca u (ch_raw_packet shandler (RawPart ca PartReassembled) sh), ws') \<and>
      sent ws' = sent ws @ [(ca, ack_bytes i 0)]) \<and>
    (\<exists>to i sv' ws' frame ct' w'. Server_client sv ca = Some to \<and>
      ServerClient_send prs to v sv ws = Some (Inr i, sv', ws') \<and> sent ws' = sent ws @ [(ca, frame)] \<and>
      Client_handle_packet prc handler ct sa frame h w
        = Some (ct', kh_packet handler v (ch_raw_packet handler (RawPart sa PartReassembled) h), w') \<and>
      sent w' = sent w @ [(sa, ack_bytes i 0)])"
proof (intro conjI)
  let ?i = "fst (PacketId_new w)" and ?up = "concat (pr_serialize prc (CC_User u))"
  have b: "buffers_wf b" using client_first_buffers_wf [OF assms(3,5)] .
  obtain ct' w' b1 where c: "Client_send prc ct u w = Some (Inr ?i, ct', w')" "sent w' = sent w @ [(sa, part_frame ?i ?up 0)]"
    by (rule Client_send_frame [OF assms(1,5) b assms(4,11)])
  with Server_user_packet_received [OF assms(7-10,2,11,12), of shandler pb sh]
  show "\<exists>i ct' w' frame sv' ws'. Client_send prc ct u w = Some (Inr i, ct', w') \<and> sent w' = sent w @ [(sa, frame)] \<and>
      Server_handle_packet prs shandler sv ca frame pb sh ws
        = Some (sv', pb, sh_packet shandler ca u (ch_raw_packet shandler (RawPart ca PartReassembled) sh), ws') \<and>
      sent ws' = sent ws @ [(ca, ack_bytes i 0)]" by blast
  let ?j = "fst (PacketId_new ws)" and ?down = "concat (pr_serialize prs (SC_User v))"
  obtain to where to: "Server_client sv ca = Some to"
    using client_buffers_wf [OF assms(7-9)] by (auto simp: Server_client_def)
  obtain ct2 w2 where r: "Client_handle_packet prc handler ct sa (part_frame ?j ?down 0) h w
      = Some (ct2, kh_packet handler v (ch_raw_packet handler (RawPart sa PartReassembled) h), w2)"
    "sent w2 = sent w @ [(sa, ack_bytes ?j 0)]"
    by (rule Client_handle_frame [OF assms(5,1,13) buffers_wf_fields(2) [OF b] assms(6,14), of handler h Connected])
      (use assms(4) in \<open>simp_all add: Client_handle_connection_packet_def\<close>)
  with ServerClient_send_frame [OF assms(7) to assms(2,13)] to
  show "\<exists>to i sv' ws' frame ct' w'. Server_client sv ca = Some to \<and>
      ServerClient_send prs to v sv ws = Some (Inr i, sv', ws') \<and> sent ws' = sent ws @ [(ca, frame)] \<and>
      Client_handle_packet prc handler ct sa frame h w
        = Some (ct', kh_packet handler v (ch_raw_packet handler (RawPart sa PartReassembled) h), w') \<and>
      sent w' = sent w @ [(sa, ack_bytes i 0)]" by blast
qed

theorem user_packets_delivered_witness:
  "\<exists>i ct' w' frame sv' ws'. Client_send tagged_client_protocol (two_servers Connected) () good_world = Some (Inr i, ct', w') \<and>
     sent w' = [(peer_addr, frame)] \<and>
     Server_handle_packet tagged_server_protocol plain_server_handler connected_server peer_addr frame [] () good_world
       = Some (sv', [], (), ws') \<and> sent ws' = [(peer_addr, ack_bytes i 0)]"
proof -
  have s: "sent good_world = []" by (simp add: good_world_def)
  have i: "incoming (cl_buffers (ClientConnection_new peer_addr (PacketBuffers_new 8))) i = None" for i
    unfolding connected_server(4) by (rule session_start(3))
  from user_packets_delivered [OF session_start(1,1) two_servers_wf(1) two_servers_sel session_start(2,3)
      connected_server(1-3) i tagged_protocols(2,4,3,5),
      where shandler = plain_server_handler and pb = "[]" and sh = "()" and handler = plain_client_handler and h = "()"]
  show ?thesis unfolding s by (simp add: unit_eq)
qed

text \<open>C10. User packets of any size arrive, in both directions: the parts a packet is serialized into,
  arriving in any order within one pass of the receive loop of the other side, each once, or
  repeated as often as the network likes if there are fewer than 256, make the handler there see
  one callback for each datagram, exactly one of which delivers the packet, and the packet it gets
  is the one that was serialized. Nothing panics.\<close>

theorem big_packet_reaches_handler:
  assumes "whole_datagrams w" "io_never_fails w" "length pb = PACKET_BUFFER_SIZE"
    and "server_wf sv" "role sv ca = Slot k" "sv_clients sv ! k = Some c" "incoming (cl_buffers c) i = None"
    and "client_wf ct" "ct_state ct = Connected" "first_listener ct sa b" "incoming b i = None"
    and "length (concat (pr_serialize prc (CC_User u))) \<le> 491 * (2 ^ 32 - 1)"
      "pr_check_archived_root prs (concat (pr_serialize prc (CC_User u))) = Inr (CC_User u)"
      "serialize_packet i t (pr_serialize prc (CC_User u)) = Some up"
      "set upidxs = {..<length (SerializedPacket_parts up)}" "distinct upidxs \<or> length (SerializedPacket_parts up) < 256"
    and "length (concat (pr_serialize prs (SC_User v))) \<le> 491 * (2 ^ 32 - 1)"
      "pr_check_archived_root prc (concat (pr_serialize prs (SC_User v))) = Inr (SC_User v)"
      "serialize_packet i t (pr_serialize prs (SC_User v)) = Some down"
      "set downidxs = {..<length (SerializedPacket_parts down)}" "distinct downidxs \<or> length (SerializedPacket_parts down) < 256"
  shows "(\<exists>rs sv' w'. handle_packets_loop prs shandler sv
        (map (\<lambda>j. Inr (ca, part_wire (SerializedPacket_parts up ! j))) upidxs) pb sh w
        = Some (sv', fold (part_callback shandler ca u) rs sh, w') \<and> length rs = length upidxs \<and>
      filter (\<lambda>r. r \<noteq> Pending \<and> r \<noteq> Duplicate) rs = [Reassembled (concat (pr_serialize prc (CC_User u)))]) \<and>
    (\<exists>rs ct' w'. client_packets_loop prc handler ct
        (map (\<lambda>j. Inr (sa, part_wire (SerializedPacket_parts down ! j))) downidxs) pb h w
        = Some (ct', fold (client_callback handler sa v) rs h, w') \<and> length rs = length downidxs \<and>
      filter (\<lambda>r. r \<noteq> Pending \<and> r \<noteq> Duplicate) rs = [Reassembled (concat (pr_serialize prs (SC_User v)))])"
proof (intro conjI)
  let ?up = "concat (pr_serialize prc (CC_User u))" and ?down = "concat (pr_serialize prs (SC_User v))"
  note up = serialized_frames [OF assms(12,14,15)] and down = serialized_frames [OF assms(17,19,20)]
  have "server_arrived prs (CC_User u) ca k ?up i (sv, pb) {}"
    using client_buffers_wf [OF assms(4-6)] assms(3,6,7,13)
    by (simp add: server_arrived_def client_receiving_def receiving_def)
  from server_parts.loop_packet [OF assms(1,2) this up(1) up(3), of shandler sh] assms(16)
  show "\<exists>rs sv' w'. handle_packets_loop prs shandler sv
        (map (\<lambda>j. Inr (ca, part_wire (SerializedPacket_parts up ! j))) upidxs) pb sh w
        = Some (sv', fold (part_callback shandler ca u) rs sh, w') \<and> length rs = length upidxs \<and>
      filter (\<lambda>r. r \<noteq> Pending \<and> r \<noteq> Duplicate) rs = [Reassembled ?up]"
    unfolding server_loop_def up(2) up(4) [symmetric] by simp
  have "client_arrived prc (SC_User v) sa ?down i (ct, pb) {}"
    using client_first_buffers_wf [OF assms(8,10)] assms(3,9-11,18)
    by (auto simp: client_arrived_def receiving_def intro!: exI [of _ b])
  from client_parts.loop_packet [OF assms(1,2) this down(1) down(3), of handler h] assms(21)
  show "\<exists>rs ct' w'. client_packets_loop prc handler ct
        (map (\<lambda>j. Inr (sa, part_wire (SerializedPacket_parts down ! j))) downidxs) pb h w
        = Some (ct', fold (client_callback handler sa v) rs h, w') \<and> length rs = length downidxs \<and>
      filter (\<lambda>r. r \<noteq> Pending \<and> r \<noteq> Duplicate) rs = [Reassembled ?down]"
    unfolding client_loop_def down(2) down(4) [symmetric] by simp
qed

text \<open>Protocols in which a user packet takes two parts in either direction.\<close>

definition two_part_protocol ::
    "(unit, unit, unit, unit, unit, unit, unit, unit, unit, unit) ClientProtocol" where
  "two_part_protocol = tagged_client_protocol\<lparr>pr_serialize := (\<lambda>_. [replicate 400 3, replicate 400 4]),
     pr_check_archived_root := (\<lambda>bs. if bs = replicate 800 5 then Inr (SC_User ()) else Inl (ValidationError 0))\<rparr>"

definition two_part_server_protocol :: plain_protocol where
  "two_part_server_protocol = tagged_server_protocol\<lparr>pr_serialize := (\<lambda>_. [replicate 800 5]),
     pr_check_archived_root := (\<lambda>bs.
       if bs = replicate 400 3 @ replicate 400 4 then Inr (CC_User ()) else Inl (ValidationError 0))\<rparr>"

theorem big_packet_reaches_handler_witness:
  "\<exists>up down rs sv' h' w' ct' h2 w2. serialize_packet (PacketId 7) 0 [replicate 400 3, replicate 400 4] = Some up \<and>
     handle_packets_loop two_part_server_protocol plain_server_handler connected_server
       (map (\<lambda>j. Inr (peer_addr, part_wire (SerializedPacket_parts up ! j))) [1, 0, 1]) (replicate PACKET_BUFFER_SIZE 0) () good_world
       = Some (sv', h', w') \<and>
     filter (\<lambda>r. r \<noteq> Pending \<and> r \<noteq> Duplicate) rs = [Reassembled (replicate 400 3 @ replicate 400 4)] \<and>
     serialize_packet (PacketId 7) 0 [replicate 800 5] = Some down \<and>
     client_packets_loop two_part_protocol plain_client_handler (two_servers Connected)
       (map (\<lambda>j. Inr (peer_addr, part_wire (SerializedPacket_parts down ! j))) [1, 0]) (replicate PACKET_BUFFER_SIZE 0) () good_world
       = Some (ct', h2, w2)"
proof -
  let ?up = "pr_serialize two_part_protocol (CC_User ())" and ?down = "pr_serialize two_part_server_protocol (SC_User ())"
  have ws: "?up = [replicate 400 3, replicate 400 4]" "?down = [replicate 800 5]"
    by (simp_all add: two_part_protocol_def two_part_server_protocol_def)
  have small: "length (concat ?up) \<le> 491 * (2 ^ 32 - 1)" "length (concat ?down) \<le> 491 * (2 ^ 32 - 1)" by (simp_all add: ws)
  obtain up where up: "serialize_packet (PacketId 7) 0 ?up = Some up" "SerializedPacket_parts up = part_list (PacketId 7) (concat ?up)"
    by (rule serialize_packet_parts [of ?up "PacketId 7" 0]) (simp add: ws)
  obtain down where down: "serialize_packet (PacketId 7) 0 ?down = Some down"
    "SerializedPacket_parts down = part_list (PacketId 7) (concat ?down)"
    by (rule serialize_packet_parts [of ?down "PacketId 7" 0]) (simp add: ws)
  have n: "length (SerializedPacket_parts up) = 2" "length (SerializedPacket_parts down) = 2"
    by (simp_all add: up(2) down(2) ws length_chunks part_count_def)
  have i: "incoming (cl_buffers (ClientConnection_new peer_addr (PacketBuffers_new 8))) (PacketId 7) = None"
    unfolding connected_server(4) by (rule session_start(3))
  have pb: "length (replicate PACKET_BUFFER_SIZE (0 :: u8)) = PACKET_BUFFER_SIZE" by simp
  have c: "pr_check_archived_root two_part_server_protocol (concat ?up) = Inr (CC_User ())"
    "set [1, 0, 1] = {..<length (SerializedPacket_parts up)}"
    "distinct [1, 0, 1 :: nat] \<or> length (SerializedPacket_parts up) < 256"
    "pr_check_archived_root two_part_protocol (concat ?down) = Inr (SC_User ())"
    "set [1, 0] = {..<length (SerializedPacket_parts down)}"
    "distinct [1, 0 :: nat] \<or> length (SerializedPacket_parts down) < 256"
    by (auto simp: ws n two_part_protocol_def two_part_server_protocol_def)
  from big_packet_reaches_handler [OF good_world_whole good_world_never_fails pb connected_server(1-3) i
      two_servers_wf(1) two_servers_sel session_start(2,3) small(1) c(1) up(1) c(2,3) small(2) c(4) down(1) c(5,6),
      of plain_server_handler "()" plain_client_handler "()"] up(1) down(1)
  show ?thesis unfolding ws by auto
qed

end
